(* ===== verification/Prelude.thy ===== *)
theory Prelude
  imports Main "HOL-Library.Word"
begin

text \<open>
  Shared vocabulary of the development: the machine-integer types of the C and Rust sources,
  the errno values of Linux that the sources name, the two C return codes, and generic
  facts on lists, options and words that several components use.
\<close>

unbundle bit_operations_syntax

section \<open>Machine integers\<close>

type_synonym u8 = "8 word"
type_synonym u16 = "16 word"
type_synonym u32 = "32 word"
type_synonym u64 = "64 word"

text \<open>C's \<open>int\<close> is modelled by \<^typ>\<open>int\<close>: descriptors, return codes and errno values.\<close>

type_synonym fd = int
type_synonym errno_t = int

section \<open>errno values and return codes\<close>

abbreviation ENOENT :: errno_t where "ENOENT \<equiv> 2"
abbreviation ESRCH :: errno_t where "ESRCH \<equiv> 3"
abbreviation EINTR :: errno_t where "EINTR \<equiv> 4"
abbreviation EIO :: errno_t where "EIO \<equiv> 5"
abbreviation EAGAIN :: errno_t where "EAGAIN \<equiv> 11"
abbreviation EBUSY :: errno_t where "EBUSY \<equiv> 16"
abbreviation ENODEV :: errno_t where "ENODEV \<equiv> 19"
abbreviation EINVAL :: errno_t where "EINVAL \<equiv> 22"
abbreviation ENOTSUP :: errno_t where "ENOTSUP \<equiv> 95"
abbreviation ECONNRESET :: errno_t where "ECONNRESET \<equiv> 104"
abbreviation ENOTCONN :: errno_t where "ENOTCONN \<equiv> 107"
abbreviation ETIMEDOUT :: errno_t where "ETIMEDOUT \<equiv> 110"

abbreviation TT_OK :: int where "TT_OK \<equiv> 0"
abbreviation TT_ERR :: int where "TT_ERR \<equiv> - 1"

section \<open>Fact collections\<close>

named_theorems op_defs "the definitions of the C operations, unfolded by their own theories' proofs"
named_theorems errno_facts "which errno a failing operation can leave behind"

section \<open>Generic lemmas\<close>

lemma filter_eq_one_append:
  "filter P (xs @ ys) = filter P xs @ filter P ys"
  by simp

lemma length_filter_nil [simp]: "\<forall>x \<in> set xs. \<not> P x \<Longrightarrow> filter P xs = []"
  by (simp add: filter_empty_conv)

lemma drop_length_append [simp]: "drop (length xs) (xs @ ys) = ys"
  by simp

lemma word_and_not_eq_0_iff:
  "x AND NOT m = 0 \<longleftrightarrow> x AND m = x" for x m :: "'a::len word"
  by (simp add: bit_eq_iff bit_simps) blast

end
