(* ===== verification/OS.thy ===== *)
theory OS
  imports Prelude
begin

text \<open>
  The interface the library is linked against: the libc and system calls it makes, the
  ioctls of the kernel driver (whose structures are vendored in \<open>vendor/tt-kmd/ioctl.h\<close>)
  and volatile accesses to mapped device memory. None of that code is in the repository, so
  all of it is one record of functions over an arbitrary world \<open>'w\<close>, a parameter of every
  operation that uses it. The calling thread's \<open>errno\<close> is part of the machine state
  and every call may change it, as libc allows, so that the sources' saving and restoring
  of \<open>errno\<close> is modelled and not assumed. Each call is also recorded in a trace, which
  no definition of the program reads: it is what the lemmas about call order, leaked
  descriptors and untouched devices speak of.
\<close>

section \<open>The structures the calls exchange\<close>

record timespec =
  tv_sec :: int
  tv_nsec :: int

record dirent =
  d_type :: int
  d_name :: string

definition DT_CHR :: int where
  "DT_CHR = 2"

record kmd_device_info =
  k_output_size_bytes :: u32
  k_vendor_id :: u16
  k_device_id :: u16
  k_subsystem_vendor_id :: u16
  k_subsystem_id :: u16
  k_bus_dev_fn :: u16
  k_max_dma_buf_size_log2 :: u16
  k_pci_domain :: u16

record kmd_driver_info =
  k_version_major :: u8
  k_version_minor :: u8
  k_version_patch :: u8

record kmd_tlb_alloc =
  k_id :: u32
  k_mmap_offset_uc :: u64
  k_mmap_offset_wc :: u64

record kmd_noc_config =
  k_addr :: u64
  k_x_end :: u16
  k_y_end :: u16
  k_x_start :: u16
  k_y_start :: u16
  k_noc :: u8
  k_mcast :: u8
  k_ordering :: u8
  k_linked :: u8
  k_static_vc :: u8

record kmd_power_state =
  k_argsz :: u32
  k_flags :: u32
  k_reserved0 :: u8
  k_validity :: u8
  k_power_flags :: u16

datatype smc_op = SMC_POST | SMC_POLL | SMC_ABANDON

text \<open>A signal disposition: default, ignored, or a handler (\<open>True\<close> with \<open>SA_SIGINFO\<close>).\<close>

datatype sigdisp = SigDfl | SigIgn | SigHandler bool

section \<open>Events\<close>

datatype ioctl =
    IoDeviceInfo u32
  | IoDriverInfo u32
  | IoResetDevice u32 u32
  | IoAllocTlb u64
  | IoFreeTlb u32
  | IoConfigTlb u32 kmd_noc_config
  | IoPower kmd_power_state
  | IoSmc smc_op "u32 list"

datatype event =
    EvOpen string u32 fd
  | EvClose fd int
  | EvRead fd
  | EvPread fd
  | EvAccess string int
  | EvRealpath string
  | EvOpendir string
  | EvClosedir
  | EvMmap fd u64 u64 u64
  | EvMunmap u64 u64 int
  | EvIoctl fd ioctl int
  | EvClock
  | EvUsleep nat
  | EvNanosleep timespec
  | EvSigaction
  | EvLoad u64 nat
  | EvStore u64 nat u64

section \<open>The calls\<close>

text \<open>A call reads \<open>errno\<close> and the world and returns its result with both updated.\<close>

type_synonym ('r, 'w) sysc = "errno_t \<Rightarrow> 'w \<Rightarrow> 'r \<times> errno_t \<times> 'w"

text \<open>
  The results follow the C interfaces: a status for calls that return one, \<open>None\<close> for a
  null or \<open>-1\<close> result of calls that return data. \<open>sys_opendir\<close> yields the entries the
  \<open>readdir\<close> calls on the stream return one by one. A load is \<open>None\<close>, and a store
  \<open>False\<close>, when the access raises \<open>SIGBUS\<close>.
\<close>

record 'w os =
  sys_open :: "string \<Rightarrow> u32 \<Rightarrow> (fd, 'w) sysc"
  sys_close :: "fd \<Rightarrow> (int, 'w) sysc"
  sys_read :: "fd \<Rightarrow> nat \<Rightarrow> (string option, 'w) sysc"
  sys_pread :: "fd \<Rightarrow> nat \<Rightarrow> nat \<Rightarrow> (u8 list option, 'w) sysc"
  sys_access :: "string \<Rightarrow> (int, 'w) sysc"
  sys_realpath :: "string \<Rightarrow> (string option, 'w) sysc"
  sys_opendir :: "string \<Rightarrow> (dirent list option, 'w) sysc"
  sys_closedir :: "(unit, 'w) sysc"
  sys_mmap :: "fd \<Rightarrow> u64 \<Rightarrow> u64 \<Rightarrow> (u64, 'w) sysc"
  sys_munmap :: "u64 \<Rightarrow> u64 \<Rightarrow> (int, 'w) sysc"
  sys_clock :: "(timespec, 'w) sysc"
  sys_usleep :: "nat \<Rightarrow> (unit, 'w) sysc"
  sys_nanosleep :: "timespec \<Rightarrow> (int \<times> timespec, 'w) sysc"
  sys_sigaction :: "(sigdisp, 'w) sysc"
  ioc_device_info :: "fd \<Rightarrow> u32 \<Rightarrow> (int \<times> kmd_device_info, 'w) sysc"
  ioc_driver_info :: "fd \<Rightarrow> u32 \<Rightarrow> (int \<times> kmd_driver_info, 'w) sysc"
  ioc_reset_device :: "fd \<Rightarrow> u32 \<Rightarrow> u32 \<Rightarrow> (int \<times> u32, 'w) sysc"
  ioc_alloc_tlb :: "fd \<Rightarrow> u64 \<Rightarrow> (int \<times> kmd_tlb_alloc, 'w) sysc"
  ioc_free_tlb :: "fd \<Rightarrow> u32 \<Rightarrow> (int, 'w) sysc"
  ioc_config_tlb :: "fd \<Rightarrow> u32 \<Rightarrow> kmd_noc_config \<Rightarrow> (int, 'w) sysc"
  ioc_power :: "fd \<Rightarrow> kmd_power_state \<Rightarrow> (int, 'w) sysc"
  ioc_smc :: "fd \<Rightarrow> smc_op \<Rightarrow> u32 list \<Rightarrow> (int \<times> u32 list, 'w) sysc"
  mem_load :: "u64 \<Rightarrow> nat \<Rightarrow> (u64 option, 'w) sysc"
  mem_store :: "u64 \<Rightarrow> nat \<Rightarrow> u64 \<Rightarrow> (bool, 'w) sysc"

section \<open>The machine\<close>

text \<open>
  The thread's \<open>errno\<close>, the world, the trace, and the thread-local and static variables of
  \<open>trap.c\<close> (the only variables the library itself keeps between calls): the armed
  range and the disposition that was installed before the library's handler, \<open>None\<close>
  until the handler is installed.
\<close>

record 'w mach =
  errno :: errno_t
  world :: 'w
  trace :: "event list"
  armed_ptr :: u64
  armed_len :: u64
  prev_disp :: "sigdisp option"

text \<open>Making a call: \<open>f\<close> is the call, \<open>ev\<close> the event that records its result.\<close>

definition call :: "('r, 'w) sysc \<Rightarrow> ('r \<Rightarrow> event) \<Rightarrow> 'w mach \<Rightarrow> 'r \<times> 'w mach" where
  "call f ev s =
     (case f (errno s) (world s) of (r, e, w) \<Rightarrow>
       (r, s\<lparr>errno := e, world := w, trace := trace s @ [ev r]\<rparr>))"

lemma call_trace:
  "call f ev s = (r, s') \<Longrightarrow> trace s' = trace s @ [ev r]"
  by (auto simp: call_def split: prod.splits)

lemma call_trap:
  assumes "call f ev s = (r, s')"
  shows "armed_ptr s' = armed_ptr s" "armed_len s' = armed_len s" "prev_disp s' = prev_disp s"
  using assms by (auto simp: call_def split: prod.splits)

abbreviation k_open :: "'w os \<Rightarrow> string \<Rightarrow> u32 \<Rightarrow> 'w mach \<Rightarrow> fd \<times> 'w mach" where
  "k_open os p fl \<equiv> call (sys_open os p fl) (EvOpen p fl)"

abbreviation k_close :: "'w os \<Rightarrow> fd \<Rightarrow> 'w mach \<Rightarrow> int \<times> 'w mach" where
  "k_close os f \<equiv> call (sys_close os f) (EvClose f)"

abbreviation k_read :: "'w os \<Rightarrow> fd \<Rightarrow> nat \<Rightarrow> 'w mach \<Rightarrow> string option \<times> 'w mach" where
  "k_read os f n \<equiv> call (sys_read os f n) (\<lambda>_. EvRead f)"

abbreviation k_pread :: "'w os \<Rightarrow> fd \<Rightarrow> nat \<Rightarrow> nat \<Rightarrow> 'w mach \<Rightarrow> u8 list option \<times> 'w mach" where
  "k_pread os f n off \<equiv> call (sys_pread os f n off) (\<lambda>_. EvPread f)"

abbreviation k_access :: "'w os \<Rightarrow> string \<Rightarrow> 'w mach \<Rightarrow> int \<times> 'w mach" where
  "k_access os p \<equiv> call (sys_access os p) (EvAccess p)"

abbreviation k_realpath :: "'w os \<Rightarrow> string \<Rightarrow> 'w mach \<Rightarrow> string option \<times> 'w mach" where
  "k_realpath os p \<equiv> call (sys_realpath os p) (\<lambda>_. EvRealpath p)"

abbreviation k_opendir :: "'w os \<Rightarrow> string \<Rightarrow> 'w mach \<Rightarrow> dirent list option \<times> 'w mach" where
  "k_opendir os p \<equiv> call (sys_opendir os p) (\<lambda>_. EvOpendir p)"

abbreviation k_closedir :: "'w os \<Rightarrow> 'w mach \<Rightarrow> unit \<times> 'w mach" where
  "k_closedir os \<equiv> call (sys_closedir os) (\<lambda>_. EvClosedir)"

abbreviation k_mmap :: "'w os \<Rightarrow> fd \<Rightarrow> u64 \<Rightarrow> u64 \<Rightarrow> 'w mach \<Rightarrow> u64 \<times> 'w mach" where
  "k_mmap os f len off \<equiv> call (sys_mmap os f len off) (EvMmap f len off)"

abbreviation k_munmap :: "'w os \<Rightarrow> u64 \<Rightarrow> u64 \<Rightarrow> 'w mach \<Rightarrow> int \<times> 'w mach" where
  "k_munmap os p len \<equiv> call (sys_munmap os p len) (EvMunmap p len)"

abbreviation k_clock :: "'w os \<Rightarrow> 'w mach \<Rightarrow> timespec \<times> 'w mach" where
  "k_clock os \<equiv> call (sys_clock os) (\<lambda>_. EvClock)"

abbreviation k_usleep :: "'w os \<Rightarrow> nat \<Rightarrow> 'w mach \<Rightarrow> unit \<times> 'w mach" where
  "k_usleep os us \<equiv> call (sys_usleep os us) (\<lambda>_. EvUsleep us)"

abbreviation k_nanosleep :: "'w os \<Rightarrow> timespec \<Rightarrow> 'w mach \<Rightarrow> (int \<times> timespec) \<times> 'w mach" where
  "k_nanosleep os t \<equiv> call (sys_nanosleep os t) (\<lambda>_. EvNanosleep t)"

abbreviation k_sigaction :: "'w os \<Rightarrow> 'w mach \<Rightarrow> sigdisp \<times> 'w mach" where
  "k_sigaction os \<equiv> call (sys_sigaction os) (\<lambda>_. EvSigaction)"

abbreviation k_device_info :: "'w os \<Rightarrow> fd \<Rightarrow> u32 \<Rightarrow> 'w mach \<Rightarrow> (int \<times> kmd_device_info) \<times> 'w mach" where
  "k_device_info os f n \<equiv> call (ioc_device_info os f n) (\<lambda>r. EvIoctl f (IoDeviceInfo n) (fst r))"

abbreviation k_driver_info :: "'w os \<Rightarrow> fd \<Rightarrow> u32 \<Rightarrow> 'w mach \<Rightarrow> (int \<times> kmd_driver_info) \<times> 'w mach" where
  "k_driver_info os f n \<equiv> call (ioc_driver_info os f n) (\<lambda>r. EvIoctl f (IoDriverInfo n) (fst r))"

abbreviation k_reset_device :: "'w os \<Rightarrow> fd \<Rightarrow> u32 \<Rightarrow> u32 \<Rightarrow> 'w mach \<Rightarrow> (int \<times> u32) \<times> 'w mach" where
  "k_reset_device os f n fl \<equiv>
     call (ioc_reset_device os f n fl) (\<lambda>r. EvIoctl f (IoResetDevice n fl) (fst r))"

abbreviation k_alloc_tlb :: "'w os \<Rightarrow> fd \<Rightarrow> u64 \<Rightarrow> 'w mach \<Rightarrow> (int \<times> kmd_tlb_alloc) \<times> 'w mach" where
  "k_alloc_tlb os f n \<equiv> call (ioc_alloc_tlb os f n) (\<lambda>r. EvIoctl f (IoAllocTlb n) (fst r))"

abbreviation k_free_tlb :: "'w os \<Rightarrow> fd \<Rightarrow> u32 \<Rightarrow> 'w mach \<Rightarrow> int \<times> 'w mach" where
  "k_free_tlb os f i \<equiv> call (ioc_free_tlb os f i) (EvIoctl f (IoFreeTlb i))"

abbreviation k_config_tlb :: "'w os \<Rightarrow> fd \<Rightarrow> u32 \<Rightarrow> kmd_noc_config \<Rightarrow> 'w mach \<Rightarrow> int \<times> 'w mach" where
  "k_config_tlb os f i c \<equiv> call (ioc_config_tlb os f i c) (EvIoctl f (IoConfigTlb i c))"

abbreviation k_power :: "'w os \<Rightarrow> fd \<Rightarrow> kmd_power_state \<Rightarrow> 'w mach \<Rightarrow> int \<times> 'w mach" where
  "k_power os f p \<equiv> call (ioc_power os f p) (EvIoctl f (IoPower p))"

abbreviation k_smc :: "'w os \<Rightarrow> fd \<Rightarrow> smc_op \<Rightarrow> u32 list \<Rightarrow> 'w mach \<Rightarrow> (int \<times> u32 list) \<times> 'w mach" where
  "k_smc os f op m \<equiv> call (ioc_smc os f op m) (\<lambda>r. EvIoctl f (IoSmc op m) (fst r))"

abbreviation k_load :: "'w os \<Rightarrow> u64 \<Rightarrow> nat \<Rightarrow> 'w mach \<Rightarrow> u64 option \<times> 'w mach" where
  "k_load os a n \<equiv> call (mem_load os a n) (\<lambda>_. EvLoad a n)"

abbreviation k_store :: "'w os \<Rightarrow> u64 \<Rightarrow> nat \<Rightarrow> u64 \<Rightarrow> 'w mach \<Rightarrow> bool \<times> 'w mach" where
  "k_store os a n v \<equiv> call (mem_store os a n v) (\<lambda>_. EvStore a n v)"

end
