(* ===== verification/Err.thy ===== *)
theory Err
  imports OS
begin

text \<open>
  \<open>src/err.h\<close>: how an operation records a failure and returns \<open>-1\<close>, with the one
  normalisation the library makes (a session operation's \<open>ENODEV\<close> reports as \<open>ECONNRESET\<close>),
  and the vocabulary of the lemmas about traces: the events an operation adds, and the
  descriptors those events open and close.
\<close>

section \<open>Recording a failure\<close>

definition tt_fail :: "errno_t \<Rightarrow> 'w mach \<Rightarrow> int \<times> 'w mach" where
  "tt_fail e s = (TT_ERR, s\<lparr>errno := e\<rparr>)"

definition tt_fail_io :: "errno_t \<Rightarrow> 'w mach \<Rightarrow> int \<times> 'w mach" where
  "tt_fail_io e s = tt_fail (if e = ENODEV then ECONNRESET else e) s"

text \<open>
  A C function with an out-parameter returns its code, the parameter's final contents and the
  machine. \<open>out x\<close> returns \<open>x\<close> as the contents.
\<close>

definition out :: "'a \<Rightarrow> int \<times> 'w mach \<Rightarrow> int \<times> 'a \<times> 'w mach" where
  "out x p = (case p of (rc, s) \<Rightarrow> (rc, x, s))"

lemma tt_fail_simps [simp]:
  "tt_fail e s = (rc, s') \<longleftrightarrow> rc = TT_ERR \<and> s' = s\<lparr>errno := e\<rparr>"
  by (auto simp: tt_fail_def)

lemma tt_fail_io_simps [simp]:
  "tt_fail_io e s = (rc, s') \<longleftrightarrow>
     rc = TT_ERR \<and> s' = s\<lparr>errno := if e = ENODEV then ECONNRESET else e\<rparr>"
  by (auto simp: tt_fail_io_def)

lemma out_tt_fail [simp]:
  "out x (tt_fail e s) = (TT_ERR, x, s\<lparr>errno := e\<rparr>)"
  by (simp add: out_def tt_fail_def)

lemma out_tt_fail_io [simp]:
  "out x (tt_fail_io e s) = (TT_ERR, x, s\<lparr>errno := if e = ENODEV then ECONNRESET else e\<rparr>)"
  by (simp add: out_def tt_fail_def tt_fail_io_def)

lemma snd_tt_fail [simp]:
  "snd (tt_fail e s) = s\<lparr>errno := e\<rparr>"
  "snd (tt_fail_io e s) = s\<lparr>errno := if e = ENODEV then ECONNRESET else e\<rparr>"
  by (simp_all add: tt_fail_def tt_fail_io_def)

section \<open>The events of an operation\<close>

definition since :: "'w mach \<Rightarrow> 'w mach \<Rightarrow> event list" where
  "since s s' = drop (length (trace s)) (trace s')"

text \<open>The operation only appended to the trace.\<close>

definition extends :: "'w mach \<Rightarrow> 'w mach \<Rightarrow> bool" where
  "extends s s' \<longleftrightarrow> trace s' = trace s @ since s s'"

lemma extendsI [intro?]: "trace s' = trace s @ tr \<Longrightarrow> extends s s'"
  by (simp add: extends_def since_def)

lemma since_eq: "trace s' = trace s @ tr \<Longrightarrow> since s s' = tr"
  by (simp add: since_def)

lemma since_refl [simp]: "trace s' = trace s \<Longrightarrow> since s s' = []"
  by (simp add: since_def)

lemma extends_refl [simp, intro]: "trace s' = trace s \<Longrightarrow> extends s s'"
  by (simp add: extends_def)

lemma extends_trans: "extends s s' \<Longrightarrow> extends s' s'' \<Longrightarrow> extends s s''"
  by (metis append.assoc extendsI extends_def)

lemma since_trans:
  assumes "extends s s'" "extends s' s''"
  shows "since s s'' = since s s' @ since s' s''"
proof -
  have "trace s'' = trace s @ since s s' @ since s' s''"
    using assms by (simp add: extends_def)
  then show ?thesis by (rule since_eq)
qed

text \<open>Updates of other fields do not matter to \<^const>\<open>since\<close>.\<close>

lemma since_errno [simp]:
  "since (s\<lparr>errno := e\<rparr>) s' = since s s'" "since s (s'\<lparr>errno := e\<rparr>) = since s s'"
  by (simp_all add: since_def)

lemma extends_errno [simp]:
  "extends (s\<lparr>errno := e\<rparr>) s' = extends s s'" "extends s (s'\<lparr>errno := e\<rparr>) = extends s s'"
  by (simp_all add: extends_def)

section \<open>Descriptors opened and closed\<close>

definition opened :: "event list \<Rightarrow> fd list" where
  "opened es = concat (map (\<lambda>e. case e of EvOpen p fl r \<Rightarrow> if r < 0 then [] else [r] | _ \<Rightarrow> []) es)"

definition closed :: "event list \<Rightarrow> fd list" where
  "closed es = concat (map (\<lambda>e. case e of EvClose f r \<Rightarrow> [f] | _ \<Rightarrow> []) es)"

lemma opened_simps [simp]:
  "opened [] = []"
  "opened (e # es) = (case e of EvOpen p fl r \<Rightarrow> if r < 0 then [] else [r] | _ \<Rightarrow> []) @ opened es"
  "opened (xs @ ys) = opened xs @ opened ys"
  by (simp_all add: opened_def)

lemma closed_simps [simp]:
  "closed [] = []"
  "closed (e # es) = (case e of EvClose f r \<Rightarrow> [f] | _ \<Rightarrow> []) @ closed es"
  "closed (xs @ ys) = closed xs @ closed ys"
  by (simp_all add: closed_def)

text \<open>The ioctls issued, in order, with the descriptor each went to.\<close>

definition ioctls :: "event list \<Rightarrow> (fd \<times> ioctl) list" where
  "ioctls es = concat (map (\<lambda>e. case e of EvIoctl f i r \<Rightarrow> [(f, i)] | _ \<Rightarrow> []) es)"

lemma ioctls_simps [simp]:
  "ioctls [] = []"
  "ioctls (e # es) = (case e of EvIoctl f i r \<Rightarrow> [(f, i)] | _ \<Rightarrow> []) @ ioctls es"
  "ioctls (xs @ ys) = ioctls xs @ ioctls ys"
  by (simp_all add: ioctls_def)

text \<open>The observations of two operations run one after the other.\<close>

lemma trace_trans:
  assumes "extends s t" "extends t u"
  shows "extends s u"
    "opened (since s u) = opened (since s t) @ opened (since t u)"
    "closed (since s u) = closed (since s t) @ closed (since t u)"
    "ioctls (since s u) = ioctls (since s t) @ ioctls (since t u)"
  using extends_trans [OF assms] since_trans [OF assms] by simp_all

end
