(* ===== verification/Text.thy ===== *)
theory Text
  imports Prelude "HOL-Library.Char_ord"
begin

text \<open>
  The text formatting and parsing the sources use: \<open>printf\<close>'s \<open>%u\<close>, \<open>%x\<close> and
  zero-padded \<open>%0Nx\<close> (Rust's \<open>{:0Nx}\<close> prints the same digits), C's \<open>strtoul\<close>
  and the \<open>%x\<close> and \<open>SCNu64\<close> conversions of \<open>sscanf\<close>, and Rust's \<open>from_str_radix\<close>
  and \<open>split_once\<close>. Strings are lists of bytes. The lemmas are the round trips between
  the printers and the parsers.
\<close>

section \<open>Digits\<close>

definition digit :: "nat \<Rightarrow> char" where
  "digit d = (if d < 10 then char_of (48 + d) else char_of (87 + d))"

text \<open>The value of a digit in the given base, as \<open>strtoul\<close> and \<open>char::to_digit\<close> read it.\<close>

definition digit_val :: "nat \<Rightarrow> char \<Rightarrow> nat option" where
  "digit_val base c =
     (let n = of_char c :: nat;
          d = (if 48 \<le> n \<and> n \<le> 57 then Some (n - 48)
               else if 97 \<le> n \<and> n \<le> 102 then Some (n - 87)
               else if 65 \<le> n \<and> n \<le> 70 then Some (n - 55)
               else None)
      in case d of None \<Rightarrow> None | Some v \<Rightarrow> if v < base then Some v else None)"

lemma digit_val_digit [simp]:
  "d < base \<Longrightarrow> base \<le> 16 \<Longrightarrow> digit_val base (digit d) = Some d"
  by (auto simp: digit_val_def digit_def Let_def)

lemma digit_val_less: "digit_val base c = Some d \<Longrightarrow> d < base"
  by (auto simp: digit_val_def Let_def split: option.splits if_splits)

lemma digit_eq_iff:
  "d < 16 \<Longrightarrow> e < 16 \<Longrightarrow> digit d = digit e \<longleftrightarrow> d = e"
  by (metis digit_val_digit le_refl option.inject)

section \<open>Printing\<close>

fun show_base :: "nat \<Rightarrow> nat \<Rightarrow> string" where
  "show_base b n = (if n < b \<or> b < 2 then [digit n] else show_base b (n div b) @ [digit (n mod b)])"

declare show_base.simps [simp del]

definition show_dec :: "nat \<Rightarrow> string" where
  "show_dec = show_base 10"

definition show_hex :: "nat \<Rightarrow> string" where
  "show_hex = show_base 16"

definition pad0 :: "nat \<Rightarrow> string \<Rightarrow> string" where
  "pad0 w s = replicate (w - length s) CHR ''0'' @ s"

text \<open>\<open>%0Nx\<close> and \<open>{:0Nx}\<close>.\<close>

definition hex0 :: "nat \<Rightarrow> nat \<Rightarrow> string" where
  "hex0 w n = pad0 w (show_hex n)"

lemma show_base_nonempty [simp]: "show_base b n \<noteq> []"
  by (subst show_base.simps) simp

lemma show_base_digits:
  "2 \<le> b \<Longrightarrow> c \<in> set (show_base b n) \<Longrightarrow> c \<in> digit ` {..<b}"
proof (induction b n rule: show_base.induct)
  case (1 b n)
  show ?case
  proof (cases "n < b")
    case True
    then show ?thesis using "1.prems" by (auto simp: show_base.simps [of b n])
  next
    case False
    moreover have "n mod b < b" using "1.prems"(1) by simp
    ultimately show ?thesis
      using "1.IH" "1.prems" by (auto simp: show_base.simps [of b n])
  qed
qed

lemma show_base_length:
  "2 \<le> b \<Longrightarrow> 0 < k \<Longrightarrow> n < b ^ k \<Longrightarrow> length (show_base b n) \<le> k"
proof (induction b n arbitrary: k rule: show_base.induct)
  case (1 b n)
  show ?case
  proof (cases "n < b")
    case True
    then show ?thesis using "1.prems" by (subst show_base.simps) simp
  next
    case False
    then obtain j where k: "k = Suc j" "0 < j"
      using "1.prems" by (cases k; cases "k - 1") auto
    have "n div b < b ^ j"
      using "1.prems" k by (simp add: less_mult_imp_div_less mult.commute)
    then show ?thesis
      using "1.IH" [of j] False "1.prems" k by (subst show_base.simps) simp
  qed
qed

lemma hex0_nonempty [simp]: "hex0 w n \<noteq> []"
  by (simp add: hex0_def pad0_def show_hex_def)

lemma digit0: "digit 0 = CHR ''0''"
  by (simp add: digit_def char_of_def bit_0)

lemma hex0_digits: "c \<in> set (hex0 w n) \<Longrightarrow> c \<in> digit ` {..<16}"
proof -
  assume "c \<in> set (hex0 w n)"
  then have "c = digit 0 \<or> c \<in> set (show_base 16 n)"
    by (auto simp: hex0_def pad0_def show_hex_def digit0)
  then show ?thesis
    using show_base_digits [of 16 c n] by (auto intro: imageI [of 0])
qed

lemma hex0_length: "n < 16 ^ w \<Longrightarrow> 0 < w \<Longrightarrow> length (hex0 w n) = w"
  using show_base_length [of 16 w n] by (simp add: hex0_def pad0_def show_hex_def)

section \<open>Reading digits\<close>

text \<open>Reads digits while there are any: the value, and what is left.\<close>

fun read_digits :: "nat \<Rightarrow> nat \<Rightarrow> string \<Rightarrow> nat \<times> string" where
  "read_digits b acc [] = (acc, [])"
| "read_digits b acc (c # cs) =
     (case digit_val b c of None \<Rightarrow> (acc, c # cs) | Some d \<Rightarrow> read_digits b (acc * b + d) cs)"

definition starts_digit :: "nat \<Rightarrow> string \<Rightarrow> bool" where
  "starts_digit b cs = (case cs of [] \<Rightarrow> False | c # _ \<Rightarrow> digit_val b c \<noteq> None)"

lemma read_digits_append:
  assumes "2 \<le> b" "b \<le> 16" "\<not> starts_digit b rest"
  shows "read_digits b acc (show_base b n @ rest) =
    (acc * b ^ length (show_base b n) + n, rest)"
  using assms
proof (induction b n arbitrary: acc rest rule: show_base.induct)
  case (1 b n)
  have stop: "read_digits b a rest = (a, rest)" for a
    using "1.prems"(3) by (cases rest) (auto simp: starts_digit_def)
  show ?case
  proof (cases "n < b")
    case True
    then show ?thesis using "1.prems" stop by (simp add: show_base.simps [of b n])
  next
    case False
    have all: "\<forall>c \<in> set (show_base b (n div b)). c \<in> digit ` {..<b}"
      using "1.prems"(1) show_base_digits by blast
    have step: "read_digits b a (xs @ [digit (n mod b)] @ rest) =
        (fst (read_digits b a xs) * b + n mod b, rest)"
      if "\<forall>c \<in> set xs. c \<in> digit ` {..<b}" for xs a
      using that "1.prems" stop by (induction xs arbitrary: a) auto
    have fst: "fst (read_digits b a (show_base b (n div b))) =
        a * b ^ length (show_base b (n div b)) + n div b" for a
      using "1.IH" [of "[]" a] False "1.prems" by (simp add: starts_digit_def)
    show ?thesis
      using step [OF all, of acc] fst [of acc] False "1.prems"(1)
      by (simp add: show_base.simps [of b n] algebra_simps)
  qed
qed

lemma read_digits_zeros:
  assumes "2 \<le> b"
  shows "read_digits b 0 (replicate k CHR ''0'' @ cs) = read_digits b 0 cs"
proof -
  have z: "digit_val b CHR ''0'' = Some 0"
    using assms by (simp add: digit_val_def Let_def)
  show ?thesis by (induction k) (auto simp: z)
qed

lemma read_digits_hex0:
  "\<not> starts_digit 16 rest \<Longrightarrow> read_digits 16 0 (hex0 w n @ rest) = (n, rest)"
  using read_digits_append [of 16 rest 0 n]
  by (simp add: hex0_def pad0_def show_hex_def read_digits_zeros)

lemma read_digits_dec:
  "\<not> starts_digit 10 rest \<Longrightarrow> read_digits 10 0 (show_dec n @ rest) = (n, rest)"
  using read_digits_append [of 10 rest 0 n] by (simp add: show_dec_def)

section \<open>C's number parsing\<close>

definition is_space :: "char \<Rightarrow> bool" where
  "is_space c = (let n = of_char c :: nat in n = 32 \<or> (9 \<le> n \<and> n \<le> 13))"

text \<open>An optional sign: whether it is a minus, and what follows.\<close>

definition read_sign :: "string \<Rightarrow> bool \<times> string" where
  "read_sign cs =
     (case cs of [] \<Rightarrow> (False, [])
      | c # r \<Rightarrow> if c = CHR ''-'' then (True, r) else if c = CHR ''+'' then (False, r) else (False, cs))"

text \<open>
  The value \<open>strtoul\<close> gives digits of value \<open>v\<close>: saturated at \<open>ULONG_MAX\<close>, and negated
  modulo \<open>2 ^ 64\<close> after a minus sign.
\<close>

definition ulong_val :: "bool \<Rightarrow> nat \<Rightarrow> nat" where
  "ulong_val neg v =
     (if 2 ^ 64 \<le> v then 2 ^ 64 - 1 else if neg then (2 ^ 64 - v) mod 2 ^ 64 else v)"

text \<open>\<open>strtoul(s, &endptr, 10)\<close>: the value and what \<open>endptr\<close> points at (all of \<open>s\<close> if no digits).\<close>

definition strtoul10 :: "string \<Rightarrow> nat \<times> string" where
  "strtoul10 cs =
     (case read_sign (dropWhile is_space cs) of (neg, ds) \<Rightarrow>
        if starts_digit 10 ds
        then (case read_digits 10 0 ds of (v, rest) \<Rightarrow> (ulong_val neg v, rest))
        else (0, cs))"

text \<open>\<open>%x\<close>: an optional \<open>0x\<close> prefix, at least one digit, stored in an \<open>unsigned int\<close>.\<close>

definition skip_0x :: "string \<Rightarrow> string" where
  "skip_0x cs =
     (case cs of z # x # r \<Rightarrow> if z = CHR ''0'' \<and> (x = CHR ''x'' \<or> x = CHR ''X'') then r else cs
      | _ \<Rightarrow> cs)"

definition scan_hex :: "string \<Rightarrow> (nat \<times> string) option" where
  "scan_hex cs =
     (case read_sign (dropWhile is_space cs) of (neg, ds) \<Rightarrow>
        let hs = skip_0x ds in
        if starts_digit 16 hs
        then (case read_digits 16 0 hs of (v, rest) \<Rightarrow> Some (ulong_val neg v mod 2 ^ 32, rest))
        else None)"

text \<open>\<open>%SCNu64\<close>.\<close>

definition scan_u64 :: "string \<Rightarrow> (nat \<times> string) option" where
  "scan_u64 cs =
     (case read_sign (dropWhile is_space cs) of (neg, ds) \<Rightarrow>
        if starts_digit 10 ds
        then (case read_digits 10 0 ds of (v, rest) \<Rightarrow> Some (ulong_val neg v, rest))
        else None)"

text \<open>
  \<open>sscanf\<close> over a format of conversions and literal bytes: the values converted until the first
  mismatch. Its return value is the number of conversions, the length of the list.
\<close>

datatype conv = ScanHex | ScanU64 | Lit char

fun sscanf :: "conv list \<Rightarrow> string \<Rightarrow> nat list" where
  "sscanf [] cs = []"
| "sscanf (ScanHex # fs) cs = (case scan_hex cs of None \<Rightarrow> [] | Some (v, r) \<Rightarrow> v # sscanf fs r)"
| "sscanf (ScanU64 # fs) cs = (case scan_u64 cs of None \<Rightarrow> [] | Some (v, r) \<Rightarrow> v # sscanf fs r)"
| "sscanf (Lit l # fs) cs = (case cs of [] \<Rightarrow> [] | c # r \<Rightarrow> if c = l then sscanf fs r else [])"

section \<open>Rust's number parsing\<close>

text \<open>\<open>from_str_radix(s, 16)\<close> at an unsigned type of \<open>bits\<close> bits; \<open>None\<close> is \<open>Err\<close>.\<close>

definition from_str_radix16 :: "nat \<Rightarrow> string \<Rightarrow> nat option" where
  "from_str_radix16 bits s =
     (let ds = (case s of c # r \<Rightarrow> if c = CHR ''+'' \<and> r \<noteq> [] then r else s | [] \<Rightarrow> [])
      in if ds \<noteq> [] \<and> (\<forall>c \<in> set ds. digit_val 16 c \<noteq> None)
         then (let v = fst (read_digits 16 0 ds) in if v < 2 ^ bits then Some v else None)
         else None)"

text \<open>\<open>str::split_once\<close> at a single byte.\<close>

fun split_once :: "char \<Rightarrow> string \<Rightarrow> (string \<times> string) option" where
  "split_once d [] = None"
| "split_once d (c # cs) =
     (if c = d then Some ([], cs)
      else (case split_once d cs of None \<Rightarrow> None | Some (a, b) \<Rightarrow> Some (c # a, b)))"

section \<open>Round trips\<close>

text \<open>What may follow a printed number for it to be read back: no digit, and no \<open>x\<close>.\<close>

definition stops :: "nat \<Rightarrow> string \<Rightarrow> bool" where
  "stops b cs = (case cs of [] \<Rightarrow> True | c # _ \<Rightarrow> digit_val b c = None \<and> c \<noteq> CHR ''x'' \<and> c \<noteq> CHR ''X'')"

lemma stops_simps [simp]:
  "stops b []" "stops 16 (CHR '':'' # cs)" "stops 16 (CHR ''.'' # cs)" "stops 10 (CHR ''.'' # cs)"
  "stops 10 (CHR 0x0A # cs)"
  by (simp_all add: stops_def digit_val_def Let_def)

lemma stops_not_starts: "stops b cs \<Longrightarrow> \<not> starts_digit b cs"
  by (auto simp: stops_def starts_digit_def split: list.splits)

lemma digit_plain:
  assumes "d < 16"
  shows "\<not> is_space (digit d)" "digit d \<noteq> CHR ''-''" "digit d \<noteq> CHR ''+''"
    "digit d \<noteq> CHR ''x''" "digit d \<noteq> CHR ''X''" "digit d \<noteq> CHR '':''" "digit d \<noteq> CHR ''.''"
proof -
  have v: "digit_val 16 (digit d) = Some d"
    using assms by simp
  show "\<not> is_space (digit d)"
    using assms by (auto simp: is_space_def digit_def Let_def)
  show "digit d \<noteq> CHR ''-''" "digit d \<noteq> CHR ''+''" "digit d \<noteq> CHR ''x''" "digit d \<noteq> CHR ''X''"
    "digit d \<noteq> CHR '':''" "digit d \<noteq> CHR ''.''"
    using v by (auto simp: digit_val_def Let_def)
qed

lemma hex0_Cons:
  obtains c cs where "hex0 w n = c # cs" "c \<in> digit ` {..<16}" "set cs \<subseteq> digit ` {..<16}"
proof -
  obtain c cs where "hex0 w n = c # cs"
    by (cases "hex0 w n") auto
  moreover from this have "set (c # cs) \<subseteq> digit ` {..<16}"
    using hex0_digits [of _ w n] by auto
  ultimately show ?thesis
    using that by auto
qed

lemma skip_0x_hex0:
  assumes "stops 16 rest"
  shows "skip_0x (hex0 w n @ rest) = hex0 w n @ rest"
proof -
  obtain c cs where h: "hex0 w n = c # cs" "set cs \<subseteq> digit ` {..<16}"
    by (rule hex0_Cons)
  have "\<forall>x r. cs @ rest = x # r \<longrightarrow> x \<noteq> CHR ''x'' \<and> x \<noteq> CHR ''X''"
  proof (cases cs)
    case Nil
    then show ?thesis using assms by (auto simp: stops_def)
  next
    case (Cons d ds)
    then show ?thesis using h(2) by (auto simp: digit_plain)
  qed
  then show ?thesis
    using h(1) by (cases "cs @ rest") (auto simp: skip_0x_def)
qed

lemma starts_digit_hex0 [simp]: "starts_digit 16 (hex0 w n @ rest)"
proof -
  obtain c cs where "hex0 w n = c # cs" "c \<in> digit ` {..<16}"
    by (rule hex0_Cons)
  then show ?thesis by (auto simp: starts_digit_def)
qed

lemma read_sign_hex0: "read_sign (dropWhile is_space (hex0 w n @ rest)) = (False, hex0 w n @ rest)"
proof -
  obtain c cs where "hex0 w n = c # cs" "c \<in> digit ` {..<16}"
    by (rule hex0_Cons)
  then show ?thesis by (auto simp: read_sign_def digit_plain)
qed

lemma scan_hex_hex0:
  assumes "stops 16 rest" "n < 2 ^ 32"
  shows "scan_hex (hex0 w n @ rest) = Some (n, rest)"
  using assms
  by (simp add: scan_hex_def read_sign_hex0 skip_0x_hex0 read_digits_hex0 stops_not_starts
      ulong_val_def)

lemma show_dec_Cons:
  obtains c cs where "show_dec n = c # cs" "c \<in> digit ` {..<10}"
proof -
  obtain c cs where "show_dec n = c # cs"
    by (cases "show_dec n") (auto simp: show_dec_def)
  moreover from this have "c \<in> digit ` {..<10}"
    using show_base_digits [of 10 c n] by (simp add: show_dec_def)
  ultimately show ?thesis
    using that by auto
qed

lemma show_dec_front:
  "starts_digit 10 (show_dec n @ rest)"
  "read_sign (dropWhile is_space (show_dec n @ rest)) = (False, show_dec n @ rest)"
proof -
  obtain c cs where h: "show_dec n = c # cs" "c \<in> digit ` {..<10}"
    by (rule show_dec_Cons)
  then obtain d where d: "c = digit d" "d < 10" by auto
  then show "starts_digit 10 (show_dec n @ rest)"
    using h(1) by (simp add: starts_digit_def)
  show "read_sign (dropWhile is_space (show_dec n @ rest)) = (False, show_dec n @ rest)"
    using h(1) d digit_plain [of d] by (simp add: read_sign_def)
qed

lemma strtoul10_show_dec:
  "n < 2 ^ 64 \<Longrightarrow> stops 10 rest \<Longrightarrow> strtoul10 (show_dec n @ rest) = (n, rest)"
  by (simp add: strtoul10_def show_dec_front read_digits_dec stops_not_starts ulong_val_def)

lemma scan_u64_show_dec:
  "n < 2 ^ 64 \<Longrightarrow> stops 10 rest \<Longrightarrow> scan_u64 (show_dec n @ rest) = Some (n, rest)"
  by (simp add: scan_u64_def show_dec_front read_digits_dec stops_not_starts ulong_val_def)

lemma from_str_radix16_hex0:
  assumes "n < 2 ^ bits"
  shows "from_str_radix16 bits (hex0 w n) = Some n"
proof -
  obtain c cs where h: "hex0 w n = c # cs" "c \<in> digit ` {..<16}" "set cs \<subseteq> digit ` {..<16}"
    by (rule hex0_Cons)
  moreover have "c \<noteq> CHR ''+''"
    using h(2) by (auto simp: digit_plain)
  moreover have "\<forall>x \<in> set (c # cs). digit_val 16 x \<noteq> None"
    using h by auto
  moreover have "read_digits 16 0 (hex0 w n) = (n, [])"
    using read_digits_hex0 [of "[]" w n] by (simp add: starts_digit_def)
  ultimately show ?thesis
    using assms by (simp add: from_str_radix16_def)
qed

lemma split_once_append: "d \<notin> set xs \<Longrightarrow> split_once d (xs @ d # ys) = Some (xs, ys)"
  by (induction xs) auto

lemma hex0_no_sep: "CHR '':'' \<notin> set (hex0 w n)" "CHR ''.'' \<notin> set (hex0 w n)"
  using hex0_digits [of _ w n] digit_plain by fastforce+

lemma show_dec_inj: "show_dec m = show_dec n \<longleftrightarrow> m = n"
proof -
  have "fst (read_digits 10 0 (show_dec k)) = k" for k
    using read_digits_dec [of "[]" k] by (simp add: starts_digit_def)
  then show ?thesis by metis
qed

lemma hex0_inj: "hex0 w m = hex0 w n \<longleftrightarrow> m = n"
proof -
  have "fst (read_digits 16 0 (hex0 w k)) = k" for k
    using read_digits_hex0 [of "[]" w k] by (simp add: starts_digit_def)
  then show ?thesis by metis
qed

end
