(* ===== verification/Stub.thy ===== *)
theory Stub
  imports OS
begin

text \<open>
  A small simulated system, used only by the witnesses: the concrete instance of the interface
  at which the theorems with hypotheses are applied. Its world is a clock in nanoseconds
  and the set of descriptors with a message outstanding. Calls succeed at once with empty
  results, sleeping advances the clock by the time asked for, and a message is answered by zeros. Witnesses override single calls of it.
\<close>

type_synonym stub_world = "nat \<times> fd set"

definition ret0 :: "'r \<Rightarrow> ('r, stub_world) sysc" where
  "ret0 r e w = (r, e, w)"

definition fails :: "'r \<Rightarrow> errno_t \<Rightarrow> ('r, stub_world) sysc" where
  "fails r err e w = (r, err, w)"

definition stub_info :: kmd_device_info where
  "stub_info =
     \<lparr>k_output_size_bytes = 20, k_vendor_id = 0x1e52, k_device_id = 0x401e, k_subsystem_vendor_id = 0,
      k_subsystem_id = 0, k_bus_dev_fn = 0x0300, k_max_dma_buf_size_log2 = 0, k_pci_domain = 0\<rparr>"

text \<open>The message slot: a post occupies it, a poll that finds a message consumes it.\<close>

definition stub_smc :: "fd \<Rightarrow> smc_op \<Rightarrow> u32 list \<Rightarrow> (int \<times> u32 list, stub_world) sysc" where
  "stub_smc f op m e w =
     (case op of
        SMC_POST \<Rightarrow> if f \<in> snd w then ((- 1, m), EBUSY, w) else ((0, m), e, fst w, insert f (snd w))
      | SMC_POLL \<Rightarrow> if f \<in> snd w then ((0, m), e, fst w, snd w - {f}) else ((- 1, m), ESRCH, w)
      | SMC_ABANDON \<Rightarrow> ((0, m), e, fst w, snd w - {f}))"

definition stub_os :: "stub_world os" where
  "stub_os =
     \<lparr>sys_open = (\<lambda>_ _. ret0 3),
      sys_close = (\<lambda>_. ret0 0),
      sys_read = (\<lambda>_ _. ret0 (Some ''19.4.2.0'')),
      sys_pread = (\<lambda>_ _ _. ret0 (Some [0])),
      sys_access = (\<lambda>_. ret0 0),
      sys_realpath = (\<lambda>p. ret0 (Some p)),
      sys_opendir = (\<lambda>_. ret0 (Some [])),
      sys_closedir = ret0 (),
      sys_mmap = (\<lambda>_ _ _. ret0 0x10000000),
      sys_munmap = (\<lambda>_ _. ret0 0),
      sys_clock = (\<lambda>e w. (\<lparr>tv_sec = int (fst w) div 10 ^ 9, tv_nsec = int (fst w) mod 10 ^ 9\<rparr>, e, w)),
      sys_usleep = (\<lambda>us e w. ((), e, fst w + us * 1000, snd w)),
      sys_nanosleep = (\<lambda>t e w. ((0, t), e, fst w + nat (tv_sec t * 10 ^ 9 + tv_nsec t), snd w)),
      sys_sigaction = ret0 SigDfl,
      ioc_device_info = (\<lambda>_ _. ret0 (0, stub_info)),
      ioc_driver_info = (\<lambda>_ _. ret0 (0, \<lparr>k_version_major = 2, k_version_minor = 11, k_version_patch = 0\<rparr>)),
      ioc_reset_device = (\<lambda>_ _ _. ret0 (0, 0)),
      ioc_alloc_tlb = (\<lambda>_ _. ret0 (0, \<lparr>k_id = 7, k_mmap_offset_uc = 0x1000, k_mmap_offset_wc = 0x2000\<rparr>)),
      ioc_free_tlb = (\<lambda>_ _. ret0 0),
      ioc_config_tlb = (\<lambda>_ _ _. ret0 0),
      ioc_power = (\<lambda>_ _. ret0 0),
      ioc_smc = stub_smc,
      mem_load = (\<lambda>_ _. ret0 (Some 0)),
      mem_store = (\<lambda>_ _ _. ret0 True)\<rparr>"

definition stub_mach :: "stub_world mach" where
  "stub_mach =
     \<lparr>errno = 0, world = (0, {}), trace = [], armed_ptr = 0, armed_len = 0, prev_disp = None\<rparr>"

lemmas stub_defs = stub_os_def stub_mach_def ret0_def fails_def call_def

end
