(* ===== verification/Device.thy ===== *)
theory Device
  imports Err Text Stub
begin

text \<open>
  \<open>src/dev/mod.c\<close>: device descriptors, discovery and the session lifecycle. A null pointer is
  \<^const>\<open>None\<close>; an operation with an out-parameter returns the parameter's final contents.
\<close>

section \<open>Data\<close>

record tt_device =
  dev_id :: u32

record tt_session =
  sess_dev :: tt_device
  sess_fd :: fd
  sess_flags :: u16

record tt_dev_info =
  di_output_size_bytes :: u32
  di_vendor_id :: u16
  di_device_id :: u16
  di_subsystem_vendor_id :: u16
  di_subsystem_id :: u16
  di_bus_dev_fn :: u16
  di_max_dma_buf_size_log2 :: u16
  di_pci_domain :: u16

definition TT_OPEN_EXCL :: u16 where
  "TT_OPEN_EXCL = 1"

definition TT_OPEN_NONBLOCK :: u16 where
  "TT_OPEN_NONBLOCK = 2"

text \<open>The \<open>open(2)\<close> flags of Linux.\<close>

definition O_RDONLY :: u32 where "O_RDONLY = 0"
definition O_RDWR :: u32 where "O_RDWR = 2"
definition O_EXCL :: u32 where "O_EXCL = 0x80"
definition O_APPEND :: u32 where "O_APPEND = 0x400"
definition O_NONBLOCK :: u32 where "O_NONBLOCK = 0x800"
definition O_CLOEXEC :: u32 where "O_CLOEXEC = 0x80000"

definition PATH_MAX :: nat where
  "PATH_MAX = 4096"

text \<open>The node of a device, \<open>/dev/tenstorrent/<id>\<close>.\<close>

definition dev_prefix :: string where
  "dev_prefix = ''/dev/tenstorrent/''"

definition dev_path :: "tt_device \<Rightarrow> string" where
  "dev_path d = dev_prefix @ show_dec (unat (dev_id d))"

section \<open>Sessions\<close>

definition open_flags :: "u16 \<Rightarrow> u32" where
  "open_flags flags =
     (let o0 = O_RDWR OR O_CLOEXEC OR O_APPEND;
          o1 = (if flags AND TT_OPEN_EXCL \<noteq> 0 then o0 OR O_EXCL else o0)
      in (if flags AND TT_OPEN_NONBLOCK \<noteq> 0 then o1 OR O_NONBLOCK else o1))"

definition tt_open ::
  "'w os \<Rightarrow> tt_device option \<Rightarrow> tt_session option \<Rightarrow> u16 \<Rightarrow> 'w mach \<Rightarrow>
     int \<times> tt_session option \<times> 'w mach" where
  "tt_open os dev sess flags s =
     (case dev of None \<Rightarrow> out sess (tt_fail EINVAL s) | Some d \<Rightarrow>
      case sess of None \<Rightarrow> out sess (tt_fail EINVAL s) | Some _ \<Rightarrow>
      if flags AND NOT (TT_OPEN_EXCL OR TT_OPEN_NONBLOCK) \<noteq> 0 then out sess (tt_fail EINVAL s)
      else if length (dev_path d) \<ge> PATH_MAX then out sess (tt_fail EIO s)
      else (case k_open os (dev_path d) (open_flags flags) s of (f, s1) \<Rightarrow>
        if f < 0 then out sess (tt_fail (if errno s1 = EAGAIN then EAGAIN else ENODEV) s1)
        else (TT_OK, Some \<lparr>sess_dev = d, sess_fd = f, sess_flags = flags\<rparr>, s1)))"

definition tt_close ::
  "'w os \<Rightarrow> tt_session option \<Rightarrow> 'w mach \<Rightarrow> int \<times> tt_session option \<times> 'w mach" where
  "tt_close os sess s =
     (case sess of None \<Rightarrow> out sess (tt_fail EINVAL s) | Some ss \<Rightarrow>
      if sess_fd ss < 0 then (TT_OK, sess, s)
      else (case k_close os (sess_fd ss) s of (r, s1) \<Rightarrow>
        if r \<noteq> 0 then (TT_ERR, sess, s1)
        else (TT_OK, Some (ss\<lparr>sess_fd := - 1\<rparr>), s1)))"

definition tt_reopen ::
  "'w os \<Rightarrow> tt_session option \<Rightarrow> 'w mach \<Rightarrow> int \<times> tt_session option \<times> 'w mach" where
  "tt_reopen os sess s =
     (case sess of None \<Rightarrow> out sess (tt_fail EINVAL s) | Some _ \<Rightarrow>
      (case tt_close os sess s of (_, sess1, s1) \<Rightarrow>
        tt_open os (map_option sess_dev sess1) sess1 (sess_flags (the sess1)) s1))"

text \<open>\<open>sizeof(query.out)\<close> of \<open>struct tenstorrent_get_device_info\<close>.\<close>

definition dev_info_out_size :: u32 where
  "dev_info_out_size = 20"

definition unpack_info :: "kmd_device_info \<Rightarrow> tt_dev_info" where
  "unpack_info q =
     \<lparr>di_output_size_bytes = k_output_size_bytes q,
      di_vendor_id = k_vendor_id q,
      di_device_id = k_device_id q,
      di_subsystem_vendor_id = k_subsystem_vendor_id q,
      di_subsystem_id = k_subsystem_id q,
      di_bus_dev_fn = k_bus_dev_fn q,
      di_max_dma_buf_size_log2 = k_max_dma_buf_size_log2 q,
      di_pci_domain = k_pci_domain q\<rparr>"

definition tt_dev_info ::
  "'w os \<Rightarrow> tt_session option \<Rightarrow> tt_dev_info option \<Rightarrow> 'w mach \<Rightarrow>
     int \<times> tt_dev_info option \<times> 'w mach" where
  "tt_dev_info os sess info s =
     (case sess of None \<Rightarrow> out info (tt_fail EINVAL s) | Some ss \<Rightarrow>
      case info of None \<Rightarrow> out info (tt_fail EINVAL s) | Some _ \<Rightarrow>
      if sess_fd ss < 0 then out info (tt_fail ENOTCONN s)
      else (case k_device_info os (sess_fd ss) dev_info_out_size s of ((r, q), s1) \<Rightarrow>
        if r \<noteq> 0 then out info (tt_fail_io (errno s1) s1)
        else (TT_OK, Some (unpack_info q), s1)))"

section \<open>Discovery\<close>

text \<open>
  The scan loop over the directory's entries: the buffer holds \<open>cap\<close> descriptors, \<open>count\<close>
  is the number of devices seen so far. The number is truncated to 32 bits, as the code's
  cast does.
\<close>

fun scan_entries :: "nat \<Rightarrow> dirent list \<Rightarrow> nat \<Rightarrow> tt_device list \<Rightarrow> nat \<times> tt_device list" where
  "scan_entries cap [] count buf = (count, buf)"
| "scan_entries cap (e # es) count buf =
     (if d_type e \<noteq> DT_CHR then scan_entries cap es count buf
      else (case strtoul10 (d_name e) of (num, rest) \<Rightarrow>
        if rest \<noteq> [] then scan_entries cap es count buf
        else scan_entries cap es (Suc count)
               (if count < cap then buf[count := \<lparr>dev_id = of_nat num\<rparr>] else buf)))"

definition tt_dev_scan ::
  "'w os \<Rightarrow> nat \<Rightarrow> tt_device list \<Rightarrow> 'w mach \<Rightarrow> int \<times> tt_device list \<times> 'w mach" where
  "tt_dev_scan os cap buf s =
     (case k_opendir os ''/dev/tenstorrent'' s of
        (None, s1) \<Rightarrow> (if errno s1 = ENOENT then 0 else TT_ERR, buf, s1)
      | (Some entries, s1) \<Rightarrow>
          (case scan_entries cap entries 0 buf of (count, buf') \<Rightarrow>
           case k_closedir os s1 of (_, s2) \<Rightarrow> (int count, buf', s2)))"

definition tt_dev_from_path ::
  "'w os \<Rightarrow> string option \<Rightarrow> tt_device option \<Rightarrow> 'w mach \<Rightarrow> int \<times> tt_device option \<times> 'w mach" where
  "tt_dev_from_path os path dev s =
     (case path of None \<Rightarrow> out dev (tt_fail EINVAL s) | Some p \<Rightarrow>
      case dev of None \<Rightarrow> out dev (tt_fail EINVAL s) | Some _ \<Rightarrow>
      (case k_realpath os p s of
         (None, s1) \<Rightarrow> out dev (tt_fail ENODEV s1)
       | (Some resolved, s1) \<Rightarrow>
           if take (length dev_prefix) resolved \<noteq> dev_prefix then out dev (tt_fail EINVAL s1)
           else (case strtoul10 (drop (length dev_prefix) resolved) of (num, rest) \<Rightarrow>
             if rest \<noteq> [] \<or> num > 2 ^ 32 - 1 then out dev (tt_fail EINVAL s1)
             else (TT_OK, Some \<lparr>dev_id = of_nat num\<rparr>, s1))))"

text \<open>
  The text of a BDF address, \<open>%04x:%02x:%02x.%x\<close> in a buffer of 20 bytes. Both
  \<open>tt_dev_from_bdf\<close> and \<open>tt_reset\<close> print it from a device's information.
\<close>

definition bdf_text :: "nat \<Rightarrow> nat \<Rightarrow> nat \<Rightarrow> nat \<Rightarrow> string" where
  "bdf_text domain bus slot func =
     take 19 (hex0 4 domain @ '':'' @ hex0 2 bus @ '':'' @ hex0 2 slot @ ''.'' @ hex0 1 func)"

definition info_bdf :: "tt_dev_info \<Rightarrow> string" where
  "info_bdf info =
     bdf_text (unat (di_pci_domain info))
       (unat (drop_bit 8 (di_bus_dev_fn info) AND 0xFF))
       (unat (drop_bit 3 (di_bus_dev_fn info) AND 0x1F))
       (unat (di_bus_dev_fn info AND 0x7))"

text \<open>Parsing \<open>[DDDD:]BB:DD.F\<close> with \<open>sscanf\<close>, the long form first, and normalising it.\<close>

definition parse_bdf :: "string \<Rightarrow> string option" where
  "parse_bdf addr =
     (case sscanf [ScanHex, Lit CHR '':'', ScanHex, Lit CHR '':'', ScanHex, Lit CHR ''.'', ScanHex] addr of
        [domain, bus, slot, func] \<Rightarrow> Some (bdf_text domain bus slot func)
      | _ \<Rightarrow>
        (case sscanf [ScanHex, Lit CHR '':'', ScanHex, Lit CHR ''.'', ScanHex] addr of
           [bus, slot, func] \<Rightarrow> Some (bdf_text 0 bus slot func)
         | _ \<Rightarrow> None))"

text \<open>
  The value of a computation that can run into undefined behaviour: here, reading past the
  end of the array \<open>devs\<close>, which HOL's \<open>!\<close> would hide.
\<close>

datatype 'a defined = Defined 'a | Undefined

text \<open>The contents of an information structure nobody has written yet; never read.\<close>

definition blank_info :: tt_dev_info where
  "blank_info =
     \<lparr>di_output_size_bytes = 0, di_vendor_id = 0, di_device_id = 0, di_subsystem_vendor_id = 0,
      di_subsystem_id = 0, di_bus_dev_fn = 0, di_max_dma_buf_size_log2 = 0, di_pci_domain = 0\<rparr>"

text \<open>
  The match loop, from index \<open>i\<close> with \<open>n = count - i\<close> iterations to go, over the array
  \<open>devs\<close>. A device that cannot be opened or queried is skipped.
\<close>

fun bdf_loop ::
  "'w os \<Rightarrow> string \<Rightarrow> tt_device list \<Rightarrow> nat \<Rightarrow> nat \<Rightarrow> 'w mach \<Rightarrow>
     (tt_device option \<times> 'w mach) defined" where
  "bdf_loop os normalized devs i 0 s = Defined (None, s)"
| "bdf_loop os normalized devs i (Suc n) s =
     (if length devs \<le> i then Undefined
      else (case tt_open os (Some (devs ! i)) (Some \<lparr>sess_dev = devs ! i, sess_fd = - 1, sess_flags = 0\<rparr>) 0 s of
        (rc, sess, s1) \<Rightarrow>
          if rc < 0 then bdf_loop os normalized devs (Suc i) n s1
          else (case tt_dev_info os sess (Some blank_info) s1 of (res, info, s2) \<Rightarrow>
            (case tt_close os sess s2 of (_, _, s3) \<Rightarrow>
              if res < 0 then bdf_loop os normalized devs (Suc i) n s3
              else if info_bdf (the info) = normalized
                then Defined (Some \<lparr>dev_id = dev_id (devs ! i)\<rparr>, s3)
              else bdf_loop os normalized devs (Suc i) n s3))))"

text \<open>The capacity of the scan buffer.\<close>

definition BDF_SCAN_CAP :: nat where
  "BDF_SCAN_CAP = 64"

text \<open>
  \<open>junk\<close> stands for the uninitialised contents of the 64-entry scan buffer. The loop's bound is the
  scan's return value, which may exceed the buffer.
\<close>

definition tt_dev_from_bdf ::
  "'w os \<Rightarrow> tt_device list \<Rightarrow> string option \<Rightarrow> tt_device option \<Rightarrow> 'w mach \<Rightarrow>
     (int \<times> tt_device option \<times> 'w mach) defined" where
  "tt_dev_from_bdf os junk addr dev s =
     (case addr of None \<Rightarrow> Defined (out dev (tt_fail EINVAL s)) | Some a \<Rightarrow>
      case dev of None \<Rightarrow> Defined (out dev (tt_fail EINVAL s)) | Some _ \<Rightarrow>
      case parse_bdf a of None \<Rightarrow> Defined (out dev (tt_fail EINVAL s)) | Some normalized \<Rightarrow>
      (case tt_dev_scan os BDF_SCAN_CAP junk s of (count, devs, s1) \<Rightarrow>
        (case bdf_loop os normalized devs 0 (nat count) s1 of
           Undefined \<Rightarrow> Undefined
         | Defined (Some d, s2) \<Rightarrow> Defined (TT_OK, Some d, s2)
         | Defined (None, s2) \<Rightarrow> Defined (out dev (tt_fail ENODEV s2)))))"

section \<open>Sessions: lemmas\<close>

lemmas device_defs = tt_open_def tt_close_def tt_reopen_def tt_dev_info_def

text \<open>The paths of nodes are short, so the internal path-length error never happens.\<close>

lemma dev_path_short: "length (dev_path d) < PATH_MAX"
proof -
  have "unat (dev_id d) < 2 ^ 32"
    using unsigned_less [of "dev_id d"] by simp
  then have "unat (dev_id d) < 10 ^ 10" by simp
  then have "length (show_dec (unat (dev_id d))) \<le> 10"
    unfolding show_dec_def by (rule show_base_length [rotated 2]) simp_all
  then show ?thesis
    by (simp add: dev_path_def dev_prefix_def PATH_MAX_def)
qed

lemma dev_path_not_long [simp]: "\<not> PATH_MAX \<le> length (dev_path d)"
  using dev_path_short [of d] by simp

lemma unknown_flags_iff [simp]: "flags AND - 4 = 0 \<longleftrightarrow> flags AND 3 = flags" for flags :: u16
  using word_and_not_eq_0_iff [of flags 3] by simp

lemmas flag_defs = TT_OPEN_EXCL_def TT_OPEN_NONBLOCK_def

lemma tt_open_null:
  "tt_open os None sess flags s = (TT_ERR, sess, s\<lparr>errno := EINVAL\<rparr>)"
  "tt_open os dev None flags s = (TT_ERR, None, s\<lparr>errno := EINVAL\<rparr>)"
  by (simp_all add: tt_open_def split: option.splits)

lemma tt_open_unknown_flags:
  assumes "flags AND 3 \<noteq> flags"
  shows "tt_open os dev sess flags s = (TT_ERR, sess, s\<lparr>errno := EINVAL\<rparr>)"
  using assms
  by (auto simp: tt_open_def flag_defs split: option.splits)

lemma tt_open_known_flags:
  assumes "flags AND 3 = flags"
  shows "tt_open os (Some d) (Some ss) flags s =
    (case k_open os (dev_path d) (open_flags flags) s of (f, s1) \<Rightarrow>
       if f < 0 then (TT_ERR, Some ss, s1\<lparr>errno := if errno s1 = EAGAIN then EAGAIN else ENODEV\<rparr>)
       else (TT_OK, Some \<lparr>sess_dev = d, sess_fd = f, sess_flags = flags\<rparr>, s1))"
  using assms by (simp add: tt_open_def flag_defs split: prod.splits)

lemma tt_open_rc: "tt_open os dev sess flags s = (rc, sess', s') \<Longrightarrow> rc = TT_OK \<or> rc = TT_ERR"
  by (auto simp: tt_open_def split: option.splits prod.splits if_splits)

lemma tt_open_ok:
  assumes "tt_open os dev sess flags s = (TT_OK, sess', s')"
  shows "\<exists>d f. dev = Some d \<and> 0 \<le> f \<and> flags AND 3 = flags \<and>
    sess' = Some \<lparr>sess_dev = d, sess_fd = f, sess_flags = flags\<rparr> \<and>
    trace s' = trace s @ [EvOpen (dev_path d) (open_flags flags) f]"
  using assms
  by (auto simp: tt_open_def flag_defs split: option.splits prod.splits if_splits dest!: call_trace)

lemma tt_open_err:
  assumes "tt_open os dev sess flags s = (TT_ERR, sess', s')"
  shows "sess' = sess" "errno s' \<in> {EINVAL, EAGAIN, ENODEV}"
    "\<exists>tr. trace s' = trace s @ tr \<and> opened tr = [] \<and> closed tr = [] \<and> ioctls tr = []"
  using assms
  by (auto simp: tt_open_def flag_defs split: option.splits prod.splits if_splits dest!: call_trace)

lemma tt_open_trace:
  assumes "tt_open os dev sess flags s = (rc, sess', s')"
  shows "extends s s'" "closed (since s s') = []" "ioctls (since s s') = []"
    "opened (since s s') = (if rc = TT_OK then [sess_fd (the sess')] else [])"
proof -
  have "extends s s' \<and> closed (since s s') = [] \<and> ioctls (since s s') = [] \<and>
    opened (since s s') = (if rc = TT_OK then [sess_fd (the sess')] else [])"
  proof (cases "rc = TT_OK")
    case True
    then show ?thesis
      using tt_open_ok [OF assms [unfolded True]] by (auto simp: since_eq extendsI)
  next
    case False
    then have rc: "rc = TT_ERR" using tt_open_rc [OF assms] by blast
    show ?thesis
      using tt_open_err(3) [OF assms [unfolded rc]] rc by (auto simp: since_eq extendsI)
  qed
  then show "extends s s'" "closed (since s s') = []" "ioctls (since s s') = []"
    "opened (since s s') = (if rc = TT_OK then [sess_fd (the sess')] else [])"
    by auto
qed

lemma tt_close_cases:
  assumes "tt_close os (Some ss) s = (rc, sess', s')"
  obtains (noop) "sess_fd ss < 0" "rc = TT_OK" "sess' = Some ss" "s' = s"
    | (ok) "0 \<le> sess_fd ss" "rc = TT_OK" "sess' = Some (ss\<lparr>sess_fd := - 1\<rparr>)"
        "trace s' = trace s @ [EvClose (sess_fd ss) 0]"
    | (err) r where "0 \<le> sess_fd ss" "rc = TT_ERR" "sess' = Some ss" "r \<noteq> 0"
        "trace s' = trace s @ [EvClose (sess_fd ss) r]"
  using assms
  by (auto simp: tt_close_def split: prod.splits if_splits dest!: call_trace)

text \<open>Closing twice closes once: a closed session is left alone.\<close>

lemma tt_close_closed:
  "sess_fd ss < 0 \<Longrightarrow> tt_close os (Some ss) s = (TT_OK, Some ss, s)"
  by (simp add: tt_close_def)

lemma tt_close_trace:
  assumes "tt_close os (Some ss) s = (rc, sess', s')"
  shows "extends s s'" "opened (since s s') = []" "ioctls (since s s') = []"
    "closed (since s s') = (if 0 \<le> sess_fd ss then [sess_fd ss] else [])"
  using assms
  by (auto elim!: tt_close_cases simp: since_eq extendsI)

lemma tt_dev_info_closed:
  "sess_fd ss < 0 \<Longrightarrow> tt_dev_info os (Some ss) (Some i) s = (TT_ERR, Some i, s\<lparr>errno := ENOTCONN\<rparr>)"
  by (simp add: tt_dev_info_def)

lemma tt_dev_info_rc:
  "tt_dev_info os sess info s = (rc, info', s') \<Longrightarrow> rc = TT_OK \<or> rc = TT_ERR"
  by (auto simp: tt_dev_info_def split: option.splits prod.splits if_splits)

lemma tt_dev_info_errno:
  "tt_dev_info os sess info s = (TT_ERR, info', s') \<Longrightarrow> errno s' \<noteq> ENODEV"
  by (auto simp: tt_dev_info_def split: option.splits prod.splits if_splits)

lemma tt_dev_info_trace:
  assumes "tt_dev_info os sess info s = (rc, info', s')"
  shows "extends s s'" "opened (since s s') = []" "closed (since s s') = []"
  using assms
  by (auto simp: tt_dev_info_def since_eq extendsI
      split: option.splits prod.splits if_splits dest!: call_trace)

lemma tt_dev_info_ok:
  "tt_dev_info os sess info s = (TT_OK, info', s') \<Longrightarrow> \<exists>i. info' = Some i"
  by (auto simp: tt_dev_info_def split: option.splits prod.splits if_splits)

section \<open>Discovery: lemmas\<close>

text \<open>The devices a directory lists: its character nodes whose whole name \<open>strtoul\<close> reads.\<close>

definition listed :: "dirent list \<Rightarrow> tt_device list" where
  "listed es =
     map (\<lambda>e. \<lparr>dev_id = of_nat (fst (strtoul10 (d_name e)))\<rparr>)
       (filter (\<lambda>e. d_type e = DT_CHR \<and> snd (strtoul10 (d_name e)) = []) es)"

lemma listed_simps [simp]:
  "listed [] = []"
  "listed (e # es) =
     (if d_type e = DT_CHR \<and> snd (strtoul10 (d_name e)) = []
      then \<lparr>dev_id = of_nat (fst (strtoul10 (d_name e)))\<rparr> # listed es else listed es)"
  by (simp_all add: listed_def)

lemma scan_entries_count:
  "fst (scan_entries cap es count buf) = count + length (listed es)"
  by (induction cap es count buf rule: scan_entries.induct) (auto split: prod.splits)

lemma scan_entries_buf:
  assumes "length buf = cap" "count \<le> cap"
  shows "snd (scan_entries cap es count buf) =
    take count buf @ take (cap - count) (listed es) @ drop (count + length (listed es)) buf"
  using assms
proof (induction es arbitrary: count buf)
  case Nil
  then show ?case by simp
next
  case (Cons e es)
  show ?case
  proof (cases "d_type e = DT_CHR \<and> snd (strtoul10 (d_name e)) = [] \<and> count < cap")
    case True
    then show ?thesis
      using Cons.IH [of "buf[count := \<lparr>dev_id = of_nat (fst (strtoul10 (d_name e)))\<rparr>]" "Suc count"]
        Cons.prems
      by (auto simp: take_Suc_conv_app_nth take_Cons' drop_update_cancel split: prod.splits)
  next
    case False
    have skip: "snd (scan_entries cap xs k b) = b" if "cap \<le> k" "length b = cap" for xs k b
      using that by (induction xs arbitrary: k) (auto split: prod.splits)
    show ?thesis
      using False Cons.IH [OF Cons.prems] Cons.prems skip
      by (auto split: prod.splits)
  qed
qed

lemma tt_dev_scan_trace:
  assumes "tt_dev_scan os cap buf s = (count, buf', s')"
  shows "extends s s'" "opened (since s s') = []" "closed (since s s') = []" "ioctls (since s s') = []"
  using assms
  by (auto simp: tt_dev_scan_def since_eq extendsI
      split: option.splits prod.splits if_splits dest!: call_trace)

lemma tt_dev_scan_some:
  assumes "k_opendir os ''/dev/tenstorrent'' s = (Some es, s1)" "length buf = cap"
  shows "\<exists>s'. tt_dev_scan os cap buf s =
    (int (length (listed es)), take cap (listed es) @ drop (length (listed es)) buf, s')"
  using assms scan_entries_count [of cap es 0 buf] scan_entries_buf [of buf cap 0 es]
  by (auto simp: tt_dev_scan_def split: prod.splits)

text \<open>What the match loop leaves behind: every session it opened is closed again.\<close>

lemma bdf_loop_trace:
  "bdf_loop os nm devs i n s = Defined (r, s') \<Longrightarrow>
   extends s s' \<and> opened (since s s') = closed (since s s')"
proof (induction n arbitrary: i s)
  case 0
  then show ?case by auto
next
  case (Suc n)
  obtain rc sess s1 where o: "tt_open os (Some (devs ! i))
      (Some \<lparr>sess_dev = devs ! i, sess_fd = - 1, sess_flags = 0\<rparr>) 0 s = (rc, sess, s1)"
    by (metis prod_cases3)
  have i: "\<not> length devs \<le> i" using Suc.prems by auto
  note ot = tt_open_trace [OF o]
  show ?case
  proof (cases "rc < 0")
    case True
    then have "bdf_loop os nm devs (Suc i) n s1 = Defined (r, s')"
      using Suc.prems o i by simp
    then have "extends s1 s' \<and> opened (since s1 s') = closed (since s1 s')"
      by (rule Suc.IH)
    with trace_trans [OF ot(1), of s'] show ?thesis
      using ot True by auto
  next
    case False
    then have rc: "rc = TT_OK" using tt_open_rc [OF o] by auto
    then obtain f where ss: "0 \<le> f" "sess = Some \<lparr>sess_dev = devs ! i, sess_fd = f, sess_flags = 0\<rparr>"
      using tt_open_ok [OF o [unfolded rc]] by auto
    obtain res info s2 where q: "tt_dev_info os sess (Some blank_info) s1 = (res, info, s2)"
      by (metis prod_cases3)
    obtain cr csess s3 where c: "tt_close os sess s2 = (cr, csess, s3)"
      by (metis prod_cases3)
    note qt = tt_dev_info_trace [OF q] and ct = tt_close_trace [OF c [unfolded ss(2)]]
    note e2 = trace_trans [OF ot(1) qt(1)]
    note e3 = trace_trans [OF e2(1) ct(1)]
    have b3: "opened (since s s3) = closed (since s s3)"
      using e2 e3 ot qt ct ss rc by simp
    have "(r, s') = (Some \<lparr>dev_id = dev_id (devs ! i)\<rparr>, s3) \<or>
        bdf_loop os nm devs (Suc i) n s3 = Defined (r, s')"
      using Suc.prems o i False q c by (auto split: if_splits)
    then have "extends s3 s' \<and> opened (since s3 s') = closed (since s3 s')"
      using Suc.IH by auto
    with trace_trans [OF e3(1), of s'] show ?thesis
      using b3 by auto
  qed
qed

lemma bdf_loop_defined:
  "i + n \<le> length devs \<Longrightarrow> bdf_loop os nm devs i n s \<noteq> Undefined"
  by (induction os nm devs i n s rule: bdf_loop.induct) (auto split: prod.splits)

text \<open>
  A driver whose devices stay put while the scan runs: device \<open>d\<close> cannot be opened when \<open>I d\<close> is
  \<^const>\<open>None\<close>, and otherwise opens at a descriptor of its own and reports the information \<open>I d\<close>.
\<close>

definition serves :: "'w os \<Rightarrow> (tt_device \<Rightarrow> kmd_device_info option) \<Rightarrow> bool" where
  "serves os I \<longleftrightarrow>
     (\<forall>d fl e w. fst (sys_open os (dev_path d) fl e w) =
        (if I d = None then - 1 else int (unat (dev_id d)))) \<and>
     (\<forall>d q n e w. I d = Some q \<longrightarrow> fst (ioc_device_info os (int (unat (dev_id d))) n e w) = (0, q))"

definition has_bdf :: "(tt_device \<Rightarrow> kmd_device_info option) \<Rightarrow> string \<Rightarrow> tt_device \<Rightarrow> bool" where
  "has_bdf I nm d = (case I d of None \<Rightarrow> False | Some q \<Rightarrow> info_bdf (unpack_info q) = nm)"

lemma has_bdf_simps [simp]:
  "I d = None \<Longrightarrow> has_bdf I nm d = False"
  "I d = Some q \<Longrightarrow> has_bdf I nm d = (info_bdf (unpack_info q) = nm)"
  by (simp_all add: has_bdf_def)

lemma call_fst: "fst (call f ev s) = fst (f (errno s) (world s))"
  by (simp add: call_def split: prod.splits)

lemma serves_open:
  assumes "serves os I" "tt_open os (Some d) (Some ss) 0 s = (rc, sess, s1)"
  shows "I d = None \<Longrightarrow> rc = TT_ERR"
    "I d \<noteq> None \<Longrightarrow> rc = TT_OK \<and>
       sess = Some \<lparr>sess_dev = d, sess_fd = int (unat (dev_id d)), sess_flags = 0\<rparr>"
proof -
  have "fst (k_open os (dev_path d) (open_flags 0) s) =
      (if I d = None then - 1 else int (unat (dev_id d)))"
    using assms(1) by (simp add: call_fst serves_def)
  then show "I d = None \<Longrightarrow> rc = TT_ERR"
    "I d \<noteq> None \<Longrightarrow> rc = TT_OK \<and>
       sess = Some \<lparr>sess_dev = d, sess_fd = int (unat (dev_id d)), sess_flags = 0\<rparr>"
    using assms(2) by (auto simp: tt_open_known_flags split: prod.splits if_splits)
qed

lemma serves_info:
  assumes "serves os I" "I d = Some q"
    "tt_dev_info os (Some \<lparr>sess_dev = d, sess_fd = int (unat (dev_id d)), sess_flags = 0\<rparr>) (Some b) s
       = (rc, info, s1)"
  shows "rc = TT_OK" "info = Some (unpack_info q)"
proof -
  have "fst (k_device_info os (int (unat (dev_id d))) dev_info_out_size s) = (0, q)"
    using assms(1,2) by (simp add: call_fst serves_def)
  then show "rc = TT_OK" "info = Some (unpack_info q)"
    using assms(3) by (auto simp: tt_dev_info_def split: prod.splits if_splits)
qed

lemma bdf_loop_step:
  assumes "serves os I" "i < length devs"
  shows "\<exists>s'. bdf_loop os nm devs i (Suc n) s =
    (if has_bdf I nm (devs ! i) then Defined (Some (devs ! i), s') else bdf_loop os nm devs (Suc i) n s')"
proof -
  let ?d = "devs ! i"
  obtain rc sess s1 where o: "tt_open os (Some ?d) (Some \<lparr>sess_dev = ?d, sess_fd = - 1, sess_flags = 0\<rparr>) 0 s = (rc, sess, s1)"
    by (metis prod_cases3)
  show ?thesis
  proof (cases "I ?d")
    case None
    then have "rc = TT_ERR" using serves_open(1) [OF assms(1) o] by blast
    then show ?thesis using o assms(2) None by (intro exI [of _ s1]) simp
  next
    case (Some q)
    then have rc: "rc = TT_OK" and
      ss: "sess = Some \<lparr>sess_dev = ?d, sess_fd = int (unat (dev_id ?d)), sess_flags = 0\<rparr>"
      using serves_open(2) [OF assms(1) o] by auto
    obtain res info s2 where qi: "tt_dev_info os sess (Some blank_info) s1 = (res, info, s2)"
      by (metis prod_cases3)
    obtain cr csess s3 where c: "tt_close os sess s2 = (cr, csess, s3)"
      by (metis prod_cases3)
    show ?thesis
      using serves_info [OF assms(1) Some qi [unfolded ss]] o rc qi c assms(2) Some by (intro exI [of _ s3]) simp
  qed
qed

lemma bdf_loop_serves:
  assumes "serves os I" "i \<le> length devs"
  shows "\<exists>s'. bdf_loop os nm devs i n s =
    (case find (has_bdf I nm) (take n (drop i devs)) of
       Some d \<Rightarrow> Defined (Some d, s')
     | None \<Rightarrow> if i + n \<le> length devs then Defined (None, s') else Undefined)"
  using assms(2)
proof (induction n arbitrary: i s)
  case 0
  then show ?case by simp
next
  case (Suc n)
  show ?case
  proof (cases "i = length devs")
    case True
    then show ?thesis by simp
  next
    case False
    then have i: "i < length devs" "Suc i \<le> length devs" using Suc.prems by simp_all
    have fd: "find (has_bdf I nm) (take (Suc n) (drop i devs)) =
        (if has_bdf I nm (devs ! i) then Some (devs ! i) else find (has_bdf I nm) (take n (drop (Suc i) devs)))"
      using i(1) by (simp add: Cons_nth_drop_Suc [symmetric])
    obtain t where st: "bdf_loop os nm devs i (Suc n) s =
        (if has_bdf I nm (devs ! i) then Defined (Some (devs ! i), t) else bdf_loop os nm devs (Suc i) n t)"
      using bdf_loop_step [OF assms(1) i(1)] by blast
    show ?thesis
      using Suc.IH [OF i(2), of t] by (cases "has_bdf I nm (devs ! i)") (simp_all only: st fd add_Suc add_Suc_right if_True if_False option.case, blast)
  qed
qed

section \<open>What the session operations promise\<close>

text \<open>
  \<open>tt_open\<close> rejects unknown flag bits with \<open>EINVAL\<close> before touching the system; otherwise it opens
  exactly the node of the device, exclusively or without blocking exactly when asked to, and
  reports success with a session on the new descriptor, or \<open>EAGAIN\<close> or \<open>ENODEV\<close> with the
  session left as it was.
\<close>

theorem tt_open_contract:
  assumes "tt_open os (Some d) (Some ss) flags s = (rc, sess', s')"
  shows "(flags AND 3 \<noteq> flags \<longrightarrow>
       rc = TT_ERR \<and> sess' = Some ss \<and> errno s' = EINVAL \<and> since s s' = []) \<and>
     (flags AND 3 = flags \<longrightarrow>
       (\<exists>f oflags. since s s' = [EvOpen (dev_path d) oflags f] \<and>
          (oflags AND O_EXCL \<noteq> 0 \<longleftrightarrow> flags AND TT_OPEN_EXCL \<noteq> 0) \<and>
          (oflags AND O_NONBLOCK \<noteq> 0 \<longleftrightarrow> flags AND TT_OPEN_NONBLOCK \<noteq> 0) \<and>
          oflags AND O_APPEND \<noteq> 0 \<and>
          (if f < 0 then rc = TT_ERR \<and> sess' = Some ss \<and> errno s' \<in> {EAGAIN, ENODEV}
           else rc = TT_OK \<and> sess' = Some \<lparr>sess_dev = d, sess_fd = f, sess_flags = flags\<rparr>)))"
proof (cases "flags AND 3 = flags")
  case True
  have fl: "open_flags flags AND O_EXCL \<noteq> 0 \<longleftrightarrow> flags AND TT_OPEN_EXCL \<noteq> 0"
    "open_flags flags AND O_NONBLOCK \<noteq> 0 \<longleftrightarrow> flags AND TT_OPEN_NONBLOCK \<noteq> 0"
    "open_flags flags AND O_APPEND \<noteq> 0"
    by (simp_all add: open_flags_def O_EXCL_def O_NONBLOCK_def O_APPEND_def O_RDWR_def
        O_CLOEXEC_def Let_def)
  show ?thesis
    using assms True fl
    by (auto simp: tt_open_known_flags since_eq split: prod.splits if_splits dest!: call_trace)
next
  case False
  then show ?thesis using assms by (auto simp: tt_open_unknown_flags)
qed

theorem tt_open_contract_witness:
  "\<exists>f oflags. since stub_mach (snd (snd (tt_open stub_os (Some \<lparr>dev_id = 4\<rparr>)
       (Some \<lparr>sess_dev = \<lparr>dev_id = 4\<rparr>, sess_fd = - 1, sess_flags = 0\<rparr>) 3 stub_mach)))
     = [EvOpen (dev_path \<lparr>dev_id = 4\<rparr>) oflags f] \<and> oflags AND O_EXCL \<noteq> 0"
proof -
  obtain rc sess' s' where r: "tt_open stub_os (Some \<lparr>dev_id = 4\<rparr>)
      (Some \<lparr>sess_dev = \<lparr>dev_id = 4\<rparr>, sess_fd = - 1, sess_flags = 0\<rparr>) 3 stub_mach = (rc, sess', s')"
    by (metis prod_cases3)
  show ?thesis
    using tt_open_contract [OF r] r by (auto simp: flag_defs)
qed

text \<open>
  C36: reopening closes the descriptor the session held, exactly once, and opens the same device with
  the session's own flags. If it fails, the session is left closed (descriptor \<open>-1\<close>) unless the
  close itself reported an error, in which case the session still carries the stale descriptor.
\<close>

theorem tt_reopen_outcome:
  assumes "tt_reopen os (Some ss) s = (rc, sess', s')"
  shows "closed (since s s') = (if 0 \<le> sess_fd ss then [sess_fd ss] else []) \<and>
    (rc = TT_OK \<longrightarrow>
       (\<exists>f \<ge> 0. sess' = Some (ss\<lparr>sess_fd := f\<rparr>) \<and> opened (since s s') = [f])) \<and>
    (rc \<noteq> TT_OK \<longrightarrow>
       opened (since s s') = [] \<and>
       errno s' \<in> {EINVAL, EAGAIN, ENODEV} \<and>
       sess' = Some (ss\<lparr>sess_fd :=
         (if \<exists>r. r \<noteq> 0 \<and> EvClose (sess_fd ss) r \<in> set (since s s') then sess_fd ss
          else if sess_fd ss < 0 then sess_fd ss else - 1)\<rparr>))"
proof -
  obtain cr sess1 s1 where c: "tt_close os (Some ss) s = (cr, sess1, s1)"
    by (metis prod_cases3)
  obtain ss1 where ss1: "sess1 = Some ss1" "sess_dev ss1 = sess_dev ss" "sess_flags ss1 = sess_flags ss"
    using c by (cases rule: tt_close_cases) auto
  have o: "tt_open os (Some (sess_dev ss)) (Some ss1) (sess_flags ss) s1 = (rc, sess', s')"
    using assms c ss1 by (simp add: tt_reopen_def)
  note ct = tt_close_trace [OF c] and ot = tt_open_trace [OF o]
  note t = trace_trans [OF ct(1) ot(1)] and sn = since_trans [OF ct(1) ot(1)]
  show ?thesis
  proof (cases "rc = TT_OK")
    case True
    obtain f where "0 \<le> f" "sess' = Some \<lparr>sess_dev = sess_dev ss, sess_fd = f, sess_flags = sess_flags ss\<rparr>"
      using tt_open_ok [OF o [unfolded True]] by auto
    then show ?thesis using True t ct ot by (auto intro!: exI [of _ f])
  next
    case False
    then have rc: "rc = TT_ERR" using tt_open_rc [OF o] by blast
    note e = tt_open_err [OF o [unfolded rc]]
    have noclose: "EvClose f r \<notin> set (since s1 s')" for f r
      using e(3) by (force simp: since_eq closed_def)
    have opn: "opened (since s s') = []" and cls: "closed (since s s') = closed (since s s1)"
      using t ct ot False by simp_all
    have bad: "(\<exists>r. r \<noteq> 0 \<and> EvClose (sess_fd ss) r \<in> set (since s s')) \<longleftrightarrow>
        (\<exists>r. r \<noteq> 0 \<and> EvClose (sess_fd ss) r \<in> set (since s s1))"
      using sn noclose by simp
    from c have "sess1 = Some (ss\<lparr>sess_fd :=
        (if \<exists>r. r \<noteq> 0 \<and> EvClose (sess_fd ss) r \<in> set (since s s1) then sess_fd ss
         else if sess_fd ss < 0 then sess_fd ss else - 1)\<rparr>)"
      by (cases rule: tt_close_cases) (auto simp: since_eq)
    then show ?thesis
      unfolding bad using opn cls ct(4) e(1,2) ss1(1) False by simp
  qed
qed

theorem tt_reopen_outcome_witness:
  "sess_fd (the (fst (snd (tt_reopen (stub_os\<lparr>sys_open := (\<lambda>_ _. fails (- 1) ENODEV)\<rparr>)
      (Some \<lparr>sess_dev = \<lparr>dev_id = 0\<rparr>, sess_fd = 3, sess_flags = 0\<rparr>) stub_mach)))) = - 1"
proof -
  let ?os = "stub_os\<lparr>sys_open := (\<lambda>_ _. fails (- 1) ENODEV)\<rparr>"
  let ?ss = "\<lparr>sess_dev = \<lparr>dev_id = 0\<rparr>, sess_fd = 3, sess_flags = 0\<rparr>"
  obtain rc sess' s' where r: "tt_reopen ?os (Some ?ss) stub_mach = (rc, sess', s')"
    by (metis prod_cases3)
  have "rc \<noteq> TT_OK" "\<not> (\<exists>r. r \<noteq> 0 \<and> EvClose 3 r \<in> set (since stub_mach s'))"
    using r by (auto simp: tt_reopen_def tt_close_def tt_open_def stub_defs since_def)
  then show ?thesis
    using tt_reopen_outcome [OF r] r by simp
qed

text \<open>
  Every session operation of this file refuses a closed session with \<open>ENOTCONN\<close> without a single
  system call, and never reports \<open>ENODEV\<close> for an open one, whatever the driver says.
\<close>

theorem tt_dev_info_contract:
  assumes "tt_dev_info os (Some ss) (Some i) s = (rc, info', s')"
  shows "(sess_fd ss < 0 \<longrightarrow> rc = TT_ERR \<and> errno s' = ENOTCONN \<and> since s s' = [] \<and> info' = Some i) \<and>
    (0 \<le> sess_fd ss \<longrightarrow>
      (\<exists>r q. since s s' = [EvIoctl (sess_fd ss) (IoDeviceInfo dev_info_out_size) r] \<and>
        (if r = 0 then rc = TT_OK \<and> info' = Some (unpack_info q)
         else rc = TT_ERR \<and> info' = Some i \<and> errno s' \<noteq> ENODEV)))"
  using assms
  by (auto simp: tt_dev_info_def since_eq split: prod.splits if_splits dest!: call_trace)

theorem tt_dev_info_contract_witness:
  "fst (tt_dev_info stub_os (Some \<lparr>sess_dev = \<lparr>dev_id = 0\<rparr>, sess_fd = - 1, sess_flags = 0\<rparr>)
     (Some blank_info) stub_mach) = TT_ERR"
proof -
  obtain rc info' s' where r: "tt_dev_info stub_os
      (Some \<lparr>sess_dev = \<lparr>dev_id = 0\<rparr>, sess_fd = - 1, sess_flags = 0\<rparr>) (Some blank_info) stub_mach
      = (rc, info', s')"
    by (metis prod_cases3)
  show ?thesis
    using tt_dev_info_contract [OF r] r by simp
qed

section \<open>What discovery promises\<close>

text \<open>
  \<open>tt_dev_scan\<close> counts every numeric character node of the directory, beyond the buffer's capacity
  too, and fills the buffer with the first \<open>cap\<close> of them in directory order, leaving the rest of
  the buffer alone. A missing directory counts zero devices.
\<close>

theorem tt_dev_scan_lists:
  assumes "length buf = cap" "k_opendir os ''/dev/tenstorrent'' s = (dir, s1)"
  shows "\<exists>s'. tt_dev_scan os cap buf s =
    (case dir of
       Some es \<Rightarrow> (int (length (listed es)),
                   take cap (listed es) @ drop (length (listed es)) buf, s')
     | None \<Rightarrow> (if errno s1 = ENOENT then 0 else TT_ERR, buf, s1))"
proof (cases dir)
  case None
  then show ?thesis using assms by (simp add: tt_dev_scan_def)
next
  case (Some es)
  then show ?thesis using tt_dev_scan_some [of os s es s1 buf cap] assms by simp
qed

theorem tt_dev_scan_lists_witness:
  "fst (snd (tt_dev_scan (stub_os\<lparr>sys_opendir := (\<lambda>_. ret0 (Some
      [\<lparr>d_type = 4, d_name = ''by-id''\<rparr>, \<lparr>d_type = 2, d_name = ''1''\<rparr>, \<lparr>d_type = 2, d_name = ''0''\<rparr>]))\<rparr>)
      1 [\<lparr>dev_id = 9\<rparr>] stub_mach)) = [\<lparr>dev_id = 1\<rparr>]"
proof -
  let ?es = "[\<lparr>d_type = 4, d_name = ''by-id''\<rparr>, \<lparr>d_type = 2, d_name = ''1''\<rparr>, \<lparr>d_type = 2, d_name = ''0''\<rparr>]"
  let ?os = "stub_os\<lparr>sys_opendir := (\<lambda>_. ret0 (Some ?es))\<rparr>"
  obtain s1 where o: "k_opendir ?os ''/dev/tenstorrent'' stub_mach = (Some ?es, s1)"
    by (simp add: stub_defs)
  have "listed ?es = [\<lparr>dev_id = 1\<rparr>, \<lparr>dev_id = 0\<rparr>]"
    by (simp add: DT_CHR_def strtoul10_def is_space_def read_sign_def starts_digit_def
        digit_val_def ulong_val_def)
  then show ?thesis
    using tt_dev_scan_lists [OF _ o, of "[\<lparr>dev_id = 9\<rparr>]" 1] by auto
qed

text \<open>
  A path that resolves to a device's node yields that device, so that opening the descriptor
  opens the node the path named.
\<close>

theorem tt_dev_from_path_node:
  assumes "k_realpath os p s = (Some (dev_path d), s1)"
  shows "tt_dev_from_path os (Some p) (Some d0) s = (TT_OK, Some d, s1)"
proof -
  have "unat (dev_id d) < 2 ^ 32"
    using unsigned_less [of "dev_id d"] by simp
  then have "strtoul10 (show_dec (unat (dev_id d))) = (unat (dev_id d), [])"
    "\<not> unat (dev_id d) > 2 ^ 32 - 1"
    using strtoul10_show_dec [of "unat (dev_id d)" "[]"] by simp_all
  then show ?thesis
    using assms by (simp add: tt_dev_from_path_def dev_path_def)
qed

theorem tt_dev_from_path_node_witness:
  "fst (snd (tt_dev_from_path stub_os (Some (dev_path \<lparr>dev_id = 12\<rparr>)) (Some \<lparr>dev_id = 0\<rparr>) stub_mach))
     = Some \<lparr>dev_id = 12\<rparr>"
proof -
  obtain s1 where "k_realpath stub_os (dev_path \<lparr>dev_id = 12\<rparr>) stub_mach
      = (Some (dev_path \<lparr>dev_id = 12\<rparr>), s1)"
    by (simp add: stub_defs)
  from tt_dev_from_path_node [OF this, of "\<lparr>dev_id = 0\<rparr>"] show ?thesis by simp
qed

text \<open>The lookup over such a system, for its clients.\<close>

lemma tt_dev_from_bdf_serves:
  assumes "serves os I" "length junk = BDF_SCAN_CAP" "parse_bdf addr = Some nm"
    "k_opendir os ''/dev/tenstorrent'' s = (Some es, s1)"
  shows "\<exists>s'. tt_dev_from_bdf os junk (Some addr) (Some d0) s =
      (case find (has_bdf I nm) (take 64 (listed es)) of
         Some d \<Rightarrow> Defined (TT_OK, Some d, s')
       | None \<Rightarrow> if length (listed es) \<le> 64 then Defined (TT_ERR, Some d0, s') else Undefined) \<and>
    (find (has_bdf I nm) (take 64 (listed es)) = None \<longrightarrow> errno s' = ENODEV) \<and>
    opened (since s s') = closed (since s s')"
proof -
  let ?n = "length (listed es)"
  let ?buf = "take 64 (listed es) @ drop ?n junk"
  obtain s2 where sc: "tt_dev_scan os BDF_SCAN_CAP junk s = (int ?n, ?buf, s2)"
    using tt_dev_scan_some [OF assms(4,2)] by (auto simp: BDF_SCAN_CAP_def)
  note sct = tt_dev_scan_trace [OF sc]
  have len: "length ?buf = 64"
    using assms(2) by (simp add: BDF_SCAN_CAP_def min_def)
  have tk: "take ?n ?buf = take 64 (listed es)"
    using assms(2) by (simp add: BDF_SCAN_CAP_def min_def)
  obtain s3 where lp: "bdf_loop os nm ?buf 0 ?n s2 =
      (case find (has_bdf I nm) (take 64 (listed es)) of
         Some d \<Rightarrow> Defined (Some d, s3)
       | None \<Rightarrow> if ?n \<le> 64 then Defined (None, s3) else Undefined)"
    using bdf_loop_serves [OF assms(1), of 0 ?buf nm ?n s2]
    unfolding drop0 tk len add_0 by auto
  have bal: "opened (since s s3) = closed (since s s3)"
    if "bdf_loop os nm ?buf 0 ?n s2 = Defined (r, s3)" for r
    using bdf_loop_trace [OF that] trace_trans [OF sct(1), of s3] sct by simp
  have go: "tt_dev_from_bdf os junk (Some addr) (Some d0) s =
      (case bdf_loop os nm ?buf 0 ?n s2 of
           Undefined \<Rightarrow> Undefined
         | Defined (Some d, s2) \<Rightarrow> Defined (TT_OK, Some d, s2)
         | Defined (None, s2) \<Rightarrow> Defined (out (Some d0) (tt_fail ENODEV s2)))"
    using assms(3) sc by (simp add: tt_dev_from_bdf_def)
  show ?thesis
  proof (cases "find (has_bdf I nm) (take 64 (listed es))")
    case (Some d)
    then show ?thesis using lp go bal by auto
  next
    case None
    show ?thesis
    proof (cases "?n \<le> 64")
      case True
      then show ?thesis using lp go bal None by (auto intro!: exI [of _ "s3\<lparr>errno := ENODEV\<rparr>"])
    next
      case False
      then show ?thesis
        using lp go None by (auto intro!: exI [of _ "s\<lparr>errno := ENODEV\<rparr>"])
    qed
  qed
qed


text \<open>The witness lists 65 devices that cannot be opened.\<close>

lemma listed_replicate:
  "listed (replicate n \<lparr>d_type = DT_CHR, d_name = ''0''\<rparr>) = replicate n \<lparr>dev_id = 0\<rparr>"
  by (induction n) (simp_all add: strtoul10_def is_space_def read_sign_def starts_digit_def
      digit_val_def ulong_val_def)


end
