(* ===== verification/PowerState.thy ===== *)
theory PowerState
  imports Device
begin

text \<open>
  The contract every session operation of the C library keeps towards its callers (a locale, so
  that the lemmas its clients need are proved once), and \<open>src/dev/power.c\<close>, the shortest
  operation that keeps it.
\<close>

section \<open>The contract of a session operation\<close>

text \<open>
  \<open>run\<close> is the operation on a session that is not null, \<open>code\<close> reads the return code out of its
  result. A closed session is refused before the system is touched, a failure on an open
  session never reads \<open>ENODEV\<close>, and the operation opens and closes no descriptor.
\<close>

locale session_op =
  fixes run :: "tt_session \<Rightarrow> 'w mach \<Rightarrow> 'r \<times> 'w mach"
    and code :: "'r \<Rightarrow> int"
  assumes refuses: "sess_fd ss < 0 \<Longrightarrow> run ss s = (r, s') \<Longrightarrow>
      code r = TT_ERR \<and> errno s' = ENOTCONN \<and> trace s' = trace s"
    and codes: "run ss s = (r, s') \<Longrightarrow> code r = TT_OK \<or> code r = TT_ERR"
    and failure: "0 \<le> sess_fd ss \<Longrightarrow> run ss s = (r, s') \<Longrightarrow> code r = TT_ERR \<Longrightarrow> errno s' \<noteq> ENODEV"
    and steady: "run ss s = (r, s') \<Longrightarrow>
      extends s s' \<and> opened (since s s') = [] \<and> closed (since s s') = []"
begin

lemma never_enodev:
  assumes "run ss s = (r, s')" "code r \<noteq> TT_OK"
  shows "code r = TT_ERR" "errno s' \<noteq> ENODEV"
proof -
  show "code r = TT_ERR" using codes [OF assms(1)] assms(2) by simp
  then show "errno s' \<noteq> ENODEV"
    using refuses [OF _ assms(1)] failure [OF _ assms(1)] by (cases "sess_fd ss < 0") auto
qed

lemma ok_open: "run ss s = (r, s') \<Longrightarrow> code r = TT_OK \<Longrightarrow> 0 \<le> sess_fd ss"
  using refuses [of ss s r s'] by (cases "sess_fd ss < 0") auto

text \<open>A caller that opens a session, runs the operation and closes the session leaks nothing.\<close>

lemma bracket_balanced:
  assumes "tt_open os (Some d) (Some ss0) fl s = (TT_OK, Some ss, s1)"
    and "run ss s1 = (r, s2)"
    and "tt_close os (Some ss) s2 = (rc, ss', s3)"
  shows "extends s s3" "opened (since s s3) = [sess_fd ss]" "closed (since s s3) = [sess_fd ss]"
proof -
  note o = tt_open_trace [OF assms(1)] and c = tt_close_trace [OF assms(3)]
  have r: "extends s1 s2" "opened (since s1 s2) = []" "closed (since s1 s2) = []"
    using steady [OF assms(2)] by auto
  have fd: "0 \<le> sess_fd ss" using tt_open_ok [OF assms(1)] by auto
  note a = trace_trans [OF o(1) r(1)]
  note b = trace_trans [OF a(1) c(1)]
  show "extends s s3" "opened (since s s3) = [sess_fd ss]" "closed (since s s3) = [sess_fd ss]"
    using b a o r c fd by simp_all
qed

end

text \<open>An operation with an out-parameter, seen as one that returns the pair.\<close>

definition op3 :: "('w mach \<Rightarrow> int \<times> 'a \<times> 'w mach) \<Rightarrow> 'w mach \<Rightarrow> (int \<times> 'a) \<times> 'w mach" where
  "op3 f s = (case f s of (rc, x, s') \<Rightarrow> ((rc, x), s'))"

lemma op3_eq [simp]: "op3 f s = (r, s') \<longleftrightarrow> f s = (fst r, snd r, s')"
  by (auto simp: op3_def split: prod.splits)

interpretation dev_info: session_op "\<lambda>ss. op3 (tt_dev_info os (Some ss) (Some i))" fst for os i
  by unfold_locales
    (auto simp: tt_dev_info_def since_eq extendsI split: prod.splits if_splits dest!: call_trace)

section \<open>Power\<close>

definition TT_POWER_MAX_AI_CLK :: u16 where "TT_POWER_MAX_AI_CLK = 1"
definition TT_POWER_MRISC_PHY_WAKEUP :: u16 where "TT_POWER_MRISC_PHY_WAKEUP = 2"
definition TT_POWER_TENSIX_ENABLE :: u16 where "TT_POWER_TENSIX_ENABLE = 4"
definition TT_POWER_L2CPU_ENABLE :: u16 where "TT_POWER_L2CPU_ENABLE = 8"

definition TT_POWER_VALIDITY :: "u8 \<Rightarrow> u8 \<Rightarrow> u8" where
  "TT_POWER_VALIDITY nflags nsettings = ((nflags AND 0xF) OR push_bit 4 (nsettings AND 0xF))"

text \<open>\<open>sizeof(struct tenstorrent_power_state)\<close>.\<close>

definition power_state_size :: u32 where
  "power_state_size = 40"

definition tt_power :: "'w os \<Rightarrow> tt_session option \<Rightarrow> u16 \<Rightarrow> 'w mach \<Rightarrow> int \<times> 'w mach" where
  "tt_power os sess flags s =
     (case sess of None \<Rightarrow> tt_fail EINVAL s | Some ss \<Rightarrow>
      if sess_fd ss < 0 then tt_fail ENOTCONN s
      else (case k_power os (sess_fd ss)
            \<lparr>k_argsz = power_state_size, k_flags = 0, k_reserved0 = 0,
             k_validity = TT_POWER_VALIDITY 4 0, k_power_flags = flags\<rparr> s of (r, s1) \<Rightarrow>
        if r \<noteq> 0 then tt_fail_io (errno s1) s1 else (TT_OK, s1)))"

interpretation power: session_op "\<lambda>ss. tt_power os (Some ss) flags" id for os flags
  by unfold_locales
    (auto simp: tt_power_def tt_fail_def tt_fail_io_def since_eq extendsI
      split: prod.splits if_splits dest!: call_trace)

lemma tt_power_asks:
  assumes "0 \<le> sess_fd ss" "tt_power os (Some ss) flags s = (rc, s')"
  shows "\<exists>r. since s s' = [EvIoctl (sess_fd ss) (IoPower
      \<lparr>k_argsz = 40, k_flags = 0, k_reserved0 = 0, k_validity = 4, k_power_flags = flags\<rparr>) r] \<and>
    (r = 0 \<longrightarrow> rc = TT_OK) \<and> (r \<noteq> 0 \<longrightarrow> rc = TT_ERR \<and> errno s' \<noteq> ENODEV)"
  using assms
  by (auto simp: tt_power_def TT_POWER_VALIDITY_def power_state_size_def since_eq
      split: prod.splits if_splits dest!: call_trace)

text \<open>
  Setting the power state is one ioctl on the session's descriptor that marks exactly the four
  defined flag bits valid and no setting, so the driver takes every bit absent from the
  request as an explicit off. The result reports the driver's answer.
\<close>

theorem tt_power_request:
  assumes "0 \<le> sess_fd ss" "tt_power os (Some ss) flags s = (rc, s')"
  shows "\<exists>r. since s s' = [EvIoctl (sess_fd ss) (IoPower
      \<lparr>k_argsz = 40, k_flags = 0, k_reserved0 = 0, k_validity = 4, k_power_flags = flags\<rparr>) r] \<and>
    (r = 0 \<longrightarrow> rc = TT_OK) \<and> (r \<noteq> 0 \<longrightarrow> rc = TT_ERR \<and> errno s' \<noteq> ENODEV)"
  by (rule tt_power_asks [OF assms])

theorem tt_power_request_witness:
  "\<exists>p. since stub_mach (snd (tt_power stub_os
      (Some \<lparr>sess_dev = \<lparr>dev_id = 0\<rparr>, sess_fd = 3, sess_flags = 0\<rparr>) 5 stub_mach))
     = [EvIoctl 3 (IoPower p) 0] \<and> k_power_flags p = 5"
proof -
  obtain rc s' where r: "tt_power stub_os
      (Some \<lparr>sess_dev = \<lparr>dev_id = 0\<rparr>, sess_fd = 3, sess_flags = 0\<rparr>) 5 stub_mach = (rc, s')"
    by (metis prod.exhaust)
  have "rc = TT_OK" using r by (simp add: tt_power_def stub_defs)
  then show ?thesis
    using tt_power_request [OF _ r] r by auto
qed

end
