(* ===== verification/Retry.thy ===== *)
theory Retry
  imports Main
begin

text \<open>
  The interface both bindings' \<open>perform\<close> share: a loop that runs an operation again after reopening
  the session, for as long as the result reads as a lost connection, a bounded number of times.
  The locale \<open>retrying\<close> states the loop's equations and \<open>performing\<close> adds the call around it; their lemmas are
  proved once and interpreted on the Rust binding and on the Python binding.
\<close>

text \<open>
  A chain of \<open>k\<close> retries of \<open>op\<close>: each starts from a lost result, reopens (\<open>again\<close> yields no
  error) and runs the operation once more.
\<close>

inductive retries ::
  "('r \<Rightarrow> 'm \<Rightarrow> bool) \<Rightarrow> ('s \<Rightarrow> 'm \<Rightarrow> 'r option \<times> 's \<times> 'm) \<Rightarrow> ('s \<Rightarrow> 'm \<Rightarrow> ('r \<times> 'm) option) \<Rightarrow>
     nat \<Rightarrow> 's \<times> 'r \<times> 'm \<Rightarrow> 's \<times> 'r \<times> 'm \<Rightarrow> bool"
  for lost again op where
  retries_0: "retries lost again op 0 x x"
| retries_Suc: "\<lbrakk>lost r m; again s m = (None, s1, m1); op s1 m1 = Some (r1, m2);
     retries lost again op k (s1, r1, m2) x\<rbrakk> \<Longrightarrow> retries lost again op (Suc k) (s, r, m) x"

inductive_cases retries_0E: "retries lost again op 0 x y"
inductive_cases retries_SucE: "retries lost again op (Suc k) (s, r, m) y"

locale retrying =
  fixes loop :: "nat \<Rightarrow> ('s \<Rightarrow> 'm \<Rightarrow> ('r \<times> 'm) option) \<Rightarrow> 's \<Rightarrow> 'r \<Rightarrow> 'm \<Rightarrow> ('r \<times> 's \<times> 'm) option"
    and lost :: "'r \<Rightarrow> 'm \<Rightarrow> bool"
    and again :: "'s \<Rightarrow> 'm \<Rightarrow> 'r option \<times> 's \<times> 'm"
    and spent :: "'m \<Rightarrow> 'r \<times> 'm"
  assumes loop_keep: "\<not> lost r m \<Longrightarrow> loop n op s r m = Some (r, s, m)"
    and loop_spent: "lost r m \<Longrightarrow> spent m = (r', m') \<Longrightarrow> loop 0 op s r m = Some (r', s, m')"
    and loop_fails: "lost r m \<Longrightarrow> again s m = (Some e, s', m') \<Longrightarrow> loop (Suc n) op s r m = Some (e, s', m')"
    and loop_again: "lost r m \<Longrightarrow> again s m = (None, s', m') \<Longrightarrow> loop (Suc n) op s r m =
      (case op s' m' of None \<Rightarrow> None | Some (r', m'') \<Rightarrow> loop n op s' r' m'')"
begin

text \<open>The loop ends if the operation does.\<close>

lemma loop_total:
  assumes "\<And>s m. op s m \<noteq> None"
  shows "\<exists>x. loop n op s r m = Some x"
proof (induction n arbitrary: s r m)
  case 0
  show ?case
    using loop_keep [of r m 0 op s] loop_spent [of r m "fst (spent m)" "snd (spent m)" op s] by auto
next
  case (Suc n)
  show ?case
  proof (cases "lost r m")
    case False
    then show ?thesis using loop_keep by blast
  next
    case True
    obtain e s' m' where a: "again s m = (e, s', m')" by (metis prod_cases3)
    show ?thesis
    proof (cases e)
      case None
      obtain r' m'' where "op s' m' = Some (r', m'')" using assms [of s' m'] by auto
      then show ?thesis using loop_again [OF True a [unfolded None]] Suc by simp
    next
      case (Some x)
      then show ?thesis using loop_fails [OF True] a by simp
    qed
  qed
qed

text \<open>
  What a run of the loop is: at most \<open>n\<close> retries, then a result that is not lost, a failed
  reopening, or, with the retries spent, the verdict that they are.
\<close>

lemma loop_outcome:
  assumes "loop n op s r m = Some (r', s', m')"
  shows "\<exists>k s1 r1 m1. k \<le> n \<and> retries lost again op k (s, r, m) (s1, r1, m1) \<and>
    (\<not> lost r1 m1 \<and> (r', s', m') = (r1, s1, m1) \<or>
     k < n \<and> lost r1 m1 \<and> again s1 m1 = (Some r', s', m') \<or>
     k = n \<and> lost r1 m1 \<and> s' = s1 \<and> (r', m') = spent m1)"
  using assms
proof (induction n arbitrary: s r m)
  case 0
  have "\<not> lost r m \<and> (r', s', m') = (r, s, m) \<or> lost r m \<and> s' = s \<and> (r', m') = spent m"
    using 0 loop_keep [of r m 0 op s] loop_spent [of r m "fst (spent m)" "snd (spent m)" op s]
    by (cases "lost r m") auto
  then show ?case using retries_0 by fastforce
next
  case (Suc n)
  show ?case
  proof (cases "lost r m")
    case False
    then show ?thesis using Suc.prems loop_keep [OF False, of "Suc n" op s] retries_0 by fastforce
  next
    case True
    obtain e s1 m1 where a: "again s m = (e, s1, m1)" by (metis prod_cases3)
    show ?thesis
    proof (cases e)
      case (Some x)
      then show ?thesis
        using Suc.prems loop_fails [OF True a [unfolded Some], of n op] True a retries_0
        by (intro exI [of _ 0] exI [of _ s] exI [of _ r] exI [of _ m]) auto
    next
      case None
      then have l: "loop (Suc n) op s r m =
          (case op s1 m1 of None \<Rightarrow> None | Some (r', m'') \<Rightarrow> loop n op s1 r' m'')"
        using loop_again [OF True] a by simp
      then obtain r2 m2 where o: "op s1 m1 = Some (r2, m2)" "loop n op s1 r2 m2 = Some (r', s', m')"
        using Suc.prems by (auto split: option.splits prod.splits)
      obtain k s3 r3 m3 where k: "k \<le> n" "retries lost again op k (s1, r2, m2) (s3, r3, m3)"
        and fin: "\<not> lost r3 m3 \<and> (r', s', m') = (r3, s3, m3) \<or>
           k < n \<and> lost r3 m3 \<and> again s3 m3 = (Some r', s', m') \<or>
           k = n \<and> lost r3 m3 \<and> s' = s3 \<and> (r', m') = spent m3"
        using Suc.IH [OF o(2)] by blast
      have "retries lost again op (Suc k) (s, r, m) (s3, r3, m3)"
        using True a None o(1) k(2) by (intro retries_Suc) auto
      then show ?thesis using k(1) fin
        by (intro exI [of _ "Suc k"] exI [of _ s3] exI [of _ r3] exI [of _ m3]) auto
    qed
  qed
qed

text \<open>And every such run is the loop's.\<close>

lemma loop_chain:
  assumes "retries lost again op k (s, r, m) (s1, r1, m1)"
  shows "loop (k + n) op s r m = loop n op s1 r1 m1"
  using assms
proof (induction k arbitrary: s r m)
  case 0
  then show ?case by (auto elim: retries_0E)
next
  case (Suc k)
  then show ?case by (auto elim!: retries_SucE simp: loop_again)
qed

lemma loop_iff:
  "loop n op s r m = Some (r', s', m') \<longleftrightarrow>
   (\<exists>k s1 r1 m1. k \<le> n \<and> retries lost again op k (s, r, m) (s1, r1, m1) \<and>
    (\<not> lost r1 m1 \<and> (r', s', m') = (r1, s1, m1) \<or>
     k < n \<and> lost r1 m1 \<and> again s1 m1 = (Some r', s', m') \<or>
     k = n \<and> lost r1 m1 \<and> s' = s1 \<and> (r', m') = spent m1))"
proof
  show "loop n op s r m = Some (r', s', m') \<Longrightarrow> \<exists>k s1 r1 m1. k \<le> n \<and>
    retries lost again op k (s, r, m) (s1, r1, m1) \<and>
    (\<not> lost r1 m1 \<and> (r', s', m') = (r1, s1, m1) \<or>
     k < n \<and> lost r1 m1 \<and> again s1 m1 = (Some r', s', m') \<or>
     k = n \<and> lost r1 m1 \<and> s' = s1 \<and> (r', m') = spent m1)"
    by (rule loop_outcome)
next
  assume "\<exists>k s1 r1 m1. k \<le> n \<and> retries lost again op k (s, r, m) (s1, r1, m1) \<and>
    (\<not> lost r1 m1 \<and> (r', s', m') = (r1, s1, m1) \<or>
     k < n \<and> lost r1 m1 \<and> again s1 m1 = (Some r', s', m') \<or>
     k = n \<and> lost r1 m1 \<and> s' = s1 \<and> (r', m') = spent m1)"
  then obtain k s1 r1 m1 where k: "k \<le> n" and ch: "retries lost again op k (s, r, m) (s1, r1, m1)"
    and fin: "\<not> lost r1 m1 \<and> (r', s', m') = (r1, s1, m1) \<or>
     k < n \<and> lost r1 m1 \<and> again s1 m1 = (Some r', s', m') \<or>
     k = n \<and> lost r1 m1 \<and> s' = s1 \<and> (r', m') = spent m1" by blast
  have "loop n op s r m = loop (n - k) op s1 r1 m1"
    using loop_chain [OF ch, of "n - k"] k by simp
  moreover have "k < n \<Longrightarrow> n - k = Suc (n - Suc k)" by simp
  ultimately show "loop n op s r m = Some (r', s', m')"
    using fin loop_keep [of r1 m1 "n - k" op s1] loop_fails [of r1 m1 s1 r' s' m' "n - Suc k" op]
      loop_spent [of r1 m1 r' m' op s1]
    by auto
qed

text \<open>With a reopening and a verdict that do not themselves read as lost, no result does.\<close>

lemma loop_never_lost:
  assumes "loop n op s r m = Some (r', s', m')"
    and "\<And>s m e s' m'. again s m = (Some e, s', m') \<Longrightarrow> \<not> lost e m'"
    and "\<And>m r' m'. spent m = (r', m') \<Longrightarrow> \<not> lost r' m'"
  shows "\<not> lost r' m'"
proof -
  obtain s1 r1 m1 where "\<not> lost r1 m1 \<and> (r', s', m') = (r1, s1, m1) \<or>
      again s1 m1 = (Some r', s', m') \<or> (r', m') = spent m1"
    using loop_outcome [OF assms(1)] by blast
  then show ?thesis using assms(2) [of s1 m1 r' s' m'] assms(3) [of m1 r' m'] by fastforce
qed

text \<open>A result that is no failed reopening's and no verdict is the last run's, on the state the loop leaves.\<close>

lemma retries_last:
  assumes "retries lost again op k (s, r, m) (s', r', m')" "op s m0 = Some (r, m)"
  shows "\<exists>m1. op s' m1 = Some (r', m')"
  using assms
proof (induction k arbitrary: s r m m0)
  case 0
  then show ?case by (auto elim: retries_0E)
next
  case (Suc k)
  then show ?case by (elim retries_SucE) blast
qed

lemma loop_last:
  assumes "loop n op s r m = Some (r', s', m')" "op s m0 = Some (r, m)" "good r'"
    and "\<And>s m e s' m'. again s m = (Some e, s', m') \<Longrightarrow> \<not> good e" "\<And>m r m'. spent m = (r, m') \<Longrightarrow> \<not> good r"
  shows "\<exists>m1. op s' m1 = Some (r', m')"
proof -
  obtain k s1 r1 m1 where k: "retries lost again op k (s, r, m) (s1, r1, m1)"
    and fin: "(r', s', m') = (r1, s1, m1) \<or> again s1 m1 = (Some r', s', m') \<or> spent m1 = (r', m')"
    using loop_outcome [OF assms(1)] by metis
  then have "(r', s', m') = (r1, s1, m1)" using assms(3-5) by blast
  with retries_last [OF k assms(2)] show ?thesis by simp
qed

text \<open>A relation between states that each step keeps holds over the whole loop.\<close>

lemma retries_invariant:
  assumes "retries lost again op k (s, r, m) (s', r', m')" "I s m"
    and "\<And>s m e s' m'. I s m \<Longrightarrow> again s m = (e, s', m') \<Longrightarrow> I s' m'"
    and "\<And>s m r m'. I s m \<Longrightarrow> op s m = Some (r, m') \<Longrightarrow> I s m'"
  shows "I s' m'"
  using assms(1,2)
proof (induction k arbitrary: s r m)
  case 0
  then show ?case by (auto elim: retries_0E)
next
  case (Suc k)
  then show ?case using assms(3,4) by (elim retries_SucE) blast
qed

lemma loop_invariant:
  assumes "loop n op s r m = Some (r', s', m')" "I s m"
    and "\<And>s m e s' m'. I s m \<Longrightarrow> again s m = (e, s', m') \<Longrightarrow> I s' m'"
    and "\<And>s m r m'. I s m \<Longrightarrow> op s m = Some (r, m') \<Longrightarrow> I s m'"
    and "\<And>s m r m'. I s m \<Longrightarrow> spent m = (r, m') \<Longrightarrow> I s m'"
  shows "I s' m'"
proof -
  obtain k s1 r1 m1 where k: "retries lost again op k (s, r, m) (s1, r1, m1)"
    and fin: "(r', s', m') = (r1, s1, m1) \<or> again s1 m1 = (Some r', s', m') \<or> s' = s1 \<and> (r', m') = spent m1"
    using loop_outcome [OF assms(1)] by blast
  have "I s1 m1" by (rule retries_invariant [where I = I, OF k assms(2) assms(3,4)])
  then show ?thesis using fin assms(3,5) by (metis prod.inject)
qed

end

text \<open>
  The operation \<open>perform\<close> itself: one run, and the loop after it for an object that retries.
\<close>

locale performing = retrying loop lost again spent
  for loop :: "nat \<Rightarrow> ('s \<Rightarrow> 'm \<Rightarrow> ('r \<times> 'm) option) \<Rightarrow> 's \<Rightarrow> 'r \<Rightarrow> 'm \<Rightarrow> ('r \<times> 's \<times> 'm) option"
    and lost again spent +
  fixes perform :: "('s \<Rightarrow> 'm \<Rightarrow> ('r \<times> 'm) option) \<Rightarrow> 's \<Rightarrow> 'm \<Rightarrow> ('r \<times> 's \<times> 'm) option"
    and persist :: "'s \<Rightarrow> bool" and tries :: nat
  assumes perform_eq: "perform op s m =
      (case op s m of None \<Rightarrow> None
       | Some (r, m1) \<Rightarrow> if persist s then loop tries op s r m1 else Some (r, s, m1))"
begin

lemma perform_cases:
  assumes "perform op s m = Some (r, s', m')"
  obtains (once) "\<not> persist s" "op s m = Some (r, m')" "s' = s"
    | (loop) r0 m0 where "persist s" "op s m = Some (r0, m0)" "loop tries op s r0 m0 = Some (r, s', m')"
  using assms by (auto simp: perform_eq split: option.splits if_splits prod.splits)

lemma perform_last:
  assumes "perform op s m = Some (r', s', m')" "good r'"
    and "\<And>s m e s' m'. again s m = (Some e, s', m') \<Longrightarrow> \<not> good e" "\<And>m r m'. spent m = (r, m') \<Longrightarrow> \<not> good r"
  obtains m1 where "op s' m1 = Some (r', m')"
  using assms(1)
proof (cases rule: perform_cases)
  case once
  then show thesis using that by blast
next
  case (loop r m1)
  then show thesis using loop_last [OF loop(3,2), of good] assms(2-4) that by blast
qed

lemma perform_ends: "(\<And>s m. op s m \<noteq> None) \<Longrightarrow> \<exists>x. perform op s m = Some x"
  using loop_total [of op] by (auto simp: perform_eq split: option.split)

end

end
