(* ===== verification/Books.thy ===== *)
theory Books
  imports Err Retry "HOL-Library.Multiset"
begin

text \<open>
  Accounts of what a run leaves behind. The code is full of resources that come and go in pairs (descriptors,
  mappings, windows), and most of what is proved of a component says that some account of them is kept: by
  one operation, by any sequence of them, by the loop that retries one. This theory holds the interfaces of
  that reasoning, each lemma proved once: an account composes, a ledger of what was taken and given back is
  an account, and sequences and retry loops keep the accounts their steps keep. They are interpreted where
  the resources and the steps are defined.
\<close>

section \<open>Accounts compose\<close>

locale account =
  fixes books :: "'x \<Rightarrow> 'm \<Rightarrow> 'x \<Rightarrow> 'm \<Rightarrow> bool"
  assumes books_refl: "books x s x s"
    and books_trans: "books x s y t \<Longrightarrow> books y t z u \<Longrightarrow> books x s z u"

text \<open>Any sequence of the steps of an object, each of which keeps its books, keeps them.\<close>

locale history = account books for books :: "'x \<Rightarrow> 'm \<Rightarrow> 'x \<Rightarrow> 'm \<Rightarrow> bool" +
  fixes ok :: bool and step :: "'x \<times> 'm \<Rightarrow> 'x \<times> 'm \<Rightarrow> bool"
  assumes step_keeps: "ok \<Longrightarrow> step (x, s) (y, t) \<Longrightarrow> books x s y t"
begin

lemma history_keeps:
  assumes "step\<^sup>*\<^sup>* (x, s) (y, t)" ok
  shows "books x s y t"
  using assms(1)
proof (induction rule: rtranclp_induct2)
  case (step y1 t1 y2 t2)
  then show ?case using books_trans [OF _ step_keeps [OF assms(2)]] by blast
qed (rule books_refl)

end

text \<open>
  So does a call that reopens and retries its operation, if reopening and the last verdict keep them and the
  operation does.
\<close>

locale performing_account = performing loop lost again spent perform persist tries + account books
  for loop :: "nat \<Rightarrow> ('s \<Rightarrow> 'm \<Rightarrow> ('r \<times> 'm) option) \<Rightarrow> 's \<Rightarrow> 'r \<Rightarrow> 'm \<Rightarrow> ('r \<times> 's \<times> 'm) option"
    and lost again spent perform persist tries
    and books :: "'s \<Rightarrow> 'm \<Rightarrow> 's \<Rightarrow> 'm \<Rightarrow> bool" +
  fixes ok :: bool
  assumes again_keeps: "ok \<Longrightarrow> again x s = (e, y, t) \<Longrightarrow> books x s y t"
    and spent_keeps: "spent s = (r, t) \<Longrightarrow> books x s x t"
begin

lemma perform_keeps:
  assumes "perform op x s = Some (r, y, t)" ok and op: "\<And>x s r t. op x s = Some (r, t) \<Longrightarrow> books x s x t"
  shows "books x s y t"
  using assms(1)
proof (cases rule: perform_cases)
  case once
  then show ?thesis using op by blast
next
  case (loop r0 s0)
  show ?thesis
  proof (rule loop_invariant [where I = "books x s", OF loop(3) op [OF loop(2)]])
    fix y t e y' t'
    assume "books x s y t" "again y t = (e, y', t')"
    then show "books x s y' t'" by (rule books_trans [OF _ again_keeps [OF assms(2)]])
  next
    fix y t r t'
    assume "books x s y t" "op y t = Some (r, t')"
    then show "books x s y t'" by (rule books_trans [OF _ op])
  next
    fix y t r t'
    assume "books x s y t" "spent t = (r, t')"
    then show "books x s y t'" by (rule books_trans [OF _ spent_keeps])
  qed
qed

text \<open>
  An operation of which only the failing runs keep the books: a call that fails keeps them, and one that
  succeeds kept them up to its last run.
\<close>

lemma retries_settle:
  assumes "retries lost again op k (s, r, m) (s', r', m')" ok "\<exists>u. books x0 s0 s u \<and> op s u = Some (r, m)"
    and "\<And>x s r t. op x s = Some (r, t) \<Longrightarrow> \<not> good r \<Longrightarrow> books x s x t" "\<And>r m. lost r m \<Longrightarrow> \<not> good r"
  shows "\<exists>u. books x0 s0 s' u \<and> op s' u = Some (r', m')"
  using assms(1,3)
proof (induction k arbitrary: s r m)
  case 0
  then show ?case by (auto elim: retries_0E)
next
  case (Suc k)
  obtain s1 m1 r1 m2 where st: "lost r m" "again s m = (None, s1, m1)" "op s1 m1 = Some (r1, m2)"
    and ch: "retries lost again op k (s1, r1, m2) (s', r', m')"
    using Suc.prems(1) by (rule retries_SucE)
  obtain u where u: "books x0 s0 s u" "op s u = Some (r, m)" using Suc.prems(2) by blast
  have "books x0 s0 s m" by (rule books_trans [OF u(1) assms(4) [OF u(2) assms(5) [OF st(1)]]])
  then have "books x0 s0 s1 m1" by (rule books_trans [OF _ again_keeps [OF assms(2) st(2)]])
  then show ?case using Suc.IH [OF ch] st(3) by blast
qed

lemma perform_settles:
  assumes "perform op x s = Some (r, y, t)" ok
    and op: "\<And>x s r t. op x s = Some (r, t) \<Longrightarrow> \<not> good r \<Longrightarrow> books x s x t"
    and bad: "\<And>r m. lost r m \<Longrightarrow> \<not> good r"
    and again_bad: "\<And>s m e s' m'. again s m = (Some e, s', m') \<Longrightarrow> \<not> good e"
    and spent_bad: "\<And>m r m'. spent m = (r, m') \<Longrightarrow> \<not> good r"
  shows "if good r then \<exists>u. books x s y u \<and> op y u = Some (r, t) else books x s y t"
  using assms(1)
proof (cases rule: perform_cases)
  case once
  then show ?thesis using op [of x s r t] books_refl [of x s] by (cases "good r") auto
next
  case (loop r0 m0)
  obtain k s1 r1 m1 where ch: "retries lost again op k (x, r0, m0) (s1, r1, m1)"
    and fin: "\<not> lost r1 m1 \<and> (r, y, t) = (r1, s1, m1) \<or> lost r1 m1 \<and> again s1 m1 = (Some r, y, t) \<or>
      lost r1 m1 \<and> y = s1 \<and> spent m1 = (r, t)"
    using loop_outcome [OF loop(3)] by metis
  have "\<exists>u. books x s s1 u \<and> op s1 u = Some (r1, m1)"
    by (rule retries_settle [where good = good, OF ch assms(2)]) (use loop(2) op bad in \<open>blast intro: books_refl\<close>)+
  then obtain u where u: "books x s s1 u" "op s1 u = Some (r1, m1)" by blast
  have l: "books x s s1 m1" if "\<not> good r1"
    by (rule books_trans [OF u(1) op [OF u(2) that]])
  from fin show ?thesis
  proof (elim disjE conjE)
    assume "(r, y, t) = (r1, s1, m1)"
    then show ?thesis using u l by auto
  next
    assume "lost r1 m1" "again s1 m1 = (Some r, y, t)"
    then show ?thesis using books_trans [OF l [OF bad] again_keeps [OF assms(2)]] again_bad by auto
  next
    assume "lost r1 m1" "y = s1" "spent m1 = (r, t)"
    then show ?thesis using books_trans [OF l [OF bad] spent_keeps] spent_bad by auto
  qed
qed

end

section \<open>Ledgers\<close>

text \<open>
  What was taken between two machines, with what the object held before, is what was given back, with what
  the object holds after.
\<close>

definition kept ::
  "(event list \<Rightarrow> 'a list) \<Rightarrow> (event list \<Rightarrow> 'a list) \<Rightarrow> ('x \<Rightarrow> 'a multiset) \<Rightarrow> 'x \<Rightarrow> 'w mach \<Rightarrow> 'x \<Rightarrow> 'w mach \<Rightarrow> bool" where
  "kept taken given holding x s y t \<longleftrightarrow> extends s t \<and>
     mset (taken (since s t)) + holding x = mset (given (since s t)) + holding y"

locale ledger =
  fixes taken given :: "event list \<Rightarrow> 'a list" and holding :: "'x \<Rightarrow> 'a multiset"
  assumes taken_append: "taken (es @ es') = taken es @ taken es'"
    and given_append: "given (es @ es') = given es @ given es'"
begin

lemma taken_nil: "taken [] = []" and given_nil: "given [] = []"
  using taken_append [of "[]" "[]"] given_append [of "[]" "[]"] by simp_all

end

sublocale ledger \<subseteq> account "kept taken given holding"
proof
  fix x and s :: "'w mach"
  show "kept taken given holding x s x s" by (simp add: kept_def taken_nil given_nil)
next
  fix x y z and s t u :: "'w mach"
  assume a: "kept taken given holding x s y t" and b: "kept taken given holding y t z u"
  then have e: "extends s t" "extends t u" by (simp_all add: kept_def)
  have "mset (taken (since s u)) + holding x = mset (taken (since t u)) + (mset (taken (since s t)) + holding x)"
    by (simp add: since_trans [OF e] taken_append ac_simps)
  also have "\<dots> = mset (given (since s t)) + (mset (taken (since t u)) + holding y)"
    using a by (simp add: kept_def ac_simps)
  also have "\<dots> = mset (given (since s u)) + holding z"
    using b by (simp add: kept_def since_trans [OF e] given_append ac_simps)
  finally show "kept taken given holding x s z u"
    using extends_trans [OF e] by (simp add: kept_def)
qed

end
