(* ===== verification/Tlb.thy ===== *)
theory Tlb
  imports PowerState Books
begin

text \<open>
  \<open>src/dev/tlb.c\<close>: windows onto device memory. Addresses are 64-bit words, the null pointer is
  \<open>0\<close> and \<open>MAP_FAILED\<close> the largest word. The step relation \<open>tlb_step\<close> and the lemmas after it
  account for the mappings an arbitrary history of binds and frees makes and removes.
\<close>

section \<open>Data\<close>

record tt_tlb =
  tlb_id :: u32
  tlb_ptr :: u64
  tlb_idx :: u64
  tlb_len :: u64

record tt_tlb_config =
  cfg_addr :: u64
  cfg_x_end :: u8
  cfg_y_end :: u8
  cfg_x_start :: u8
  cfg_y_start :: u8
  cfg_noc :: u8
  cfg_mcast :: bool
  cfg_linked :: bool
  cfg_static_vc :: u8

definition TT_TLB_1MB :: u64 where "TT_TLB_1MB = push_bit 20 1"
definition TT_TLB_2MB :: u64 where "TT_TLB_2MB = push_bit 21 1"
definition TT_TLB_16MB :: u64 where "TT_TLB_16MB = push_bit 24 1"
definition TT_TLB_4GB :: u64 where "TT_TLB_4GB = push_bit 32 1"

text \<open>C lets any integer through as a cache mode, so the enumeration is its integers.\<close>

definition TT_TLB_UC :: u32 where "TT_TLB_UC = 0"
definition TT_TLB_WC :: u32 where "TT_TLB_WC = 1"

abbreviation MAP_FAILED :: u64 where "MAP_FAILED \<equiv> - 1"

section \<open>Operations\<close>

text \<open>Every window operation that takes a session and a window returns the window updated.\<close>

definition tt_tlb_free ::
  "'w os \<Rightarrow> tt_session option \<Rightarrow> tt_tlb option \<Rightarrow> 'w mach \<Rightarrow> int \<times> tt_tlb option \<times> 'w mach" where
  "tt_tlb_free os sess tlb s =
     (case sess of None \<Rightarrow> out tlb (tt_fail EINVAL s) | Some ss \<Rightarrow>
      case tlb of None \<Rightarrow> out tlb (tt_fail EINVAL s) | Some t \<Rightarrow>
      (case (if tlb_ptr t \<noteq> 0 then k_munmap os (tlb_ptr t) (tlb_len t) s else (0, s)) of (m, s1) \<Rightarrow>
        if m \<noteq> 0 then (TT_ERR, tlb, s1)
        else (let t1 = t\<lparr>tlb_ptr := 0\<rparr> in
          if sess_fd ss < 0 then out (Some t1) (tt_fail ENOTCONN s1)
          else (case k_free_tlb os (sess_fd ss) (tlb_id t1) s1 of (r, s2) \<Rightarrow>
            if r \<noteq> 0 then out (Some t1) (tt_fail_io (errno s2) s2)
            else (TT_OK, Some (t1\<lparr>tlb_id := 0\<rparr>), s2)))))"

definition tt_tlb_alloc ::
  "'w os \<Rightarrow> tt_session option \<Rightarrow> u64 \<Rightarrow> u32 \<Rightarrow> tt_tlb option \<Rightarrow> 'w mach \<Rightarrow>
     int \<times> tt_tlb option \<times> 'w mach" where
  "tt_tlb_alloc os sess sz mode tlb s =
     (case sess of None \<Rightarrow> out tlb (tt_fail EINVAL s) | Some ss \<Rightarrow>
      case tlb of None \<Rightarrow> out tlb (tt_fail EINVAL s) | Some t0 \<Rightarrow>
      if sess_fd ss < 0 then out tlb (tt_fail ENOTCONN s)
      else (case k_alloc_tlb os (sess_fd ss) sz s of ((r, alloc), s1) \<Rightarrow>
        if r \<noteq> 0 then out tlb (tt_fail_io (errno s1) s1)
        else
          if mode = TT_TLB_UC then
            (TT_OK, Some \<lparr>tlb_id = k_id alloc, tlb_ptr = 0, tlb_idx = k_mmap_offset_uc alloc, tlb_len = sz\<rparr>, s1)
          else if mode = TT_TLB_WC then
            (TT_OK, Some \<lparr>tlb_id = k_id alloc, tlb_ptr = 0, tlb_idx = k_mmap_offset_wc alloc, tlb_len = sz\<rparr>, s1)
          else
            (let s2 = s1\<lparr>errno := EINVAL\<rparr>; err = errno s2;
                t = \<lparr>tlb_id = k_id alloc, tlb_ptr = 0, tlb_idx = 0, tlb_len = sz\<rparr>
            in (case tt_tlb_free os sess (Some t) s2 of (_, tlb', s3) \<Rightarrow>
                  out tlb' (tt_fail err s3)))))"

definition noc_config :: "tt_tlb_config \<Rightarrow> kmd_noc_config" where
  "noc_config cfg =
     \<lparr>k_addr = cfg_addr cfg, k_x_end = ucast (cfg_x_end cfg), k_y_end = ucast (cfg_y_end cfg),
      k_x_start = ucast (cfg_x_start cfg), k_y_start = ucast (cfg_y_start cfg), k_noc = cfg_noc cfg,
      k_mcast = of_bool (cfg_mcast cfg), k_ordering = 1, k_linked = of_bool (cfg_linked cfg),
      k_static_vc = cfg_static_vc cfg\<rparr>"

text \<open>The \<open>cleanup\<close> label of \<open>tt_tlb_bind\<close>: drop the previous mapping, keep the cause.\<close>

definition bind_cleanup :: "'w os \<Rightarrow> tt_tlb \<Rightarrow> 'w mach \<Rightarrow> int \<times> tt_tlb option \<times> 'w mach" where
  "bind_cleanup os t s =
     (let err = errno s in
      if tlb_ptr t \<noteq> 0 then
        (case k_munmap os (tlb_ptr t) (tlb_len t) s of (_, s1) \<Rightarrow>
           out (Some (t\<lparr>tlb_ptr := 0\<rparr>)) (tt_fail err s1))
      else out (Some t) (tt_fail err s))"

definition tt_tlb_bind ::
  "'w os \<Rightarrow> tt_session option \<Rightarrow> tt_tlb option \<Rightarrow> tt_tlb_config option \<Rightarrow> 'w mach \<Rightarrow>
     int \<times> tt_tlb option \<times> 'w mach" where
  "tt_tlb_bind os sess tlb cfg s =
     (case sess of None \<Rightarrow> out tlb (tt_fail EINVAL s) | Some ss \<Rightarrow>
      case tlb of None \<Rightarrow> out tlb (tt_fail EINVAL s) | Some t \<Rightarrow>
      case cfg of None \<Rightarrow> out tlb (tt_fail EINVAL s) | Some c \<Rightarrow>
      if sess_fd ss < 0 then out tlb (tt_fail ENOTCONN s)
      else (case k_mmap os (sess_fd ss) (tlb_len t) (tlb_idx t) s of (ptr, s1) \<Rightarrow>
        if ptr = MAP_FAILED then bind_cleanup os t (snd (tt_fail_io (errno s1) s1))
        else (case k_config_tlb os (sess_fd ss) (tlb_id t) (noc_config c) s1 of (r, s2) \<Rightarrow>
          if r \<noteq> 0 then
            (let err = errno s2 in
             (case k_munmap os ptr (tlb_len t) s2 of (_, s3) \<Rightarrow>
               bind_cleanup os t (snd (tt_fail_io err s3))))
          else if tlb_ptr t \<noteq> 0 then
            (case k_munmap os (tlb_ptr t) (tlb_len t) s2 of (_, s3) \<Rightarrow>
              (TT_OK, Some (t\<lparr>tlb_ptr := ptr\<rparr>), s3))
          else (TT_OK, Some (t\<lparr>tlb_ptr := ptr\<rparr>), s2))))"

lemmas tlb_defs = tt_tlb_free_def tt_tlb_alloc_def tt_tlb_bind_def bind_cleanup_def Let_def

interpretation tlb_alloc:
  session_op "\<lambda>ss. op3 (tt_tlb_alloc os (Some ss) sz mode (Some t))" fst for os sz mode t
  by unfold_locales
    (auto simp: tlb_defs since_eq extendsI split: prod.splits if_splits dest!: call_trace)

interpretation tlb_bind:
  session_op "\<lambda>ss. op3 (tt_tlb_bind os (Some ss) (Some t) (Some c))" fst for os t c
  by unfold_locales
    (auto simp: tlb_defs since_eq extendsI split: prod.splits if_splits dest!: call_trace)

section \<open>Mappings made and removed\<close>

definition mapped :: "event list \<Rightarrow> u64 list" where
  "mapped es = concat (map (\<lambda>e. case e of EvMmap f n off r \<Rightarrow> if r = MAP_FAILED then [] else [r] | _ \<Rightarrow> []) es)"

definition unmapped :: "event list \<Rightarrow> u64 list" where
  "unmapped es = concat (map (\<lambda>e. case e of EvMunmap p n r \<Rightarrow> if r = 0 then [p] else [] | _ \<Rightarrow> []) es)"

lemma mapped_simps [simp]:
  "mapped [] = []"
  "mapped (e # es) =
     (case e of EvMmap f n off r \<Rightarrow> if r = MAP_FAILED then [] else [r] | _ \<Rightarrow> []) @ mapped es"
  "mapped (xs @ ys) = mapped xs @ mapped ys"
  by (simp_all add: mapped_def)

lemma unmapped_simps [simp]:
  "unmapped [] = []"
  "unmapped (e # es) =
     (case e of EvMunmap p n r \<Rightarrow> if r = 0 then [p] else [] | _ \<Rightarrow> []) @ unmapped es"
  "unmapped (xs @ ys) = unmapped xs @ unmapped ys"
  by (simp_all add: unmapped_def)

text \<open>The mapping a window holds.\<close>

definition held :: "tt_tlb \<Rightarrow> u64 multiset" where
  "held t = (if tlb_ptr t = 0 then {#} else {#tlb_ptr t#})"

text \<open>
  What the memory calls are relied upon for: \<open>mmap\<close> without a hint never maps page zero, and
  unmapping a whole mapping succeeds.
\<close>

definition mapping_calls :: "'w os \<Rightarrow> bool" where
  "mapping_calls os \<longleftrightarrow>
     (\<forall>f n off e w. fst (sys_mmap os f n off e w) \<noteq> 0) \<and>
     (\<forall>p n e w. fst (sys_munmap os p n e w) = 0)"

lemma mmap_step:
  "k_mmap os f n off s = (p, s') \<Longrightarrow>
   trace s' = trace s @ [EvMmap f n off p] \<and> (mapping_calls os \<longrightarrow> p \<noteq> 0)"
  by (metis call_fst call_trace fst_conv mapping_calls_def)

lemma munmap_step:
  "k_munmap os p n s = (r, s') \<Longrightarrow>
   trace s' = trace s @ [EvMunmap p n r] \<and> (mapping_calls os \<longrightarrow> r = 0)"
  by (metis call_fst call_trace fst_conv mapping_calls_def)

lemmas config_step = call_trace [where ev = "EvIoctl f (IoConfigTlb i c)" for f i c]
lemmas free_step = call_trace [where ev = "EvIoctl f (IoFreeTlb i)" for f i]

text \<open>
  Dropping the mapping a window held: \<open>D\<close> is the one call it takes, or nothing for a window that
  held none.
\<close>

definition dropped :: "'w os \<Rightarrow> tt_tlb \<Rightarrow> event list \<Rightarrow> bool" where
  "dropped os t D \<longleftrightarrow>
     (if tlb_ptr t = 0 then D = []
      else \<exists>m. D = [EvMunmap (tlb_ptr t) (tlb_len t) m] \<and> (mapping_calls os \<longrightarrow> m = 0))"

lemma dropped_simps [simp]:
  "tlb_ptr t = 0 \<Longrightarrow> dropped os t D \<longleftrightarrow> D = []"
  "tlb_ptr t \<noteq> 0 \<Longrightarrow> dropped os t [EvMunmap (tlb_ptr t) (tlb_len t) m] \<longleftrightarrow> (mapping_calls os \<longrightarrow> m = 0)"
  by (simp_all add: dropped_def)

lemma dropped_accounts:
  assumes "dropped os t D"
  shows "mapping_calls os \<Longrightarrow> mset (unmapped D) = held t" "mapped D = []"
  using assms by (auto simp: dropped_def held_def split: if_splits)

lemma bind_cleanup_outcome:
  assumes "bind_cleanup os t s = (rc, tlb', s')"
  shows "\<exists>D. dropped os t D \<and> trace s' = trace s @ D" "rc = TT_ERR"
    "tlb' = Some (t\<lparr>tlb_ptr := 0\<rparr>)" "errno s' = errno s"
  using assms
  by (auto simp: bind_cleanup_def Let_def dropped_def split: prod.splits if_splits dest!: munmap_step)

lemma tt_tlb_bind_cases:
  assumes "tt_tlb_bind os (Some ss) (Some t) (Some c) s = (rc, tlb', s')" "0 \<le> sess_fd ss"
  obtains (unmappable) D where "dropped os t D" "rc = TT_ERR" "tlb' = Some (t\<lparr>tlb_ptr := 0\<rparr>)"
      "trace s' = trace s @ [EvMmap (sess_fd ss) (tlb_len t) (tlb_idx t) MAP_FAILED] @ D"
    | (refused) p r m' D where "dropped os t D" "rc = TT_ERR" "tlb' = Some (t\<lparr>tlb_ptr := 0\<rparr>)" "p \<noteq> MAP_FAILED" "r \<noteq> 0"
      "trace s' = trace s @ [EvMmap (sess_fd ss) (tlb_len t) (tlb_idx t) p,
         EvIoctl (sess_fd ss) (IoConfigTlb (tlb_id t) (noc_config c)) r,
         EvMunmap p (tlb_len t) m'] @ D"
      "mapping_calls os \<longrightarrow> p \<noteq> 0 \<and> m' = 0"
    | (bound) p D where "dropped os t D" "rc = TT_OK" "tlb' = Some (t\<lparr>tlb_ptr := p\<rparr>)" "p \<noteq> MAP_FAILED"
      "trace s' = trace s @ [EvMmap (sess_fd ss) (tlb_len t) (tlb_idx t) p,
         EvIoctl (sess_fd ss) (IoConfigTlb (tlb_id t) (noc_config c)) 0] @ D"
      "mapping_calls os \<longrightarrow> p \<noteq> 0"
proof -
  obtain p s1 where m: "k_mmap os (sess_fd ss) (tlb_len t) (tlb_idx t) s = (p, s1)"
    by (metis prod.exhaust)
  obtain r s2 where c: "k_config_tlb os (sess_fd ss) (tlb_id t) (noc_config c) s1 = (r, s2)"
    by (metis prod.exhaust)
  obtain m' s3 where u: "k_munmap os p (tlb_len t) s2 = (m', s3)"
    by (metis prod.exhaust)
  obtain m0 s4 where d: "k_munmap os (tlb_ptr t) (tlb_len t) s2 = (m0, s4)"
    by (metis prod.exhaust)
  note ev = mmap_step [OF m] config_step [OF c] munmap_step [OF u] munmap_step [OF d]
  consider "p = MAP_FAILED" | "p \<noteq> MAP_FAILED" "r \<noteq> 0" | "p \<noteq> MAP_FAILED" "r = 0" by blast
  then show thesis
  proof cases
    case 1
    then have "bind_cleanup os t (s1\<lparr>errno := if errno s1 = ENODEV then ECONNRESET else errno s1\<rparr>)
        = (rc, tlb', s')"
      using assms m by (simp add: tt_tlb_bind_def)
    from bind_cleanup_outcome [OF this] show thesis using ev 1 unmappable by auto
  next
    case 2
    then have "bind_cleanup os t (s3\<lparr>errno := if errno s2 = ENODEV then ECONNRESET else errno s2\<rparr>)
        = (rc, tlb', s')"
      using assms m c u by (simp add: tt_tlb_bind_def Let_def)
    from bind_cleanup_outcome [OF this] show thesis using ev 2 refused by auto
  next
    case 3
    then show thesis
      using assms m c d ev bound [of "if tlb_ptr t = 0 then [] else [EvMunmap (tlb_ptr t) (tlb_len t) m0]" p]
      by (auto simp: tt_tlb_bind_def split: if_splits)
  qed
qed

lemma bind_accounts:
  assumes "mapping_calls os" "tt_tlb_bind os (Some ss) (Some t) (Some c) s = (rc, Some t', s')"
  shows "mset (mapped (since s s')) + held t = mset (unmapped (since s s')) + held t'"
proof (cases "sess_fd ss < 0")
  case True
  then show ?thesis using assms(2) by (auto simp: tt_tlb_bind_def)
next
  case False
  then have fd: "0 \<le> sess_fd ss" by simp
  from assms(2) fd show ?thesis
    using assms(1)
    by (cases rule: tt_tlb_bind_cases) (auto simp: since_eq dropped_accounts held_def)
qed

lemma tt_tlb_free_cases:
  assumes "tt_tlb_free os (Some ss) (Some t) s = (rc, tlb', s')"
  obtains (stuck) m where "tlb_ptr t \<noteq> 0" "m \<noteq> 0" "rc = TT_ERR" "tlb' = Some t"
      "trace s' = trace s @ [EvMunmap (tlb_ptr t) (tlb_len t) m]" "\<not> mapping_calls os"
    | (detached) D where "sess_fd ss < 0" "rc = TT_ERR" "errno s' = ENOTCONN"
      "tlb' = Some (t\<lparr>tlb_ptr := 0\<rparr>)" "trace s' = trace s @ D"
      "D = (if tlb_ptr t = 0 then [] else [EvMunmap (tlb_ptr t) (tlb_len t) 0])"
    | (refused) D r where "0 \<le> sess_fd ss" "r \<noteq> 0" "rc = TT_ERR" "errno s' \<noteq> ENODEV"
      "tlb' = Some (t\<lparr>tlb_ptr := 0\<rparr>)"
      "trace s' = trace s @ D @ [EvIoctl (sess_fd ss) (IoFreeTlb (tlb_id t)) r]"
      "D = (if tlb_ptr t = 0 then [] else [EvMunmap (tlb_ptr t) (tlb_len t) 0])"
    | (freed) D where "0 \<le> sess_fd ss" "rc = TT_OK" "tlb' = Some (t\<lparr>tlb_ptr := 0, tlb_id := 0\<rparr>)"
      "trace s' = trace s @ D @ [EvIoctl (sess_fd ss) (IoFreeTlb (tlb_id t)) 0]"
      "D = (if tlb_ptr t = 0 then [] else [EvMunmap (tlb_ptr t) (tlb_len t) 0])"
  using assms
  by (auto simp: tt_tlb_free_def Let_def split: prod.splits if_splits
      dest!: munmap_step free_step)

lemma free_accounts:
  assumes "mapping_calls os" "tt_tlb_free os (Some ss) (Some t) s = (rc, Some t', s')"
  shows "mset (mapped (since s s')) + held t = mset (unmapped (since s s')) + held t'"
  using assms(2,1)
  by (cases rule: tt_tlb_free_cases) (auto simp: since_eq held_def split: if_splits)

lemma tt_tlb_bind_extends:
  assumes "tt_tlb_bind os (Some ss) (Some t) (Some c) s = (rc, tlb', s')"
  shows "extends s s'" "opened (since s s') = []" "closed (since s s') = []"
  using assms tlb_bind.steady by (metis fst_conv op3_eq snd_conv)+

lemma tt_tlb_free_extends:
  assumes "tt_tlb_free os (Some ss) (Some t) s = (rc, tlb', s')"
  shows "extends s s'" "opened (since s s') = []" "closed (since s s') = []"
  using assms
  by (cases rule: tt_tlb_free_cases; auto simp: since_eq extendsI split: if_splits)+

section \<open>Histories of a window\<close>

text \<open>
  One operation on an allocated window: a bind with any configuration or a free, over any
  session value (the caller may close or reopen its session in between), successful or not.
\<close>

inductive tlb_step :: "'w os \<Rightarrow> tt_tlb \<times> 'w mach \<Rightarrow> tt_tlb \<times> 'w mach \<Rightarrow> bool" for os where
  step_bind: "tt_tlb_bind os (Some ss) (Some t) (Some c) s = (rc, Some t', s') \<Longrightarrow>
     tlb_step os (t, s) (t', s')"
| step_free: "tt_tlb_free os (Some ss) (Some t) s = (rc, Some t', s') \<Longrightarrow>
     tlb_step os (t, s) (t', s')"

inductive_cases tlb_stepE: "tlb_step os (t, s) (t', s')"

interpretation maps: ledger mapped unmapped held
  by unfold_locales simp_all

interpretation tlb_life: history "kept mapped unmapped held" "mapping_calls os" "tlb_step os" for os :: "'w os"
  by unfold_locales
    (auto simp: kept_def elim!: tlb_stepE dest: tt_tlb_bind_extends tt_tlb_free_extends bind_accounts free_accounts)

section \<open>What the window operations promise\<close>

text \<open>
  C16: over any history of binds and frees of a freshly allocated window, on sessions that may be
  closed or reopened in between, the mappings made but not removed are exactly the one the
  window's pointer shows: no operation, on any of its error paths, leaks a mapping or removes
  one twice.
\<close>

theorem tlb_history_accounts:
  assumes "(tlb_step os)\<^sup>*\<^sup>* (t, s) (t', s')" "mapping_calls os" "tlb_ptr t = 0"
  shows "mset (mapped (since s s')) =
    mset (unmapped (since s s')) + (if tlb_ptr t' = 0 then {#} else {#tlb_ptr t'#})"
proof -
  have "kept mapped unmapped held t s t' s'" by (rule tlb_life.history_keeps [OF assms(1,2)])
  then show ?thesis using assms(3) by (simp add: kept_def held_def)
qed

theorem tlb_history_accounts_witness:
  "\<exists>t s. (tlb_step stub_os)\<^sup>*\<^sup>* (\<lparr>tlb_id = 7, tlb_ptr = 0, tlb_idx = 0x1000, tlb_len = TT_TLB_2MB\<rparr>, stub_mach) (t, s) \<and>
     tlb_ptr t = 0x10000000 \<and> mset (mapped (since stub_mach s)) = mset (unmapped (since stub_mach s)) + {#0x10000000#}"
proof -
  let ?ss = "\<lparr>sess_dev = \<lparr>dev_id = 0\<rparr>, sess_fd = 3, sess_flags = 0\<rparr>"
  let ?c = "\<lparr>cfg_addr = 0, cfg_x_end = 0, cfg_y_end = 2, cfg_x_start = 0, cfg_y_start = 0,
    cfg_noc = 0, cfg_mcast = False, cfg_linked = False, cfg_static_vc = 0\<rparr>"
  let ?t = "\<lparr>tlb_id = 7, tlb_ptr = 0, tlb_idx = 0x1000, tlb_len = TT_TLB_2MB\<rparr>"
  obtain s where b: "tt_tlb_bind stub_os (Some ?ss) (Some ?t) (Some ?c) stub_mach
      = (TT_OK, Some (?t\<lparr>tlb_ptr := 0x10000000\<rparr>), s)"
    by (simp add: tt_tlb_bind_def stub_defs)
  have h: "(tlb_step stub_os)\<^sup>*\<^sup>* (?t, stub_mach) (?t\<lparr>tlb_ptr := 0x10000000\<rparr>, s)"
    by (rule r_into_rtranclp, rule step_bind [OF b])
  have "mapping_calls stub_os" by (simp add: mapping_calls_def stub_os_def ret0_def)
  from tlb_history_accounts [OF h this] show ?thesis
    by (intro exI [of _ "?t\<lparr>tlb_ptr := 0x10000000\<rparr>"] exI [of _ s]) (use h in simp)
qed

text \<open>
  C37: binding maps before it configures. On success the window shows the new mapping and the previous
  one is gone; on failure the window is unmapped and left without a pointer, whichever call
  failed, and the new mapping of a refused configuration is removed too. Only a closed session
  leaves a bound window as it was.
\<close>

theorem tt_tlb_bind_outcome:
  assumes "tt_tlb_bind os (Some ss) (Some t) (Some c) s = (rc, tlb', s')"
  shows "(sess_fd ss < 0 \<longrightarrow> rc = TT_ERR \<and> errno s' = ENOTCONN \<and> tlb' = Some t \<and> since s s' = []) \<and>
    (0 \<le> sess_fd ss \<longrightarrow>
      (\<exists>p r D. dropped os t D \<and>
        (if p = MAP_FAILED then rc = TT_ERR \<and> tlb' = Some (t\<lparr>tlb_ptr := 0\<rparr>) \<and>
           since s s' = EvMmap (sess_fd ss) (tlb_len t) (tlb_idx t) p # D
         else if r = 0 then rc = TT_OK \<and> tlb' = Some (t\<lparr>tlb_ptr := p\<rparr>) \<and>
           since s s' = [EvMmap (sess_fd ss) (tlb_len t) (tlb_idx t) p,
             EvIoctl (sess_fd ss) (IoConfigTlb (tlb_id t) (noc_config c)) r] @ D
         else rc = TT_ERR \<and> tlb' = Some (t\<lparr>tlb_ptr := 0\<rparr>) \<and>
           (\<exists>m. since s s' = [EvMmap (sess_fd ss) (tlb_len t) (tlb_idx t) p,
             EvIoctl (sess_fd ss) (IoConfigTlb (tlb_id t) (noc_config c)) r,
             EvMunmap p (tlb_len t) m] @ D))))"
proof (cases "sess_fd ss < 0")
  case True
  then show ?thesis using assms by (auto simp: tt_tlb_bind_def)
next
  case False
  then have fd: "0 \<le> sess_fd ss" by simp
  show ?thesis
    using assms fd
  proof (cases rule: tt_tlb_bind_cases)
    case (unmappable D)
    then show ?thesis using fd by (intro conjI impI exI [of _ MAP_FAILED] exI [of _ D]) (auto simp: since_eq)
  next
    case (refused p r m' D)
    then show ?thesis
      using fd by (intro conjI impI exI [of _ p] exI [of _ r] exI [of _ D]) (auto simp: since_eq)
  next
    case (bound p D)
    then show ?thesis
      using fd by (intro conjI impI exI [of _ p] exI [of _ 0] exI [of _ D]) (auto simp: since_eq)
  qed
qed

theorem tt_tlb_bind_outcome_witness:
  "\<exists>tlb. fst (snd (tt_tlb_bind (stub_os\<lparr>ioc_config_tlb := (\<lambda>_ _ _. fails 1 EINVAL)\<rparr>)
      (Some \<lparr>sess_dev = \<lparr>dev_id = 0\<rparr>, sess_fd = 3, sess_flags = 0\<rparr>)
      (Some \<lparr>tlb_id = 7, tlb_ptr = 0x20000000, tlb_idx = 0x1000, tlb_len = TT_TLB_2MB\<rparr>)
      (Some \<lparr>cfg_addr = 0, cfg_x_end = 0, cfg_y_end = 2, cfg_x_start = 0, cfg_y_start = 0,
        cfg_noc = 0, cfg_mcast = False, cfg_linked = False, cfg_static_vc = 0\<rparr>) stub_mach)) = Some tlb \<and> tlb_ptr tlb = 0"
proof -
  let ?os = "stub_os\<lparr>ioc_config_tlb := (\<lambda>_ _ _. fails 1 EINVAL)\<rparr>"
  let ?ss = "\<lparr>sess_dev = \<lparr>dev_id = 0\<rparr>, sess_fd = 3, sess_flags = 0\<rparr>"
  let ?t = "\<lparr>tlb_id = 7, tlb_ptr = 0x20000000, tlb_idx = 0x1000, tlb_len = TT_TLB_2MB\<rparr>"
  let ?c = "\<lparr>cfg_addr = 0, cfg_x_end = 0, cfg_y_end = 2, cfg_x_start = 0, cfg_y_start = 0,
        cfg_noc = 0, cfg_mcast = False, cfg_linked = False, cfg_static_vc = 0\<rparr>"
  obtain rc tlb' s' where r: "tt_tlb_bind ?os (Some ?ss) (Some ?t) (Some ?c) stub_mach = (rc, tlb', s')"
    by (metis prod_cases3)
  have "rc = TT_ERR" using r by (auto simp: tlb_defs stub_defs)
  then show ?thesis
    using tt_tlb_bind_outcome [OF r] r by (auto split: if_splits)
qed

text \<open>
  Freeing a window unmaps it first, even on a closed session, and releases its id exactly once,
  through the session given; a window whose mapping cannot be removed is left as it was.
\<close>

theorem tt_tlb_free_outcome:
  assumes "tt_tlb_free os (Some ss) (Some t) s = (rc, tlb', s')"
  shows "\<exists>m. let D = (if tlb_ptr t = 0 then [] else [EvMunmap (tlb_ptr t) (tlb_len t) m]) in
    if tlb_ptr t \<noteq> 0 \<and> m \<noteq> 0 then rc = TT_ERR \<and> tlb' = Some t \<and> since s s' = D
    else if sess_fd ss < 0
      then rc = TT_ERR \<and> errno s' = ENOTCONN \<and> tlb' = Some (t\<lparr>tlb_ptr := 0\<rparr>) \<and> since s s' = D
    else \<exists>r. since s s' = D @ [EvIoctl (sess_fd ss) (IoFreeTlb (tlb_id t)) r] \<and>
      (if r = 0 then rc = TT_OK \<and> tlb' = Some (t\<lparr>tlb_ptr := 0, tlb_id := 0\<rparr>)
       else rc = TT_ERR \<and> errno s' \<noteq> ENODEV \<and> tlb' = Some (t\<lparr>tlb_ptr := 0\<rparr>))"
  using assms
proof (cases rule: tt_tlb_free_cases)
  case (stuck m)
  then show ?thesis by (intro exI [of _ m]) (simp add: since_eq)
next
  case (detached D)
  then show ?thesis by (intro exI [of _ 0]) (simp add: since_eq)
next
  case (refused D r)
  then show ?thesis by (intro exI [of _ 0]) (auto simp: since_eq)
next
  case (freed D)
  then show ?thesis by (intro exI [of _ 0]) (auto simp: since_eq)
qed

theorem tt_tlb_free_outcome_witness:
  "\<exists>m. since stub_mach (snd (snd (tt_tlb_free stub_os
      (Some \<lparr>sess_dev = \<lparr>dev_id = 0\<rparr>, sess_fd = - 1, sess_flags = 0\<rparr>)
      (Some \<lparr>tlb_id = 7, tlb_ptr = 0x20000000, tlb_idx = 0x1000, tlb_len = TT_TLB_2MB\<rparr>) stub_mach)))
     = [EvMunmap 0x20000000 TT_TLB_2MB m]"
proof -
  obtain rc tlb' s' where r: "tt_tlb_free stub_os
      (Some \<lparr>sess_dev = \<lparr>dev_id = 0\<rparr>, sess_fd = - 1, sess_flags = 0\<rparr>)
      (Some \<lparr>tlb_id = 7, tlb_ptr = 0x20000000, tlb_idx = 0x1000, tlb_len = TT_TLB_2MB\<rparr>) stub_mach
      = (rc, tlb', s')"
    by (metis prod_cases3)
  show ?thesis
    using tt_tlb_free_outcome [OF r] r by (auto simp: Let_def split: if_splits)
qed

end
