(* ===== verification/Trap.thy ===== *)
theory Trap
  imports Tlb
begin

text \<open>
  \<open>src/trap.c\<close>: the \<open>SIGBUS\<close> handler that turns a fault inside the armed range into a long jump,
  and guarded accesses. A guarded computation carries the caller's telemetry table, which a
  jump leaves with the writes made so far.
\<close>

section \<open>Arming and the handler\<close>

definition install :: "'w os \<Rightarrow> 'w mach \<Rightarrow> 'w mach" where
  "install os s = (case k_sigaction os s of (d, s1) \<Rightarrow> s1\<lparr>prev_disp := Some d\<rparr>)"

text \<open>\<open>pthread_once\<close> installs the handler on the first arming.\<close>

definition tt_trap_arm :: "'w os \<Rightarrow> u64 \<Rightarrow> u64 \<Rightarrow> 'w mach \<Rightarrow> 'w mach" where
  "tt_trap_arm os ptr len s =
     (if prev_disp s = None then install os s else s)\<lparr>armed_ptr := ptr, armed_len := len\<rparr>"

definition tt_trap_disarm :: "'w mach \<Rightarrow> 'w mach" where
  "tt_trap_disarm s = s\<lparr>armed_ptr := 0\<rparr>"

text \<open>
  What the handler does with the faulting thread: it returns, so that the access runs again; it
  jumps; it calls the handler that was installed before (with or without the fault's
  information); or it restores the default action and raises the signal again, which kills
  the process.
\<close>

datatype trap_action = Again | Longjmp | Chain bool | Die

text \<open>
  \<open>own_kill\<close> says that the signal was raised with \<open>raise\<close> by this process, and so carries no fault
  address; \<open>addr\<close> is \<open>si_addr\<close>.
\<close>

definition handler :: "'w os \<Rightarrow> bool \<Rightarrow> u64 \<Rightarrow> 'w mach \<Rightarrow> trap_action \<times> 'w mach" where
  "handler os own_kill addr s =
     (if armed_ptr s \<noteq> 0 \<and> own_kill then (Again, s)
      else let base = armed_ptr s in
        if base \<noteq> 0 \<and> addr \<ge> base \<and> addr < base + armed_len s
        then (Longjmp, s\<lparr>armed_ptr := 0\<rparr>)
        else (case prev_disp s of
          Some (SigHandler siginfo) \<Rightarrow> (Chain siginfo, s)
        | _ \<Rightarrow> (case k_sigaction os s of (_, s1) \<Rightarrow> (Die, s1))))"

lemma handler_inside:
  assumes "armed_ptr s \<noteq> 0" "armed_ptr s \<le> a" "a < armed_ptr s + armed_len s"
  shows "handler os False a s = (Longjmp, s\<lparr>armed_ptr := 0\<rparr>)"
  using assms by (simp add: handler_def Let_def)


section \<open>Guarded accesses\<close>

datatype 'a gres = Val 'a | Jump | Dead

type_synonym ('a, 'w) guarded = "u32 list \<times> 'w mach \<Rightarrow> 'a gres \<times> u32 list \<times> 'w mach"

definition gret :: "'a \<Rightarrow> ('a, 'w) guarded" where
  "gret x p = (Val x, p)"

definition gbind :: "('a, 'w) guarded \<Rightarrow> ('a \<Rightarrow> ('b, 'w) guarded) \<Rightarrow> ('b, 'w) guarded" where
  "gbind m k p =
     (case m p of (Val x, q) \<Rightarrow> k x q | (Jump, q) \<Rightarrow> (Jump, q) | (Dead, q) \<Rightarrow> (Dead, q))"

text \<open>
  A volatile 32-bit load. A fault runs the handler on the faulting thread. An action other than
  the jump leaves the library for good: a chained handler or the default action takes over.
\<close>

definition gload :: "'w os \<Rightarrow> u64 \<Rightarrow> (u32, 'w) guarded" where
  "gload os a p =
     (case p of (table, s) \<Rightarrow>
      (case k_load os a 4 s of
         (Some v, s1) \<Rightarrow> (Val (ucast v), table, s1)
       | (None, s1) \<Rightarrow>
           (case handler os False a s1 of
              (Longjmp, s2) \<Rightarrow> (Jump, table, s2)
            | (_, s2) \<Rightarrow> (Dead, table, s2))))"

definition gtable :: "(u32 list \<Rightarrow> u32 list) \<Rightarrow> (unit, 'w) guarded" where
  "gtable f p = (case p of (table, s) \<Rightarrow> (Val (), f table, s))"

definition gfail :: "errno_t \<Rightarrow> (int, 'w) guarded" where
  "gfail e p = (case p of (table, s) \<Rightarrow> (case tt_fail e s of (rc, s1) \<Rightarrow> (Val rc, table, s1)))"

section \<open>Guarded computations stay guarded\<close>

text \<open>
  The invariant of the guarded computations: with the range \<open>[b, b + n)\<close> armed, the computation
  never ends \<^const>\<open>Dead\<close>, leaves the range armed when it returns a value, opens and closes
  nothing, and issues no ioctl.
\<close>

definition guarding :: "u64 \<Rightarrow> u64 \<Rightarrow> 'w mach \<Rightarrow> bool" where
  "guarding b n s \<longleftrightarrow> armed_ptr s = b \<and> armed_len s = n"

definition quiet :: "'w mach \<Rightarrow> 'w mach \<Rightarrow> bool" where
  "quiet s s' \<longleftrightarrow> extends s s' \<and> opened (since s s') = [] \<and> closed (since s s') = [] \<and>
     ioctls (since s s') = [] \<and> mapped (since s s') = [] \<and> unmapped (since s s') = []"

lemma quiet_refl [simp]: "trace s' = trace s \<Longrightarrow> quiet s s'"
  by (simp add: quiet_def)

lemma quiet_trans: "quiet s t \<Longrightarrow> quiet t u \<Longrightarrow> quiet s u"
  unfolding quiet_def using trace_trans [of s t u] since_trans [of s t u] by simp

lemma quiet_load: "k_load os a n s = (r, s') \<Longrightarrow> quiet s s'"
  by (auto simp: quiet_def since_eq extendsI dest!: call_trace)

definition safe :: "u64 \<Rightarrow> u64 \<Rightarrow> ('a, 'w) guarded \<Rightarrow> bool" where
  "safe b n m \<longleftrightarrow>
     (\<forall>table s r table' s'. guarding b n s \<longrightarrow> m (table, s) = (r, table', s') \<longrightarrow>
        r \<noteq> Dead \<and> (\<forall>x. r = Val x \<longrightarrow> guarding b n s') \<and> quiet s s')"

lemma safe_gret [simp]: "safe b n (gret x)"
  by (simp add: safe_def gret_def)

lemma safe_gtable [simp]: "safe b n (gtable f)"
  by (simp add: safe_def gtable_def)

lemma safe_gfail [simp]: "safe b n (gfail e)"
  by (auto simp: safe_def gfail_def guarding_def split: prod.splits)

lemma safe_gbind:
  assumes "safe b n m" "\<And>x. safe b n (k x)"
  shows "safe b n (gbind m k)"
  unfolding safe_def
proof (intro allI impI)
  fix table s r table' s'
  assume g: "guarding b n s" and run: "gbind m k (table, s) = (r, table', s')"
  obtain r1 t1 s1 where m: "m (table, s) = (r1, t1, s1)" by (metis prod_cases3)
  have 1: "r1 \<noteq> Dead" "\<And>x. r1 = Val x \<Longrightarrow> guarding b n s1" "quiet s s1"
    using assms(1) g m unfolding safe_def by blast+
  show "r \<noteq> Dead \<and> (\<forall>x. r = Val x \<longrightarrow> guarding b n s') \<and> quiet s s'"
  proof (cases r1)
    case (Val x)
    then have "k x (t1, s1) = (r, table', s')" using run m by (simp add: gbind_def)
    then have "r \<noteq> Dead \<and> (\<forall>x. r = Val x \<longrightarrow> guarding b n s') \<and> quiet s1 s'"
      using assms(2) [of x] 1(2) [OF Val] unfolding safe_def by blast
    then show ?thesis using quiet_trans [OF 1(3)] by blast
  qed (use 1 run m in \<open>auto simp: gbind_def\<close>)
qed

text \<open>A load inside the armed range is safe: that is what the handler is for.\<close>

lemma safe_gload:
  assumes "b \<noteq> 0" "b \<le> a" "a < b + n"
  shows "safe b n (gload os a)"
  unfolding safe_def
proof (intro allI impI)
  fix table s r table' s'
  assume g: "guarding b n s" and run: "gload os a (table, s) = (r, table', s')"
  obtain v s1 where l: "k_load os a 4 s = (v, s1)" by (metis prod.exhaust)
  have g1: "guarding b n s1" using g call_trap [OF l] by (simp add: guarding_def)
  have h: "handler os False a s1 = (Longjmp, s1\<lparr>armed_ptr := 0\<rparr>)"
    using g1 assms by (intro handler_inside) (auto simp: guarding_def)
  have q: "quiet s (s1\<lparr>armed_ptr := x\<rparr>)" for x
    using quiet_load [OF l] by (simp add: quiet_def extends_def since_def)
  show "r \<noteq> Dead \<and> (\<forall>x. r = Val x \<longrightarrow> guarding b n s') \<and> quiet s s'"
    using run l h g1 q quiet_load [OF l]
    by (cases v) (auto simp: gload_def)
qed

end
