(* ===== verification/Telem.thy ===== *)
theory Telem
  imports Trap
begin

text \<open>
  \<open>src/dev/telem.c\<close>: reading firmware telemetry out of device memory through a window, with the
  reads guarded against an out-of-band reset. A value of type \<open>option\<close> around a result is
  \<^const>\<open>None\<close> when the process does not get out of the call (a fault the guard does not catch).
\<close>

section \<open>The SMC's addresses\<close>

definition CSM_BASE :: u32 where "CSM_BASE = 0x10000000"
definition CSM_SIZE :: u32 where "CSM_SIZE = 0x00080000"
definition RESET_BASE :: u32 where "RESET_BASE = 0x80030000"
definition WH_TELEM_TAGS :: u32 where "WH_TELEM_TAGS = RESET_BASE + 0x1D0"
definition WH_TELEM_DATA :: u32 where "WH_TELEM_DATA = RESET_BASE + 0x1D4"
definition BH_TELEM_TAGS :: u32 where "BH_TELEM_TAGS = RESET_BASE + 0x434"
definition BH_TELEM_DATA :: u32 where "BH_TELEM_DATA = RESET_BASE + 0x430"
definition TELEM_ENTRY_CAP :: u32 where "TELEM_ENTRY_CAP = 128"

definition TT_ARCH_WORMHOLE :: u16 where "TT_ARCH_WORMHOLE = 0x401e"
definition TT_ARCH_BLACKHOLE :: u16 where "TT_ARCH_BLACKHOLE = 0xb140"

definition TT_TELEMETRY_LEN :: nat where "TT_TELEMETRY_LEN = 69"
definition TT_TAG_TIMER_HEARTBEAT :: nat where "TT_TAG_TIMER_HEARTBEAT = 32"

text \<open>The architecture's constants: the two pointers' addresses and the SMC's coordinates.\<close>

definition telem_arch :: "u16 \<Rightarrow> (u32 \<times> u32 \<times> u8 \<times> u8) option" where
  "telem_arch device_id =
     (if device_id = TT_ARCH_WORMHOLE then Some (WH_TELEM_TAGS, WH_TELEM_DATA, 0, 2)
      else if device_id = TT_ARCH_BLACKHOLE then Some (BH_TELEM_TAGS, BH_TELEM_DATA, 8, 0)
      else None)"

section \<open>The snapshot\<close>

text \<open>\<open>base[i]\<close> for a \<open>volatile uint32_t *base\<close>.\<close>

definition gword :: "'w os \<Rightarrow> u64 \<Rightarrow> nat \<Rightarrow> (u32, 'w) guarded" where
  "gword os base i = gload os (base + of_nat (4 * i))"

text \<open>
  The loop that builds the offset map, at index \<open>idx\<close> with \<open>n\<close> entries to go; \<^const>\<open>None\<close> is the
  early return on a tag set twice.
\<close>

fun build_map :: "'w os \<Rightarrow> u64 \<Rightarrow> nat \<Rightarrow> nat \<Rightarrow> u16 list \<Rightarrow> (u16 list option, 'w) guarded" where
  "build_map os tbl idx 0 offs = gret (Some offs)"
| "build_map os tbl idx (Suc n) offs =
     gbind (gword os tbl (2 + idx)) (\<lambda>entry.
       let tag = unat (entry AND 0xffff); off = ucast (drop_bit 16 entry) in
       if tag = 0 \<or> tag \<ge> TT_TELEMETRY_LEN then build_map os tbl (Suc idx) n offs
       else if offs ! tag \<noteq> 0xffff then gret None
       else build_map os tbl (Suc idx) n (offs[tag := off]))"

text \<open>One pass over the tags, reading every value the map has an offset for.\<close>

fun read_tags :: "'w os \<Rightarrow> u64 \<Rightarrow> u16 list \<Rightarrow> nat list \<Rightarrow> (unit, 'w) guarded" where
  "read_tags os data offs [] = gret ()"
| "read_tags os data offs (tag # tags) =
     gbind (if offs ! tag \<noteq> 0xffff
            then gbind (gword os data (unat (offs ! tag))) (\<lambda>v. gtable (\<lambda>table. table[tag := v]))
            else gret ())
       (\<lambda>_. read_tags os data offs tags)"

text \<open>The attempts at a coherent snapshot, \<open>n\<close> of them left.\<close>

fun attempts :: "'w os \<Rightarrow> u64 \<Rightarrow> u16 list \<Rightarrow> nat \<Rightarrow> (int, 'w) guarded" where
  "attempts os data offs 0 = gfail EIO"
| "attempts os data offs (Suc n) =
     gbind (if offs ! TT_TAG_TIMER_HEARTBEAT \<noteq> 0xffff
            then gword os data (unat (offs ! TT_TAG_TIMER_HEARTBEAT)) else gret 0) (\<lambda>tick.
     gbind (read_tags os data offs [1..<TT_TELEMETRY_LEN]) (\<lambda>_.
     if offs ! TT_TAG_TIMER_HEARTBEAT = 0xffff then gret TT_OK
     else gbind (gword os data (unat (offs ! TT_TAG_TIMER_HEARTBEAT))) (\<lambda>tock.
       if tick = tock then gret TT_OK
       else gbind (gtable (\<lambda>_. replicate TT_TELEMETRY_LEN 0)) (\<lambda>_. attempts os data offs n))))"

definition snapshot :: "'w os \<Rightarrow> u64 \<Rightarrow> u64 \<Rightarrow> (int, 'w) guarded" where
  "snapshot os tbl data =
     gbind (gword os tbl 1) (\<lambda>count0.
       let count = (if count0 > TELEM_ENTRY_CAP then TELEM_ENTRY_CAP else count0) in
       gbind (build_map os tbl 0 (unat count) (replicate TT_TELEMETRY_LEN 0xffff)) (\<lambda>r.
         case r of None \<Rightarrow> gfail EIO | Some offs \<Rightarrow> attempts os data offs 3))"

section \<open>Telemetry\<close>

text \<open>The \<open>cleanup\<close> label: disarm, free the window, keep the cause.\<close>

definition telem_cleanup ::
  "'w os \<Rightarrow> tt_session \<Rightarrow> tt_tlb option \<Rightarrow> u32 list \<Rightarrow> 'w mach \<Rightarrow> int \<times> u32 list option \<times> 'w mach" where
  "telem_cleanup os ss tlb table s =
     (let err = errno s in
      (case tt_tlb_free os (Some ss) tlb (tt_trap_disarm s) of (_, _, s1) \<Rightarrow>
        out (Some table) (tt_fail err s1)))"

definition telem_config :: "u64 \<Rightarrow> u8 \<Rightarrow> u8 \<Rightarrow> tt_tlb_config" where
  "telem_config addr noc_x noc_y =
     \<lparr>cfg_addr = addr, cfg_x_end = noc_x, cfg_y_end = noc_y, cfg_x_start = 0,
      cfg_y_start = 0, cfg_noc = 0, cfg_mcast = False, cfg_linked = False, cfg_static_vc = 0\<rparr>"

text \<open>The second half, from the rebind to the shared memory that \<open>tags\<close> and \<open>data\<close> point into.\<close>

definition telem_csm ::
  "'w os \<Rightarrow> tt_session \<Rightarrow> tt_tlb option \<Rightarrow> u32 \<Rightarrow> u32 \<Rightarrow> u8 \<Rightarrow> u8 \<Rightarrow> u32 list \<Rightarrow> 'w mach \<Rightarrow>
     (int \<times> u32 list option \<times> 'w mach) option" where
  "telem_csm os ss tlb ptags pdata noc_x noc_y table s =
     (case tt_tlb_bind os (Some ss) tlb (Some (telem_config (ucast CSM_BASE) noc_x noc_y)) s of
       (r, tlb1, s1) \<Rightarrow>
         if r \<noteq> 0 then Some (telem_cleanup os ss tlb1 table s1)
         else (let ptr = tlb_ptr (the tlb1);
                   tags = ptr + (ucast ptags AND (TT_TLB_2MB - 1));
                   data = ptr + (ucast pdata AND (TT_TLB_2MB - 1))
           in (case snapshot os tags data (table, tt_trap_arm os ptr TT_TLB_2MB s1) of
                (Dead, _) \<Rightarrow> None
              | (Jump, table1, s2) \<Rightarrow> Some (telem_cleanup os ss tlb1 table1 (s2\<lparr>errno := ECONNRESET\<rparr>))
              | (Val rc, table1, s2) \<Rightarrow>
                  if rc \<noteq> 0 then Some (telem_cleanup os ss tlb1 table1 s2)
                  else (case tt_tlb_free os (Some ss) tlb1 (tt_trap_disarm s2) of (_, _, s3) \<Rightarrow>
                    Some (TT_OK, Some table1, s3)))))"

definition in_csm :: "u32 \<Rightarrow> bool" where
  "in_csm p \<longleftrightarrow> \<not> (p < CSM_BASE \<or> p \<ge> CSM_BASE + CSM_SIZE)"

text \<open>The window before it is allocated, uninitialised in the code and never read.\<close>

definition blank_tlb :: tt_tlb where
  "blank_tlb = \<lparr>tlb_id = 0, tlb_ptr = 0, tlb_idx = 0, tlb_len = 0\<rparr>"

definition tt_telemetry ::
  "'w os \<Rightarrow> tt_session option \<Rightarrow> u32 list option \<Rightarrow> 'w mach \<Rightarrow>
     (int \<times> u32 list option \<times> 'w mach) option" where
  "tt_telemetry os sess table s =
     (case sess of None \<Rightarrow> Some (out table (tt_fail EINVAL s)) | Some ss \<Rightarrow>
      case table of None \<Rightarrow> Some (out table (tt_fail EINVAL s)) | Some _ \<Rightarrow>
      if sess_fd ss < 0 then Some (out table (tt_fail ENOTCONN s))
      else (case tt_dev_info os sess (Some blank_info) s of (r, info, s1) \<Rightarrow>
        if r \<noteq> 0 then Some (TT_ERR, table, s1)
        else (case telem_arch (di_device_id (the info)) of
          None \<Rightarrow> Some (out table (tt_fail ENOTSUP s1))
        | Some (telem_tags, telem_data, noc_x, noc_y) \<Rightarrow>
          let table0 = replicate TT_TELEMETRY_LEN 0 in
          (case tt_tlb_alloc os sess TT_TLB_2MB TT_TLB_UC (Some blank_tlb) s1 of (r, tlb, s2) \<Rightarrow>
            if r \<noteq> 0 then Some (TT_ERR, Some table0, s2)
            else (case tt_tlb_bind os sess tlb
                  (Some (telem_config (ucast telem_tags AND NOT (TT_TLB_2MB - 1)) noc_x noc_y)) s2 of (r, tlb, s3) \<Rightarrow>
              if r \<noteq> 0 then Some (telem_cleanup os ss tlb table0 s3)
              else (let ptr = tlb_ptr (the tlb) in
                (case gbind (gload os (ptr + (ucast telem_tags AND (TT_TLB_2MB - 1)))) (\<lambda>tags.
                      gbind (gload os (ptr + (ucast telem_data AND (TT_TLB_2MB - 1)))) (\<lambda>data.
                      gret (tags, data))) (table0, tt_trap_arm os ptr TT_TLB_2MB s3) of
                  (Dead, _) \<Rightarrow> None
                | (Jump, table1, s4) \<Rightarrow> Some (telem_cleanup os ss tlb table1 (s4\<lparr>errno := ECONNRESET\<rparr>))
                | (Val (ptags, pdata), table1, s4) \<Rightarrow>
                    if \<not> in_csm ptags \<or> \<not> in_csm pdata
                    then Some (telem_cleanup os ss tlb table1 (s4\<lparr>errno := EIO\<rparr>))
                    else telem_csm os ss tlb ptags pdata noc_x noc_y table1 (tt_trap_disarm s4))))))))"

section \<open>Every guarded read lies in the armed window\<close>

lemma TT_TLB_2MB_unat [simp]: "unat TT_TLB_2MB = 2 ^ 21"
  by (simp add: TT_TLB_2MB_def)

text \<open>A base below the top of the address space by at least the window's length.\<close>

lemma window_addr:
  fixes b off :: u64
  assumes "unat b + 2 ^ 21 \<le> 2 ^ 64" "unat off + k < 2 ^ 21"
  shows "b \<le> b + off + of_nat k" "b + off + of_nat k < b + TT_TLB_2MB \<or> b + TT_TLB_2MB = 0"
proof -
  have o: "unat (off + of_nat k) = unat off + k"
    using assms(2) by (simp add: unat_word_ariths unat_of_nat take_bit_eq_mod)
  then have s: "unat (b + off + of_nat k) = unat b + unat off + k"
    using assms by (simp add: unat_word_ariths add.assoc unat_of_nat take_bit_eq_mod)
  show "b \<le> b + off + of_nat k"
    using s by (simp add: word_le_nat_alt)
  show "b + off + of_nat k < b + TT_TLB_2MB \<or> b + TT_TLB_2MB = 0"
  proof (cases "unat b + 2 ^ 21 = 2 ^ 64")
    case True
    then have "b + TT_TLB_2MB = 0"
      by (simp add: unat_eq_0 [symmetric] unat_word_ariths)
    then show ?thesis by simp
  next
    case False
    then have "unat (b + TT_TLB_2MB) = unat b + 2 ^ 21"
      using assms(1) by (simp add: unat_word_ariths)
    then show ?thesis
      using s assms(2) by (simp add: word_less_nat_alt)
  qed
qed

text \<open>
  What \<open>mmap\<close> is relied upon for here: a mapping of a window's size is not the null page and lies
  below the top of the address space.
\<close>

definition window_calls :: "'w os \<Rightarrow> bool" where
  "window_calls os \<longleftrightarrow>
     (\<forall>f n off e w. n \<le> TT_TLB_4GB \<longrightarrow> fst (sys_mmap os f n off e w) = MAP_FAILED \<or>
        fst (sys_mmap os f n off e w) \<noteq> 0 \<and> unat (fst (sys_mmap os f n off e w)) + unat n < 2 ^ 64)"

lemma window_fits: "TT_TLB_2MB \<le> TT_TLB_4GB"
  by (simp add: TT_TLB_2MB_def TT_TLB_4GB_def)

definition good_base :: "u64 \<Rightarrow> bool" where
  "good_base b \<longleftrightarrow> b \<noteq> 0 \<and> unat b + 2 ^ 21 < 2 ^ 64"

lemma safe_at:
  assumes "good_base b" "unat off + k < 2 ^ 21"
  shows "safe b TT_TLB_2MB (gload os (b + off + of_nat k))"
proof (rule safe_gload)
  have "unat (b + TT_TLB_2MB) = unat b + 2 ^ 21"
    using assms(1) by (simp add: unat_word_ariths good_base_def)
  then have "b + TT_TLB_2MB \<noteq> 0" by auto
  then show "b \<noteq> 0" "b \<le> b + off + of_nat k" "b + off + of_nat k < b + TT_TLB_2MB"
    using assms window_addr [of b off k] by (auto simp: good_base_def)
qed

lemma safe_at0:
  "good_base b \<Longrightarrow> unat off < 2 ^ 20 \<Longrightarrow> safe b TT_TLB_2MB (gload os (b + off))"
  using safe_at [of b off 0] by simp

lemma safe_gword:
  assumes "good_base b" "unat off + 4 * i < 2 ^ 21"
  shows "safe b TT_TLB_2MB (gword os (b + off) i)"
  unfolding gword_def by (rule safe_at [OF assms])

lemma safe_build_map:
  assumes "good_base b" "unat off < 2 ^ 20" "idx + n \<le> 128"
  shows "safe b TT_TLB_2MB (build_map os (b + off) idx n offs)"
  using assms(3)
proof (induction n arbitrary: idx offs)
  case (Suc n)
  show ?case
    unfolding build_map.simps Let_def
    using Suc.IH Suc.prems assms(1,2)
    by (intro safe_gbind safe_gword) (auto split: if_splits)
qed simp

lemma u16_bound: "unat (x :: u16) < 65536"
  using unsigned_less [of x] by simp

lemma safe_read_tags:
  assumes "good_base b" "unat off < 2 ^ 20"
  shows "safe b TT_TLB_2MB (read_tags os (b + off) offs tags)"
proof (induction tags)
  case (Cons tag tags)
  have "unat off + 4 * unat (offs ! tag) < 2 ^ 21"
    using assms(2) u16_bound [of "offs ! tag"] by simp
  then show ?case
    using Cons assms(1) by (auto intro!: safe_gbind safe_gword split: if_splits)
qed simp

lemma safe_attempts:
  assumes "good_base b" "unat off < 2 ^ 20"
  shows "safe b TT_TLB_2MB (attempts os (b + off) offs n)"
proof (induction n)
  case (Suc n)
  have "unat off + 4 * unat (offs ! k) < 2 ^ 21" for k
    using assms(2) u16_bound [of "offs ! k"] by simp
  then show ?case
    using Suc assms by (auto intro!: safe_gbind safe_gword safe_read_tags split: if_splits)
qed simp

lemma safe_snapshot:
  assumes "good_base b" "unat tags < 2 ^ 20" "unat data < 2 ^ 20"
  shows "safe b TT_TLB_2MB (snapshot os (b + tags) (b + data))"
proof -
  have "unat (if c > TELEM_ENTRY_CAP then TELEM_ENTRY_CAP else c) \<le> 128" for c
    by (auto simp: TELEM_ENTRY_CAP_def word_less_nat_alt)
  then show ?thesis
    using assms unfolding snapshot_def Let_def
    by (intro safe_gbind safe_gword safe_build_map) (auto intro: safe_attempts split: option.splits)
qed

text \<open>A pointer inside the shared memory lands in the lower half of the window.\<close>

lemma in_csm_offset:
  assumes "in_csm p"
  shows "unat ((ucast p :: u64) AND (TT_TLB_2MB - 1)) < 2 ^ 20"
proof -
  have m: "TT_TLB_2MB - 1 = mask 21" by (simp add: TT_TLB_2MB_def mask_eq_decr_exp)
  have r: "0x10000000 \<le> unat p" "unat p < 0x10080000"
    using assms by (auto simp: in_csm_def CSM_BASE_def CSM_SIZE_def word_less_nat_alt word_le_nat_alt not_less not_le)
  have "unat ((ucast p :: u64) AND (TT_TLB_2MB - 1)) = unat p mod 2 ^ 21"
    unfolding m take_bit_eq_mask [symmetric] unsigned_take_bit_eq
    using r(2) by (simp add: unsigned_ucast_eq take_bit_eq_mod)
  also have "\<dots> = (unat p - 0x10000000) mod 2 ^ 21"
  proof -
    have "unat p = unat p - 0x10000000 + 128 * 2 ^ 21" using r(1) by simp
    then show ?thesis by (metis mod_mult_self1)
  qed
  also have "\<dots> \<le> unat p - 0x10000000" by simp
  finally show ?thesis using r by simp
qed

section \<open>What a call still owes\<close>

definition allocs :: "event list \<Rightarrow> nat" where
  "allocs es = length (filter (\<lambda>e. \<exists>f n. e = EvIoctl f (IoAllocTlb n) 0) es)"

definition frees :: "event list \<Rightarrow> nat" where
  "frees es = length (filter (\<lambda>e. \<exists>f i r. e = EvIoctl f (IoFreeTlb i) r) es)"

lemma allocs_simps [simp]:
  "allocs [] = 0"
  "allocs (e # es) = (if \<exists>f n. e = EvIoctl f (IoAllocTlb n) 0 then 1 else 0) + allocs es"
  "allocs (xs @ ys) = allocs xs + allocs ys"
  by (simp_all add: allocs_def)

lemma frees_simps [simp]:
  "frees [] = 0"
  "frees (e # es) = (if \<exists>f i r. e = EvIoctl f (IoFreeTlb i) r then 1 else 0) + frees es"
  "frees (xs @ ys) = frees xs + frees ys"
  by (simp_all add: frees_def)

text \<open>
  Between \<open>s\<close> and \<open>s'\<close> no descriptor was opened or closed, the mappings not removed are those of
  \<open>t\<close>, and \<open>a\<close> of the windows allocated were not freed.
\<close>

definition owes :: "'w mach \<Rightarrow> 'w mach \<Rightarrow> tt_tlb \<Rightarrow> nat \<Rightarrow> bool" where
  "owes s s' t a \<longleftrightarrow> extends s s' \<and> opened (since s s') = [] \<and> closed (since s s') = [] \<and>
     mset (mapped (since s s')) = mset (unmapped (since s s')) + held t \<and>
     allocs (since s s') = frees (since s s') + a"

lemma owes_trans:
  assumes "owes s s1 t a" "extends s1 s2"
    "opened (since s1 s2) = []" "closed (since s1 s2) = []"
    "mset (mapped (since s1 s2)) + held t = mset (unmapped (since s1 s2)) + held t'"
    "allocs (since s1 s2) + a = frees (since s1 s2) + a'"
  shows "owes s s2 t' a'"
proof -
  have e: "extends s s1" using assms(1) by (simp add: owes_def)
  note tr = since_trans [OF e assms(2)]
  have "mset (mapped (since s s2)) = mset (unmapped (since s s1)) + (mset (mapped (since s1 s2)) + held t)"
    using assms(1) by (simp add: tr owes_def)
  then show ?thesis
    using assms extends_trans [OF e assms(2)] by (simp add: tr owes_def)
qed

lemma no_ioctls_no_windows:
  assumes "ioctls es = []"
  shows "allocs es = 0" "frees es = 0"
  using assms by (induction es) (auto split: event.splits)

lemma owes_quiet:
  assumes "owes s s1 t a" "quiet s1 s2"
  shows "owes s s2 t a"
  using assms no_ioctls_no_windows [of "since s1 s2"]
  by (intro owes_trans [OF assms(1)]) (auto simp: quiet_def)

lemma owes_update [simp]:
  "owes s (s'\<lparr>errno := e\<rparr>) t a = owes s s' t a"
  "owes s (tt_trap_disarm s') t a = owes s s' t a"
  by (simp_all add: owes_def tt_trap_disarm_def extends_def since_def)

lemma arm_quiet: "quiet s (tt_trap_arm os p n s)"
  by (auto simp: quiet_def tt_trap_arm_def install_def since_eq extendsI
      split: prod.splits dest!: call_trace)

lemma arm_guarding: "guarding p n (tt_trap_arm os p n s)"
  by (simp add: guarding_def tt_trap_arm_def)

lemma owes_bind:
  assumes "owes s s1 t a" "mapping_calls os" "0 \<le> sess_fd ss"
    "tt_tlb_bind os (Some ss) (Some t) (Some c) s1 = (rc, Some t', s2)"
  shows "owes s s2 t' a"
proof (rule owes_trans [OF assms(1)])
  show "extends s1 s2" "opened (since s1 s2) = []" "closed (since s1 s2) = []"
    by (rule tt_tlb_bind_extends [OF assms(4)])+
  show "mset (mapped (since s1 s2)) + held t = mset (unmapped (since s1 s2)) + held t'"
    by (rule bind_accounts [OF assms(2,4)])
  show "allocs (since s1 s2) + a = frees (since s1 s2) + a"
    using assms(4,3) by (cases rule: tt_tlb_bind_cases) (auto simp: since_eq dropped_def split: if_splits)
qed

lemma owes_free:
  assumes "owes s s1 t (Suc a)" "mapping_calls os" "0 \<le> sess_fd ss"
    "tt_tlb_free os (Some ss) (Some t) s1 = (rc, tlb', s2)"
  shows "owes s s2 (t\<lparr>tlb_ptr := 0\<rparr>) a"
proof (rule owes_trans [OF assms(1)])
  show "extends s1 s2" "opened (since s1 s2) = []" "closed (since s1 s2) = []"
    by (rule tt_tlb_free_extends [OF assms(4)])+
  show "mset (mapped (since s1 s2)) + held t = mset (unmapped (since s1 s2)) + held (t\<lparr>tlb_ptr := 0\<rparr>)"
    "allocs (since s1 s2) + Suc a = frees (since s1 s2) + a"
    using assms(4,2,3)
    by (cases rule: tt_tlb_free_cases; auto simp: since_eq held_def)+
qed

lemma free_disarmed:
  assumes "tt_tlb_free os sess tlb s = (rc, tlb', s')"
  shows "armed_ptr s' = armed_ptr s"
  using assms
  by (auto simp: tt_tlb_free_def Let_def split: option.splits prod.splits if_splits dest!: call_trap(1))

text \<open>What every run of \<open>tt_telemetry\<close> past the allocation ends with.\<close>

definition released :: "'w mach \<Rightarrow> (int \<times> u32 list option \<times> 'w mach) option \<Rightarrow> bool" where
  "released s r \<longleftrightarrow> (\<exists>rc table s' t. r = Some (rc, Some table, s') \<and> tlb_ptr t = 0 \<and> owes s s' t 0 \<and>
     armed_ptr s' = 0)"

lemma cleanup_released:
  assumes "owes s s1 t 1" "mapping_calls os" "0 \<le> sess_fd ss"
  shows "released s (Some (telem_cleanup os ss (Some t) table s1))"
proof -
  obtain rc tlb' s2 where f: "tt_tlb_free os (Some ss) (Some t) (tt_trap_disarm s1) = (rc, tlb', s2)"
    by (metis prod_cases3)
  have "owes s s2 (t\<lparr>tlb_ptr := 0\<rparr>) 0"
    using assms f by (intro owes_free) simp_all
  moreover have "armed_ptr s2 = 0"
    using free_disarmed [OF f] by (simp add: tt_trap_disarm_def)
  ultimately show ?thesis
    using f by (auto simp: released_def telem_cleanup_def Let_def intro!: exI [of _ "t\<lparr>tlb_ptr := 0\<rparr>"])
qed

lemma bind_ok:
  assumes "tt_tlb_bind os (Some ss) (Some t) (Some c) s = (0, tlb', s')" "window_calls os"
    "tlb_len t = TT_TLB_2MB"
  obtains p where "tlb' = Some (t\<lparr>tlb_ptr := p\<rparr>)" "good_base p"
proof -
  have fd: "0 \<le> sess_fd ss" using assms(1) by (auto simp: tt_tlb_bind_def split: if_splits)
  obtain p s1 where m: "k_mmap os (sess_fd ss) (tlb_len t) (tlb_idx t) s = (p, s1)"
    by (metis prod.exhaust)
  have "p = MAP_FAILED \<or> p \<noteq> 0 \<and> unat p + 2 ^ 21 < 2 ^ 64"
    using assms(2,3) m window_fits by (metis TT_TLB_2MB_unat call_fst fst_conv window_calls_def)
  moreover have "p \<noteq> MAP_FAILED \<and> tlb' = Some (t\<lparr>tlb_ptr := p\<rparr>)"
    using assms(1) m fd
    by (auto simp: tt_tlb_bind_def bind_cleanup_def Let_def split: if_splits prod.splits)
  ultimately show thesis using that by (auto simp: good_base_def)
qed

lemma bind_fail:
  assumes "tt_tlb_bind os (Some ss) (Some t) (Some c) s = (rc, tlb', s')"
  obtains t' where "tlb' = Some t'" "tlb_len t' = tlb_len t"
proof (cases "sess_fd ss < 0")
  case True
  then show thesis using assms that by (auto simp: tt_tlb_bind_def)
next
  case False
  then have fd: "0 \<le> sess_fd ss" by simp
  from assms fd show thesis by (cases rule: tt_tlb_bind_cases) (auto intro: that)
qed

text \<open>Running a guarded computation under a freshly armed range.\<close>

lemma run_guarded:
  assumes "safe p TT_TLB_2MB m" "m (table, tt_trap_arm os p TT_TLB_2MB s) = (r, table', s')" "owes s0 s t a"
  shows "r \<noteq> Dead" "owes s0 s' t a"
proof -
  have "r \<noteq> Dead \<and> quiet (tt_trap_arm os p TT_TLB_2MB s) s'"
    using assms(1,2) arm_guarding unfolding safe_def by blast
  then show "r \<noteq> Dead" "owes s0 s' t a"
    using owes_quiet [OF owes_quiet [OF assms(3) arm_quiet]] by auto
qed

lemma telem_csm_released:
  assumes "owes s0 s t 1" "mapping_calls os" "window_calls os" "0 \<le> sess_fd ss"
    "tlb_len t = TT_TLB_2MB" "in_csm ptags" "in_csm pdata"
  shows "released s0 (telem_csm os ss (Some t) ptags pdata x y table s)"
proof -
  obtain r tlb1 s1 where b: "tt_tlb_bind os (Some ss) (Some t)
      (Some (telem_config (ucast CSM_BASE) x y)) s = (r, tlb1, s1)"
    by (metis prod_cases3)
  obtain t1 where t1: "tlb1 = Some t1" "tlb_len t1 = tlb_len t" by (rule bind_fail [OF b])
  have o1: "owes s0 s1 t1 1"
    by (rule owes_bind [OF assms(1,2,4) b [unfolded t1(1)]])
  show ?thesis
  proof (cases "r = 0")
    case False
    then show ?thesis
      using b t1 cleanup_released [OF o1 assms(2,4)] by (simp add: telem_csm_def)
  next
    case True
    obtain p where p: "tlb1 = Some (t\<lparr>tlb_ptr := p\<rparr>)" "good_base p"
      by (rule bind_ok [OF b [unfolded True] assms(3,5)])
    have tp: "tlb_ptr t1 = p" using p(1) t1(1) by simp
    let ?tags = "p + (ucast ptags AND (TT_TLB_2MB - 1))"
    let ?data = "p + (ucast pdata AND (TT_TLB_2MB - 1))"
    obtain g table1 s2 where
      sn: "snapshot os ?tags ?data (table, tt_trap_arm os p TT_TLB_2MB s1) = (g, table1, s2)"
      by (metis prod_cases3)
    have "safe p TT_TLB_2MB (snapshot os ?tags ?data)"
      using p(2) assms(6,7) by (intro safe_snapshot in_csm_offset)
    note g = run_guarded [OF this sn o1]
    have o2: "owes s0 (s2\<lparr>errno := e\<rparr>) t1 1" for e using g(2) by simp
    obtain f1 f2 s3 where f: "tt_tlb_free os (Some ss) (Some t1) (tt_trap_disarm s2) = (f1, f2, s3)"
      by (metis prod_cases3)
    have o3: "owes s0 s3 (t1\<lparr>tlb_ptr := 0\<rparr>) 0"
      using g(2) assms(2,4) f by (intro owes_free) simp_all
    have a3: "armed_ptr s3 = 0"
      using free_disarmed [OF f] by (simp add: tt_trap_disarm_def)
    have "released s0 (Some (TT_OK, Some table1, s3))"
      using o3 a3 by (auto simp: released_def intro!: exI [of _ "t1\<lparr>tlb_ptr := 0\<rparr>"])
    then show ?thesis
      using g(1) True b sn f t1(1) tp cleanup_released [OF o2 assms(2,4)]
        cleanup_released [OF g(2) assms(2,4)]
      by (cases g) (simp_all add: telem_csm_def Let_def)
  qed
qed

lemma arch_offsets:
  assumes "telem_arch a = Some (tags, data, x, y)"
  shows "unat ((ucast tags :: u64) AND (TT_TLB_2MB - 1)) < 2 ^ 20"
    "unat ((ucast data :: u64) AND (TT_TLB_2MB - 1)) < 2 ^ 20"
  using assms
  by (auto simp: telem_arch_def TT_TLB_2MB_def WH_TELEM_TAGS_def WH_TELEM_DATA_def BH_TELEM_TAGS_def
      BH_TELEM_DATA_def RESET_BASE_def split: if_splits)

lemma owes_start:
  assumes "trace s' = trace s @ [EvIoctl f (IoDeviceInfo n) r, EvIoctl f (IoAllocTlb m) 0]" "tlb_ptr t = 0"
  shows "owes s s' t 1"
  using assms by (simp add: owes_def since_eq extendsI held_def)

text \<open>The way every call ends: with the window released, or before one was allocated.\<close>

definition settled :: "'w mach \<Rightarrow> (int \<times> u32 list option \<times> 'w mach) option \<Rightarrow> bool" where
  "settled s r \<longleftrightarrow> (\<exists>rc table s' t. r = Some (rc, Some table, s') \<and> tlb_ptr t = 0 \<and> owes s s' t 0 \<and>
     (armed_ptr s' = 0 \<or> armed_ptr s' = armed_ptr s))"

lemma released_settled: "released s r \<Longrightarrow> settled s r"
  by (auto simp: released_def settled_def)

lemma settled_early:
  assumes "trace s' = trace s @ es" "allocs es = 0" "frees es = 0" "opened es = []" "closed es = []"
    "mapped es = []" "unmapped es = []" "armed_ptr s' = armed_ptr s"
  shows "settled s (Some (rc, Some table, s'))"
  using assms
  by (auto simp: settled_def owes_def since_eq extendsI held_def intro!: exI [of _ blank_tlb])
    (simp add: blank_tlb_def)

lemma call_step:
  "call f ev s = (r, s') \<Longrightarrow> trace s' = trace s @ [ev r] \<and> armed_ptr s' = armed_ptr s"
  using call_trace call_trap(1) by metis

lemma telem_pointers_released:
  assumes "owes s0 s t 1" "mapping_calls os" "window_calls os" "0 \<le> sess_fd ss" "tlb_len t = TT_TLB_2MB"
    "good_base (tlb_ptr t)" "telem_arch a = Some (tags, data, x, y)"
  shows "released s0
    (case gbind (gload os (tlb_ptr t + (ucast tags AND (TT_TLB_2MB - 1)))) (\<lambda>tags.
          gbind (gload os (tlb_ptr t + (ucast data AND (TT_TLB_2MB - 1)))) (\<lambda>data.
          gret (tags, data))) (table, tt_trap_arm os (tlb_ptr t) TT_TLB_2MB s) of
      (Dead, _) \<Rightarrow> None
    | (Jump, table1, s4) \<Rightarrow> Some (telem_cleanup os ss (Some t) table1 (s4\<lparr>errno := ECONNRESET\<rparr>))
    | (Val (ptags, pdata), table1, s4) \<Rightarrow>
        if \<not> in_csm ptags \<or> \<not> in_csm pdata
        then Some (telem_cleanup os ss (Some t) table1 (s4\<lparr>errno := EIO\<rparr>))
        else telem_csm os ss (Some t) ptags pdata x y table1 (tt_trap_disarm s4))"
proof -
  let ?p = "tlb_ptr t"
  let ?m = "gbind (gload os (?p + (ucast tags AND (TT_TLB_2MB - 1)))) (\<lambda>tags.
    gbind (gload os (?p + (ucast data AND (TT_TLB_2MB - 1)))) (\<lambda>data. gret (tags, data)))"
  obtain g tb s4 where m: "?m (table, tt_trap_arm os ?p TT_TLB_2MB s) = (g, tb, s4)"
    by (metis prod_cases3)
  have "safe ?p TT_TLB_2MB ?m"
    using arch_offsets [OF assms(7)] by (intro safe_gbind safe_at0 [OF assms(6)] safe_gret)
  note g = run_guarded [OF this m assms(1)]
  have o4: "owes s0 (s4\<lparr>errno := e\<rparr>) t 1" "owes s0 (tt_trap_disarm s4) t 1" for e
    using g(2) by simp_all
  show ?thesis
    unfolding m using g(1) cleanup_released [OF o4(1) assms(2,4)] telem_csm_released [OF o4(2) assms(2-5)]
    by (cases g) auto
qed

lemma telem_window_released:
  assumes "owes s0 s2 t 1" "mapping_calls os" "window_calls os" "0 \<le> sess_fd ss" "tlb_len t = TT_TLB_2MB"
    "telem_arch a = Some (tags, data, x, y)"
    "tt_tlb_bind os (Some ss) (Some t) (Some (telem_config c x y)) s2 = (r, tlb, s3)"
  shows "released s0
    (if r \<noteq> 0 then Some (telem_cleanup os ss tlb table s3)
     else let ptr = tlb_ptr (the tlb) in
       (case gbind (gload os (ptr + (ucast tags AND (TT_TLB_2MB - 1)))) (\<lambda>tags.
             gbind (gload os (ptr + (ucast data AND (TT_TLB_2MB - 1)))) (\<lambda>data.
             gret (tags, data))) (table, tt_trap_arm os ptr TT_TLB_2MB s3) of
         (Dead, _) \<Rightarrow> None
       | (Jump, table1, s4) \<Rightarrow> Some (telem_cleanup os ss tlb table1 (s4\<lparr>errno := ECONNRESET\<rparr>))
       | (Val (ptags, pdata), table1, s4) \<Rightarrow>
           if \<not> in_csm ptags \<or> \<not> in_csm pdata
           then Some (telem_cleanup os ss tlb table1 (s4\<lparr>errno := EIO\<rparr>))
           else telem_csm os ss tlb ptags pdata x y table1 (tt_trap_disarm s4)))"
proof -
  obtain t3 where t3: "tlb = Some t3" "tlb_len t3 = tlb_len t" by (rule bind_fail [OF assms(7)])
  have o3: "owes s0 s3 t3 1" by (rule owes_bind [OF assms(1,2,4) assms(7) [unfolded t3(1)]])
  show ?thesis
  proof (cases "r = 0")
    case False
    then show ?thesis using t3 cleanup_released [OF o3 assms(2,4)] by simp
  next
    case True
    obtain p where "tlb = Some (t\<lparr>tlb_ptr := p\<rparr>)" and gb: "good_base p"
      by (rule bind_ok [OF assms(7) [unfolded True] assms(3,5)])
    then have gb: "good_base (tlb_ptr t3)" using t3(1) by simp
    have len: "tlb_len t3 = TT_TLB_2MB" using assms(5) t3(2) by simp
    show ?thesis
      unfolding t3(1) Let_def option.sel using telem_pointers_released [OF o3 assms(2-4) len gb assms(6)] True by simp
  qed
qed

lemma telem_info_traced:
  assumes "tt_dev_info os (Some ss) (Some i) s = (r, info, s')" "0 \<le> sess_fd ss"
  obtains v where "trace s' = trace s @ [EvIoctl (sess_fd ss) (IoDeviceInfo dev_info_out_size) v]" "armed_ptr s' = armed_ptr s"
  using assms by (auto simp: tt_dev_info_def split: prod.splits if_splits dest!: call_step)

lemma telem_alloc_traced:
  assumes "tt_tlb_alloc os (Some ss) TT_TLB_2MB TT_TLB_UC (Some t0) s = (r, tlb, s')" "0 \<le> sess_fd ss"
  obtains v where "trace s' = trace s @ [EvIoctl (sess_fd ss) (IoAllocTlb TT_TLB_2MB) v]" "armed_ptr s' = armed_ptr s"
    "r = 0 \<longleftrightarrow> v = 0" "r = 0 \<longrightarrow> (\<exists>t. tlb = Some t \<and> tlb_ptr t = 0 \<and> tlb_len t = TT_TLB_2MB)"
  using assms by (auto simp: tt_tlb_alloc_def TT_TLB_UC_def split: prod.splits if_splits dest!: call_step)

lemma tt_telemetry_settled:
  assumes "mapping_calls os" "window_calls os"
  shows "settled s (tt_telemetry os (Some ss) (Some table) s)"
proof (cases "sess_fd ss < 0")
  case True
  then show ?thesis by (auto simp: tt_telemetry_def intro!: settled_early [of _ _ "[]"])
next
  case False
  then have fd: "0 \<le> sess_fd ss" by simp
  obtain r info s1 where i: "tt_dev_info os (Some ss) (Some blank_info) s = (r, info, s1)"
    by (metis prod_cases3)
  obtain v where i1: "trace s1 = trace s @ [EvIoctl (sess_fd ss) (IoDeviceInfo dev_info_out_size) v]" "armed_ptr s1 = armed_ptr s"
    by (rule telem_info_traced [OF i fd])
  have e1: "settled s (Some (rc, Some tb, s1\<lparr>errno := e\<rparr>))" for rc tb e
    using i1 by (intro settled_early) auto
  show ?thesis
  proof (cases "r = 0 \<and> telem_arch (di_device_id (the info)) \<noteq> None")
    case False
    then show ?thesis
      using i fd e1 e1 [of _ _ "errno s1"]
      by (cases "telem_arch (di_device_id (the info))") (auto simp: tt_telemetry_def)
  next
    case True
    then obtain tags data x y where arch: "telem_arch (di_device_id (the info)) = Some (tags, data, x, y)"
      by (cases "telem_arch (di_device_id (the info))") auto
    let ?t0 = "replicate TT_TELEMETRY_LEN 0"
    obtain ra tlb s2 where a: "tt_tlb_alloc os (Some ss) TT_TLB_2MB TT_TLB_UC (Some blank_tlb) s1 = (ra, tlb, s2)"
      by (metis prod_cases3)
    obtain va where a1: "trace s2 = trace s1 @ [EvIoctl (sess_fd ss) (IoAllocTlb TT_TLB_2MB) va]" "armed_ptr s2 = armed_ptr s1"
      "ra = 0 \<longleftrightarrow> va = 0" "ra = 0 \<longrightarrow> (\<exists>t. tlb = Some t \<and> tlb_ptr t = 0 \<and> tlb_len t = TT_TLB_2MB)"
      by (rule telem_alloc_traced [OF a fd])
    show ?thesis
    proof (cases "ra = 0")
      case False
      have "settled s (Some (TT_ERR, Some ?t0, s2))"
        using False a1 i1 by (intro settled_early) auto
      then show ?thesis using False True i a arch fd by (simp add: tt_telemetry_def)
    next
      case raz: True
      obtain t where t: "tlb = Some t" "tlb_ptr t = 0" "tlb_len t = TT_TLB_2MB" using a1(4) raz by blast
      have o2: "owes s s2 t 1"
        using a1 i1 raz t by (intro owes_start) simp_all
      obtain rb tlb3 s3 where b: "tt_tlb_bind os (Some ss) (Some t)
          (Some (telem_config (ucast tags AND NOT (TT_TLB_2MB - 1)) x y)) s2 = (rb, tlb3, s3)"
        by (metis prod_cases3)
      have "released s (tt_telemetry os (Some ss) (Some table) s)"
        using telem_window_released [OF o2 assms fd t(3) arch b, of ?t0] True i a raz arch fd b t
        by (simp add: tt_telemetry_def Let_def)
      then show ?thesis by (rule released_settled)
    qed
  qed
qed

section \<open>What telemetry promises\<close>

text \<open>
  C9: reading telemetry always comes back, whatever the device memory does: every volatile read
  it makes, including those at offsets the device itself supplies, lies inside the range armed
  at that moment, so a fault of any of them is caught and none kills the process.
\<close>

theorem tt_telemetry_returns:
  assumes "mapping_calls os" "window_calls os"
  shows "\<exists>rc table' s'. tt_telemetry os (Some ss) (Some table) s = Some (rc, Some table', s')"
  using tt_telemetry_settled [OF assms, of s ss table] by (auto simp: settled_def)

lemma stub_window_calls: "window_calls stub_os" "mapping_calls stub_os"
  by (auto simp: window_calls_def mapping_calls_def stub_os_def ret0_def TT_TLB_4GB_def word_le_nat_alt)

text \<open>The witness's device memory faults on every access.\<close>

theorem tt_telemetry_returns_witness:
  "tt_telemetry (stub_os\<lparr>mem_load := (\<lambda>_ _. ret0 None)\<rparr>)
     (Some \<lparr>sess_dev = \<lparr>dev_id = 0\<rparr>, sess_fd = 3, sess_flags = 0\<rparr>) (Some [1, 2, 3]) stub_mach \<noteq> None"
proof -
  have "mapping_calls (stub_os\<lparr>mem_load := (\<lambda>_ _. ret0 None)\<rparr>)"
    "window_calls (stub_os\<lparr>mem_load := (\<lambda>_ _. ret0 None)\<rparr>)"
    using stub_window_calls by (simp_all add: window_calls_def mapping_calls_def)
  from tt_telemetry_returns [OF this, of "\<lparr>sess_dev = \<lparr>dev_id = 0\<rparr>, sess_fd = 3, sess_flags = 0\<rparr>"
      "[1, 2, 3]" stub_mach]
  show ?thesis by auto
qed

text \<open>
  C17: however it ends (success, a refused call, an incoherent snapshot, a fault), telemetry leaves
  nothing behind: the window it allocated is freed, every mapping it made is removed, no
  descriptor is opened or closed, and the fault guard is not left armed.
\<close>

theorem tt_telemetry_releases:
  assumes "mapping_calls os" "window_calls os"
    "tt_telemetry os (Some ss) (Some table) s = Some (rc, table', s')"
  shows "allocs (since s s') = frees (since s s') \<and>
    mset (mapped (since s s')) = mset (unmapped (since s s')) \<and>
    opened (since s s') = [] \<and> closed (since s s') = [] \<and>
    armed_ptr s' \<in> {0, armed_ptr s}"
  using tt_telemetry_settled [OF assms(1,2), of s ss table] assms(3)
  by (auto simp: settled_def owes_def held_def)

theorem tt_telemetry_releases_witness:
  "\<exists>rc table' s'. tt_telemetry stub_os (Some \<lparr>sess_dev = \<lparr>dev_id = 0\<rparr>, sess_fd = 3, sess_flags = 0\<rparr>)
     (Some []) stub_mach = Some (rc, table', s') \<and> allocs (since stub_mach s') = frees (since stub_mach s')"
  using tt_telemetry_returns [OF stub_window_calls(2,1)]
    tt_telemetry_releases [OF stub_window_calls(2,1)] by blast

end
