(* ===== verification/Snapshot.thy ===== *)
theory Snapshot
  imports Telem
begin

text \<open>
  The refinement of the snapshot of \<open>src/dev/telem.c\<close>: over device memory that holds still, the
  loops compute the table that the list of entries denotes.
\<close>

section \<open>What a table of entries denotes\<close>

text \<open>The tag and the word offset of an entry.\<close>

definition entry_tag :: "u32 \<Rightarrow> nat" where
  "entry_tag e = unat (e AND 0xffff)"

definition entry_off :: "u32 \<Rightarrow> u16" where
  "entry_off e = ucast (drop_bit 16 e)"

definition known :: "u32 \<Rightarrow> bool" where
  "known e \<longleftrightarrow> 0 < entry_tag e \<and> entry_tag e < TT_TELEMETRY_LEN"

text \<open>
  The offsets the entries give to tags; the offset \<open>0xffff\<close> stands for no entry. A list is
  \<open>clean\<close> when no known tag is given again after it got an offset.
\<close>

definition offsets :: "u32 list \<Rightarrow> (nat \<times> u16) list" where
  "offsets es = filter (\<lambda>(t, off). off \<noteq> 0xffff) (map (\<lambda>e. (entry_tag e, entry_off e)) (filter known es))"

fun clean :: "u32 list \<Rightarrow> bool" where
  "clean [] = True"
| "clean (e # es) \<longleftrightarrow>
     (known e \<and> entry_off e \<noteq> 0xffff \<longrightarrow> (\<forall>x \<in> set es. known x \<longrightarrow> entry_tag x \<noteq> entry_tag e)) \<and> clean es"

text \<open>The word at index \<open>i\<close> of an array at \<open>base\<close>.\<close>

definition word_at :: "(u64 \<Rightarrow> u32) \<Rightarrow> u64 \<Rightarrow> nat \<Rightarrow> u32" where
  "word_at mem base i = mem (base + of_nat (4 * i))"

definition entries_at :: "(u64 \<Rightarrow> u32) \<Rightarrow> u64 \<Rightarrow> u32 list" where
  "entries_at mem tbl = map (\<lambda>i. word_at mem tbl (2 + i)) [0..<min 128 (unat (word_at mem tbl 1))]"

definition table_of :: "(u64 \<Rightarrow> u32) \<Rightarrow> u64 \<Rightarrow> u32 list \<Rightarrow> u32 list" where
  "table_of mem data es =
     map (\<lambda>t. case map_of (offsets es) t of Some off \<Rightarrow> word_at mem data (unat off) | None \<Rightarrow> 0)
       [0..<TT_TELEMETRY_LEN]"

section \<open>Memory that holds still\<close>

definition static_mem :: "'w os \<Rightarrow> (u64 \<Rightarrow> u32) \<Rightarrow> bool" where
  "static_mem os mem \<longleftrightarrow>
     (\<forall>a e w. \<exists>v. fst (mem_load os a 4 e w) = Some v \<and> ucast v = mem a)"

text \<open>The computation returns \<open>x\<close> and updates the table by \<open>f\<close>, whatever the state.\<close>

definition computes :: "('a, 'w) guarded \<Rightarrow> 'a \<Rightarrow> (u32 list \<Rightarrow> u32 list) \<Rightarrow> bool" where
  "computes m x f \<longleftrightarrow> (\<forall>table s. \<exists>s'. m (table, s) = (Val x, f table, s'))"

lemma computes_gret [simp]: "computes (gret x) x (\<lambda>t. t)"
  by (simp add: computes_def gret_def)

lemma computes_gtable: "computes (gtable f) () f"
  by (simp add: computes_def gtable_def)

lemma computes_gbind:
  assumes "computes m x f" "computes (k x) y g"
  shows "computes (gbind m k) y (\<lambda>t. g (f t))"
  unfolding computes_def
proof (intro allI)
  fix table s
  obtain s1 where "m (table, s) = (Val x, f table, s1)" using assms(1) unfolding computes_def by blast
  moreover obtain s2 where "k x (f table, s1) = (Val y, g (f table), s2)"
    using assms(2) unfolding computes_def by blast
  ultimately show "\<exists>s'. gbind m k (table, s) = (Val y, g (f table), s')"
    by (simp add: gbind_def)
qed

lemma computes_gword:
  assumes "static_mem os mem"
  shows "computes (gword os base i) (word_at mem base i) (\<lambda>t. t)"
  unfolding computes_def
proof (intro allI)
  fix table s
  obtain v s1 where l: "k_load os (base + of_nat (4 * i)) 4 s = (v, s1)" by (metis prod.exhaust)
  then have "v = fst (mem_load os (base + of_nat (4 * i)) 4 (errno s) (world s))"
    using call_fst [of "mem_load os (base + of_nat (4 * i)) 4"] by (metis fst_conv)
  then obtain u where "v = Some u" "ucast u = mem (base + of_nat (4 * i))"
    using assms unfolding static_mem_def by metis
  with l show "\<exists>s'. gword os base i (table, s) = (Val (word_at mem base i), table, s')"
    by (simp add: gword_def gload_def word_at_def)
qed

section \<open>The offset map\<close>

fun note_entries :: "u32 list \<Rightarrow> u16 list \<Rightarrow> u16 list option" where
  "note_entries [] offs = Some offs"
| "note_entries (e # es) offs =
     (if \<not> known e then note_entries es offs
      else if offs ! entry_tag e \<noteq> 0xffff then None
      else note_entries es (offs[entry_tag e := entry_off e]))"

definition unset :: "u16 list \<Rightarrow> u32 list \<Rightarrow> bool" where
  "unset offs es \<longleftrightarrow> (\<forall>e \<in> set es. known e \<longrightarrow> offs ! entry_tag e = 0xffff)"

lemma unset_simps [simp]:
  "unset offs []"
  "unset offs (e # es) \<longleftrightarrow> (known e \<longrightarrow> offs ! entry_tag e = 0xffff) \<and> unset offs es"
  by (simp_all add: unset_def)

lemma unset_update:
  assumes "length offs = TT_TELEMETRY_LEN" "known e" "offs ! entry_tag e = 0xffff"
  shows "unset (offs[entry_tag e := entry_off e]) es \<longleftrightarrow>
    unset offs es \<and> (entry_off e \<noteq> 0xffff \<longrightarrow> (\<forall>x \<in> set es. known x \<longrightarrow> entry_tag x \<noteq> entry_tag e))"
proof -
  have "entry_tag e < length offs" using assms by (simp add: known_def)
  then have eq: "offs[entry_tag e := entry_off e] ! t = 0xffff \<longleftrightarrow>
      offs ! t = 0xffff \<and> (entry_off e \<noteq> 0xffff \<longrightarrow> t \<noteq> entry_tag e)" for t
    using assms(3) by (cases "t = entry_tag e") simp_all
  show ?thesis unfolding unset_def eq by blast
qed

lemma note_entries_clean:
  "length offs = TT_TELEMETRY_LEN \<Longrightarrow>
   note_entries es offs = None \<longleftrightarrow> \<not> (clean es \<and> unset offs es)"
proof (induction es arbitrary: offs)
  case (Cons e es)
  show ?case
  proof (cases "known e \<and> offs ! entry_tag e = 0xffff")
    case True
    have "note_entries es (offs[entry_tag e := entry_off e]) = None \<longleftrightarrow>
        \<not> (clean es \<and> unset (offs[entry_tag e := entry_off e]) es)"
      using Cons.prems by (intro Cons.IH) simp
    then show ?thesis
      using True unset_update [OF Cons.prems, of e es] by (simp del: ball_simps) blast
  next
    case False
    then show ?thesis using Cons.IH [OF Cons.prems] by auto
  qed
qed simp

lemma note_entries_nth:
  "\<lbrakk>note_entries es offs = Some offs'; length offs = TT_TELEMETRY_LEN; t < TT_TELEMETRY_LEN\<rbrakk> \<Longrightarrow>
   length offs' = TT_TELEMETRY_LEN \<and>
   offs' ! t = (if offs ! t \<noteq> 0xffff then offs ! t
     else case map_of (offsets es) t of Some off \<Rightarrow> off | None \<Rightarrow> 0xffff)"
proof (induction es arbitrary: offs)
  case Nil
  then show ?case by (simp add: offsets_def)
next
  case (Cons e es)
  show ?case
  proof (cases "known e")
    case False
    then show ?thesis using Cons.IH [of offs] Cons.prems by (simp add: offsets_def)
  next
    case True
    then have o: "offs ! entry_tag e = 0xffff"
      and n: "note_entries es (offs[entry_tag e := entry_off e]) = Some offs'"
      using Cons.prems by (auto split: if_splits)
    have t: "entry_tag e < TT_TELEMETRY_LEN" using True by (simp add: known_def)
    have "offsets (e # es) = (if entry_off e = 0xffff then [] else [(entry_tag e, entry_off e)]) @ offsets es"
      using True by (simp add: offsets_def)
    then show ?thesis
      using Cons.IH [OF n] Cons.prems(2,3) t o
      by (auto simp: nth_list_update split: option.splits)
  qed
qed

text \<open>The entries from index \<open>idx\<close> on.\<close>

fun entries_from :: "(u64 \<Rightarrow> u32) \<Rightarrow> u64 \<Rightarrow> nat \<Rightarrow> nat \<Rightarrow> u32 list" where
  "entries_from mem tbl idx 0 = []"
| "entries_from mem tbl idx (Suc n) = word_at mem tbl (2 + idx) # entries_from mem tbl (Suc idx) n"

lemma entries_from_eq: "entries_from mem tbl idx n = map (\<lambda>i. word_at mem tbl (2 + i)) [idx..<idx + n]"
  by (induction n arbitrary: idx) (simp_all add: upt_conv_Cons del: upt_Suc)

lemma computes_build_map:
  assumes "static_mem os mem"
  shows "computes (build_map os tbl idx n offs) (note_entries (entries_from mem tbl idx n) offs) (\<lambda>t. t)"
proof (induction n arbitrary: idx offs)
  case (Suc n)
  let ?e = "word_at mem tbl (2 + idx)"
  let ?k = "\<lambda>e. let tag = unat (e AND 0xffff); off = ucast (drop_bit 16 e) in
       if tag = 0 \<or> tag \<ge> TT_TELEMETRY_LEN then build_map os tbl (Suc idx) n offs
       else if offs ! tag \<noteq> 0xffff then gret None
       else build_map os tbl (Suc idx) n (offs[tag := off])"
  have "computes (?k ?e) (note_entries (entries_from mem tbl idx (Suc n)) offs) (\<lambda>t. t)"
    using Suc.IH [of "Suc idx"] by (auto simp: Let_def known_def entry_tag_def entry_off_def)
  from computes_gbind [of _ _ _ ?k, OF computes_gword [OF assms] this]
  show ?case by simp
qed simp

section \<open>The pass over the tags\<close>

definition fill :: "(u64 \<Rightarrow> u32) \<Rightarrow> u64 \<Rightarrow> u16 list \<Rightarrow> nat list \<Rightarrow> u32 list \<Rightarrow> u32 list" where
  "fill mem data offs tags table =
     foldl (\<lambda>tb t. if offs ! t = 0xffff then tb else tb[t := word_at mem data (unat (offs ! t))]) table tags"

lemma computes_read_tags:
  assumes "static_mem os mem"
  shows "computes (read_tags os data offs tags) () (fill mem data offs tags)"
proof (induction tags)
  case Nil
  have "fill mem data offs [] = (\<lambda>t. t)" by (simp add: fill_def fun_eq_iff)
  then show ?case by simp
next
  case (Cons t tags)
  have "computes (if offs ! t \<noteq> 0xffff
        then gbind (gword os data (unat (offs ! t))) (\<lambda>v. gtable (\<lambda>table. table[t := v]))
        else gret ()) () (fill mem data offs [t])"
  proof (cases "offs ! t = 0xffff")
    case True
    then have "fill mem data offs [t] = (\<lambda>t. t)" by (simp add: fill_def fun_eq_iff)
    then show ?thesis using True by simp
  next
    case False
    have "fill mem data offs [t] = (\<lambda>table. table[t := word_at mem data (unat (offs ! t))])"
      using False by (simp add: fill_def fun_eq_iff)
    then show ?thesis
      using False computes_gbind [OF computes_gword [OF assms] computes_gtable] by simp
  qed
  note one = this
  have f: "fill mem data offs (t # tags) = (\<lambda>tb. fill mem data offs tags (fill mem data offs [t] tb))"
    by (simp add: fill_def fun_eq_iff)
  show ?case
    unfolding read_tags.simps f
    by (rule computes_gbind [where k = "\<lambda>_. read_tags os data offs tags", OF one Cons])
qed

lemma length_fill [simp]: "length (fill mem data offs tags table) = length table"
  unfolding fill_def by (induction tags arbitrary: table) auto

lemma fill_nth:
  assumes "distinct tags" "i < length table"
  shows "fill mem data offs tags table ! i =
    (if i \<in> set tags \<and> offs ! i \<noteq> 0xffff then word_at mem data (unat (offs ! i)) else table ! i)"
  using assms unfolding fill_def
  by (induction tags arbitrary: table) (auto, metis nth_list_update_neq)

text \<open>With a heartbeat that does not move, the first attempt is coherent.\<close>

lemma computes_attempts:
  assumes "static_mem os mem"
  shows "computes (attempts os data offs (Suc n)) TT_OK (fill mem data offs [1..<TT_TELEMETRY_LEN])"
proof -
  let ?hb = "offs ! TT_TAG_TIMER_HEARTBEAT"
  have tick: "computes (if ?hb \<noteq> 0xffff then gword os data (unat ?hb) else gret 0)
      (if ?hb \<noteq> 0xffff then word_at mem data (unat ?hb) else 0) (\<lambda>t. t)"
    using computes_gword [OF assms] by auto
  have tail: "computes (if ?hb = 0xffff then gret TT_OK
      else gbind (gword os data (unat ?hb)) (\<lambda>tock.
        if (if ?hb \<noteq> 0xffff then word_at mem data (unat ?hb) else 0) = tock then gret TT_OK
        else gbind (gtable (\<lambda>_. replicate TT_TELEMETRY_LEN 0)) (\<lambda>_. attempts os data offs n))) TT_OK (\<lambda>t. t)"
  proof (cases "?hb = 0xffff")
    case True
    then show ?thesis by simp
  next
    case False
    let ?k = "\<lambda>tock. if word_at mem data (unat ?hb) = tock then gret TT_OK
        else gbind (gtable (\<lambda>_. replicate TT_TELEMETRY_LEN 0)) (\<lambda>_. attempts os data offs n)"
    have "computes (?k (word_at mem data (unat ?hb))) TT_OK (\<lambda>t. t)" by simp
    from computes_gbind [of _ _ _ ?k, OF computes_gword [OF assms] this] False
    show ?thesis by simp
  qed
  have "computes (attempts os data offs (Suc n)) TT_OK (\<lambda>t. fill mem data offs [1..<TT_TELEMETRY_LEN] t)"
    unfolding attempts.simps
    by (rule computes_gbind [OF tick],
        rule computes_gbind [where g = "\<lambda>t. t", OF computes_read_tags [OF assms]], rule tail)
  then show ?thesis by simp
qed

section \<open>What a snapshot promises\<close>

lemma unset_initial: "unset (replicate TT_TELEMETRY_LEN 0xffff) es"
  by (simp add: unset_def known_def)

lemma fill_table_of:
  assumes "note_entries es (replicate TT_TELEMETRY_LEN 0xffff) = Some offs"
  shows "fill mem data offs [1..<TT_TELEMETRY_LEN] (replicate TT_TELEMETRY_LEN 0) = table_of mem data es"
    (is "?l = ?r")
proof (rule nth_equalityI)
  show "length ?l = length ?r" by (simp add: table_of_def)
next
  fix t assume "t < length ?l"
  then have t: "t < TT_TELEMETRY_LEN" by simp
  have o: "offs ! t = (case map_of (offsets es) t of Some off \<Rightarrow> off | None \<Rightarrow> 0xffff)"
    using note_entries_nth [OF assms _ t] t by simp
  have ne: "map_of (offsets es) t = Some off \<Longrightarrow> off \<noteq> 0xffff \<and> t \<noteq> 0" for off
    by (auto simp: offsets_def known_def dest!: map_of_SomeD)
  show "?l ! t = ?r ! t"
    using t o ne by (auto simp: fill_nth table_of_def split: option.splits)
qed

text \<open>
  C10: over device memory that holds still, a snapshot yields exactly the table its entries denote:
  the value at a known tag's offset, zero for a tag without one, from at most 128 entries
  whatever count the device claims; and entries that give a tag twice are refused with
  \<open>EIO\<close> and an empty table.
\<close>

theorem snapshot_table:
  assumes "static_mem os mem"
  shows "\<exists>s'. snapshot os tbl data (replicate TT_TELEMETRY_LEN 0, s) =
    (if clean (entries_at mem tbl)
     then (Val TT_OK, table_of mem data (entries_at mem tbl), s')
     else (Val TT_ERR, replicate TT_TELEMETRY_LEN 0, s'\<lparr>errno := EIO\<rparr>))"
proof -
  let ?z = "replicate TT_TELEMETRY_LEN 0 :: u32 list"
  let ?o = "replicate TT_TELEMETRY_LEN 0xffff :: u16 list"
  let ?c = "word_at mem tbl 1"
  let ?n = "unat (if ?c > TELEM_ENTRY_CAP then TELEM_ENTRY_CAP else ?c)"
  have n: "?n = min 128 (unat ?c)"
    by (auto simp: TELEM_ENTRY_CAP_def word_less_nat_alt min_def)
  have es: "entries_from mem tbl 0 ?n = entries_at mem tbl"
    unfolding entries_from_eq entries_at_def n by simp
  obtain s1 where c: "gword os tbl 1 (?z, s) = (Val ?c, ?z, s1)"
    using computes_gword [OF assms, of tbl 1] unfolding computes_def by blast
  obtain s2 where b: "build_map os tbl 0 ?n ?o (?z, s1) = (Val (note_entries (entries_at mem tbl) ?o), ?z, s2)"
    using computes_build_map [OF assms, of tbl 0 ?n ?o] unfolding computes_def es by blast
  have cb: "gbind (gword os tbl 1) k (?z, s) = k ?c (?z, s1)"
    "gbind (build_map os tbl 0 ?n ?o) h (?z, s1) = h (note_entries (entries_at mem tbl) ?o) (?z, s2)"
    for k :: "u32 \<Rightarrow> (int, 'a) guarded" and h :: "u16 list option \<Rightarrow> (int, 'a) guarded"
    by (simp only: gbind_def c prod.case gres.case, simp only: gbind_def b prod.case gres.case)
  have run: "snapshot os tbl data (?z, s) =
      (case note_entries (entries_at mem tbl) ?o of
         None \<Rightarrow> gfail EIO (?z, s2) | Some offs \<Rightarrow> attempts os data offs 3 (?z, s2))"
    unfolding snapshot_def Let_def cb by (simp split: option.split)
  show ?thesis
  proof (cases "note_entries (entries_at mem tbl) ?o")
    case None
    then have "\<not> clean (entries_at mem tbl)"
      using note_entries_clean [of ?o] unset_initial by simp
    then show ?thesis using run None by (simp add: gfail_def tt_fail_def) metis
  next
    case (Some offs)
    then have cl: "clean (entries_at mem tbl)"
      using note_entries_clean [of ?o "entries_at mem tbl"] by simp
    obtain s3 where "attempts os data offs (Suc 2) (?z, s2) =
        (Val TT_OK, fill mem data offs [1..<TT_TELEMETRY_LEN] ?z, s3)"
      using computes_attempts [OF assms, of data offs 2] unfolding computes_def by blast
    then show ?thesis
      using run Some cl fill_table_of [OF Some] by (simp add: numeral_3_eq_3 numeral_2_eq_2)
  qed
qed

text \<open>A memory with one entry, giving tag 3 the word at offset 5; every other word reads 1.\<close>

definition demo_mem :: "u64 \<Rightarrow> u32" where
  "demo_mem a = (if a = 0x1008 then 0x00050003 else if a = 0x2014 then 42 else 1)"

theorem snapshot_table_witness:
  "\<exists>s'. snapshot (stub_os\<lparr>mem_load := (\<lambda>a _. ret0 (Some (ucast (demo_mem a))))\<rparr>) 0x1000 0x2000
      (replicate TT_TELEMETRY_LEN 0, stub_mach) =
    (Val TT_OK, (replicate TT_TELEMETRY_LEN 0)[3 := 42], s')"
proof -
  let ?os = "stub_os\<lparr>mem_load := (\<lambda>a _. ret0 (Some (ucast (demo_mem a))))\<rparr>"
  have "static_mem ?os demo_mem"
    by (simp add: static_mem_def ret0_def ucast_up_ucast_id is_up)
  note r = snapshot_table [OF this, of "0x1000" "0x2000" stub_mach]
  have e: "entries_at demo_mem 0x1000 = [0x00050003]"
    by (simp add: entries_at_def word_at_def demo_mem_def)
  have "offsets [0x00050003] = [(3, 5)]"
    by (simp add: offsets_def known_def entry_tag_def entry_off_def TT_TELEMETRY_LEN_def)
  then have "table_of demo_mem 0x2000 [0x00050003] = (replicate TT_TELEMETRY_LEN 0)[3 := 42]"
    by (intro nth_equalityI)
      (auto simp: table_of_def word_at_def demo_mem_def nth_list_update TT_TELEMETRY_LEN_def)
  with r e show ?thesis by simp
qed

end
