(* ===== verification/RsErr.thy ===== *)
theory RsErr
  imports Device
begin

text \<open>
  \<open>src/bind/rs/src/err.rs\<close>: the errors of the Rust binding. An error is one of the operating system's,
  by its number, or a bare \<open>io::ErrorKind\<close>. A \<open>Result\<close> is a sum with the error on the left.
\<close>

section \<open>Errors\<close>

text \<open>
  \<open>std::io::ErrorKind\<close>, as far as the binding names its variants; the kinds of all other numbers are
  \<open>Other\<close> with the number.
\<close>

datatype error_kind = ConnectionReset | WouldBlock | TimedOut | InvalidInput | Other errno_t

datatype error = Os errno_t | Simple error_kind

type_synonym 'a result = "error + 'a"

text \<open>The standard library's \<open>decode_error_kind\<close> on Unix.\<close>

definition decode_kind :: "errno_t \<Rightarrow> error_kind" where
  "decode_kind e =
     (if e = ECONNRESET then ConnectionReset
      else if e = EAGAIN then WouldBlock
      else if e = ETIMEDOUT then TimedOut
      else if e = EINVAL then InvalidInput
      else Other e)"

fun kind :: "error \<Rightarrow> error_kind" where
  "kind (Os e) = decode_kind e"
| "kind (Simple k) = k"

fun raw_os_error :: "error \<Rightarrow> errno_t option" where
  "raw_os_error (Os e) = Some e"
| "raw_os_error (Simple k) = None"

text \<open>
  How the standard library prints an error: a number's with the text \<open>tx\<close> of \<open>strerror_r\<close>, a bare kind by its
  description; \<open>others\<close> describes the kinds the binding does not name. Neither form has a source.
\<close>

fun kind_text :: "(errno_t \<Rightarrow> string) \<Rightarrow> error_kind \<Rightarrow> string" where
  "kind_text others ConnectionReset = ''connection reset''"
| "kind_text others WouldBlock = ''operation would block''"
| "kind_text others TimedOut = ''timed out''"
| "kind_text others InvalidInput = ''invalid input parameter''"
| "kind_text others (Other e) = others e"

definition show_int :: "int \<Rightarrow> string" where
  "show_int i = (if i < 0 then CHR ''-'' # show_dec (nat (- i)) else show_dec (nat i))"

fun error_display :: "(errno_t \<Rightarrow> string) \<Rightarrow> (errno_t \<Rightarrow> string) \<Rightarrow> error \<Rightarrow> string" where
  "error_display tx others (Os e) = tx e @ '' (os error '' @ show_int e @ '')''"
| "error_display tx others (Simple k) = kind_text others k"

fun error_source :: "error \<Rightarrow> error option" where
  "error_source (Os e) = None"
| "error_source (Simple k) = None"

definition is_lost :: "error \<Rightarrow> bool" where
  "is_lost e \<longleftrightarrow> kind e = ConnectionReset"

definition last_error :: "'w mach \<Rightarrow> error" where
  "last_error s = Os (errno s)"

text \<open>\<open>From<Error> for io::Error\<close> unwraps the newtype, which the model does not have.\<close>

definition into_io_error :: "error \<Rightarrow> error" where
  "into_io_error e = e"

definition check :: "int \<Rightarrow> 'w mach \<Rightarrow> unit result" where
  "check ret s = (if ret = 0 then Inr () else Inl (last_error s))"

lemma is_lost_Os [simp]: "is_lost (Os e) \<longleftrightarrow> e = ECONNRESET"
  by (simp add: is_lost_def decode_kind_def)

lemma check_simps [simp]:
  "check 0 s = Inr ()"
  "ret \<noteq> 0 \<Longrightarrow> check ret s = Inl (Os (errno s))"
  "check ret s = Inr u \<longleftrightarrow> ret = 0"
  "check ret s = Inl e \<longleftrightarrow> ret \<noteq> 0 \<and> e = Os (errno s)"
  by (auto simp: check_def last_error_def)

text \<open>
  A fallible call with an out-parameter: the code checked with \<open>?\<close>, then the parameter's contents
  taken (\<open>assume_init\<close>).
\<close>

definition checked :: "int \<times> 'a option \<times> 'w mach \<Rightarrow> 'a result \<times> 'w mach" where
  "checked p = (case p of (rc, x, s) \<Rightarrow> (map_sum id (\<lambda>_. the x) (check rc s), s))"

lemma checked_simps [simp]:
  "checked (0, x, s) = (Inr (the x), s)"
  "rc \<noteq> 0 \<Longrightarrow> checked (rc, x, s) = (Inl (Os (errno s)), s)"
  by (simp_all add: checked_def)

end
