(* ===== verification/RsSession.thy ===== *)
theory RsSession
  imports RsErr Books PowerState
begin

text \<open>
  \<open>src/bind/rs/src/dev/mod.rs\<close>: devices, discovery and sessions of the Rust binding. A method that
  takes \<open>&self\<close> and updates the session's \<open>Cell\<close> returns the session with the machine; one that
  consumes the session returns only the machine. An \<open>option\<close> around a result is \<^const>\<open>None\<close>
  when the call does not return.
\<close>

section \<open>Devices\<close>

datatype device = Dev (device_raw: tt_device)

text \<open>The raw accessors \<open>as_raw\<close>, \<open>as_raw_mut\<close>, \<open>as_ptr\<close> and \<open>as_mut_ptr\<close> all denote the descriptor.\<close>

abbreviation device_as_ptr :: "device \<Rightarrow> tt_device option" where
  "device_as_ptr d \<equiv> Some (device_raw d)"

definition device_eq :: "device \<Rightarrow> device \<Rightarrow> bool" where
  "device_eq a b \<longleftrightarrow> dev_id (device_raw a) = dev_id (device_raw b)"

definition device_id :: "device \<Rightarrow> u32" where
  "device_id d = dev_id (device_raw d)"

text \<open>\<open>CString::new\<close> fails on an interior nul byte.\<close>

definition cstring :: "string \<Rightarrow> string option" where
  "cstring s = (if CHR 0x00 \<in> set s then None else Some s)"

definition uninit_device :: tt_device where
  "uninit_device = \<lparr>dev_id = 0\<rparr>"

definition try_from_path :: "'w os \<Rightarrow> string \<Rightarrow> 'w mach \<Rightarrow> device result \<times> 'w mach" where
  "try_from_path os path s =
     (case cstring path of
        None \<Rightarrow> (Inl (Simple InvalidInput), s)
      | Some p \<Rightarrow> (case checked (tt_dev_from_path os (Some p) (Some uninit_device) s) of
          (r, s1) \<Rightarrow> (map_sum id Dev r, s1)))"

text \<open>The scan loop at capacity \<open>cap\<close>; \<open>buf\<close>'s \<open>cap\<close> uninitialised elements are overwritten.\<close>

partial_function (option) scan_loop :: "'w os \<Rightarrow> nat \<Rightarrow> 'w mach \<Rightarrow> (device list result \<times> 'w mach) option" where
  "scan_loop os cap s =
     (case tt_dev_scan os cap (replicate cap uninit_device) s of (found, buf, s1) \<Rightarrow>
       if found < 0 then Some (Inl (last_error s1), s1)
       else if nat found \<le> cap then Some (Inr (map Dev (take (nat found) buf)), s1)
       else scan_loop os (nat found * 2) s1)"

definition scan :: "'w os \<Rightarrow> 'w mach \<Rightarrow> (device list result \<times> 'w mach) option" where
  "scan os s = scan_loop os 32 s"

section \<open>Sessions\<close>

record open_options =
  oo_excl :: bool
  oo_nonblock :: bool
  oo_persist :: bool

definition options_new :: open_options where
  "options_new = \<lparr>oo_excl = False, oo_nonblock = False, oo_persist = False\<rparr>"

definition options_exclusive :: "bool \<Rightarrow> open_options \<Rightarrow> open_options" where
  "options_exclusive excl opts = opts\<lparr>oo_excl := excl\<rparr>"

definition options_nonblocking :: "bool \<Rightarrow> open_options \<Rightarrow> open_options" where
  "options_nonblocking nonblock opts = opts\<lparr>oo_nonblock := nonblock\<rparr>"

definition options_persistent :: "bool \<Rightarrow> open_options \<Rightarrow> open_options" where
  "options_persistent persist opts = opts\<lparr>oo_persist := persist\<rparr>"

text \<open>The flags are computed as \<open>u32\<close> and cast.\<close>

definition options_flags :: "open_options \<Rightarrow> u16" where
  "options_flags opts =
     (let f0 = 0 :: u32;
          f1 = (if oo_excl opts then f0 OR ucast TT_OPEN_EXCL else f0);
          f2 = (if oo_nonblock opts then f1 OR ucast TT_OPEN_NONBLOCK else f1)
      in ucast f2)"

record session =
  ss_raw :: tt_session
  ss_opts :: open_options

abbreviation session_ptr :: "session \<Rightarrow> tt_session option" where
  "session_ptr x \<equiv> Some (ss_raw x)"

definition options_open :: "'w os \<Rightarrow> open_options \<Rightarrow> device \<Rightarrow> 'w mach \<Rightarrow> session result \<times> 'w mach" where
  "options_open os opts dev s =
     (case checked (tt_open os (device_as_ptr dev)
              (Some \<lparr>sess_dev = uninit_device, sess_fd = 0, sess_flags = 0\<rparr>) (options_flags opts) s) of
        (r, s1) \<Rightarrow> (map_sum id (\<lambda>raw. \<lparr>ss_raw = raw, ss_opts = opts\<rparr>) r, s1))"

definition session_options :: open_options where
  "session_options = options_new"

definition session_open :: "'w os \<Rightarrow> device \<Rightarrow> 'w mach \<Rightarrow> session result \<times> 'w mach" where
  "session_open os dev s = options_open os session_options dev s"

definition reopen :: "'w os \<Rightarrow> session \<Rightarrow> 'w mach \<Rightarrow> unit result \<times> session \<times> 'w mach" where
  "reopen os sess s =
     (case tt_reopen os (session_ptr sess) s of (rc, raw, s1) \<Rightarrow>
        (check rc s1, sess\<lparr>ss_raw := the raw\<rparr>, s1))"

text \<open>\<open>close\<close> consumes the session; \<open>drop\<close> is \<open>close\<close> with its result discarded.\<close>

definition session_close :: "'w os \<Rightarrow> session \<Rightarrow> 'w mach \<Rightarrow> unit result \<times> 'w mach" where
  "session_close os sess s =
     (case tt_close os (session_ptr sess) s of (rc, _, s1) \<Rightarrow> (check rc s1, s1))"

definition session_drop :: "'w os \<Rightarrow> session \<Rightarrow> 'w mach \<Rightarrow> 'w mach" where
  "session_drop os sess s = snd (session_close os sess s)"

definition session_dev :: "session \<Rightarrow> device" where
  "session_dev sess = Dev (sess_dev (ss_raw sess))"

section \<open>Running an operation\<close>

definition is_err_lost :: "'a result \<Rightarrow> bool" where
  "is_err_lost res \<longleftrightarrow> (case res of Inl e \<Rightarrow> is_lost e | Inr _ \<Rightarrow> False)"

definition RETRIES :: nat where
  "RETRIES = 3"

text \<open>The \<open>for\<close> loop of \<open>perform\<close> with \<open>n\<close> iterations to go, and the verdict after it.\<close>

fun perform_loop ::
  "'w os \<Rightarrow> nat \<Rightarrow> (session \<Rightarrow> 'w mach \<Rightarrow> ('a result \<times> 'w mach) option) \<Rightarrow> session \<Rightarrow> 'a result \<Rightarrow>
     'w mach \<Rightarrow> ('a result \<times> session \<times> 'w mach) option" where
  "perform_loop os 0 op sess res s =
     Some (if is_err_lost res then Inl (Os ENODEV) else res, sess, s)"
| "perform_loop os (Suc n) op sess res s =
     (if \<not> is_err_lost res then Some (res, sess, s)
      else (case reopen os sess s of
          (Inl e, sess1, s1) \<Rightarrow> Some (Inl e, sess1, s1)
        | (Inr _, sess1, s1) \<Rightarrow>
            (case op sess1 s1 of None \<Rightarrow> None
             | Some (res1, s2) \<Rightarrow> perform_loop os n op sess1 res1 s2)))"

definition perform ::
  "'w os \<Rightarrow> (session \<Rightarrow> 'w mach \<Rightarrow> ('a result \<times> 'w mach) option) \<Rightarrow> session \<Rightarrow> 'w mach \<Rightarrow>
     ('a result \<times> session \<times> 'w mach) option" where
  "perform os op sess s =
     (case op sess s of None \<Rightarrow> None
      | Some (res, s1) \<Rightarrow>
          if oo_persist (ss_opts sess) then perform_loop os RETRIES op sess res s1
          else Some (res, sess, s1))"

text \<open>\<open>size_of::<Info>()\<close>.\<close>

definition info_size :: u32 where
  "info_size = 20"

definition session_info :: "'w os \<Rightarrow> session \<Rightarrow> 'w mach \<Rightarrow> (tt_dev_info result \<times> session \<times> 'w mach) option" where
  "session_info os sess s =
     perform os (\<lambda>sess s. Some (checked (tt_dev_info os (session_ptr sess)
        (Some (blank_info\<lparr>di_output_size_bytes := info_size\<rparr>)) s))) sess s"

section \<open>The retry interface\<close>

definition reopen_again :: "'w os \<Rightarrow> session \<Rightarrow> 'w mach \<Rightarrow> 'a result option \<times> session \<times> 'w mach" where
  "reopen_again os sess s =
     (case reopen os sess s of
        (Inl e, sess1, s1) \<Rightarrow> (Some (Inl e), sess1, s1)
      | (Inr _, sess1, s1) \<Rightarrow> (None, sess1, s1))"

interpretation rs: performing "perform_loop os" "\<lambda>r m. is_err_lost r" "reopen_again os"
    "\<lambda>m. (Inl (Os ENODEV), m)" "perform os" "\<lambda>x. oo_persist (ss_opts x)" RETRIES for os :: "'w os"
proof
  fix r :: "'a result" and m :: "'w mach" and n op s
  assume "\<not> is_err_lost r"
  then show "perform_loop os n op s r m = Some (r, s, m)" by (cases n) simp_all
next
  fix r r' :: "'a result" and m m' :: "'w mach" and op s
  assume "is_err_lost r" "(Inl (Os ENODEV), m) = (r', m')"
  then show "perform_loop os 0 op s r m = Some (r', s, m')" by auto
next
  fix r e :: "'a result" and m m' :: "'w mach" and n op s s'
  assume "is_err_lost r" "reopen_again os s m = (Some e, s', m')"
  then show "perform_loop os (Suc n) op s r m = Some (e, s', m')"
    by (auto simp: reopen_again_def split: prod.splits sum.splits)
next
  fix r :: "'a result" and m m' :: "'w mach" and n op s s'
  assume "is_err_lost r" "reopen_again os s m = (None, s', m')"
  then show "perform_loop os (Suc n) op s r m =
      (case op s' m' of None \<Rightarrow> None | Some (r', m'') \<Rightarrow> perform_loop os n op s' r' m'')"
    by (auto simp: reopen_again_def split: prod.splits sum.splits)
next
  fix op :: "session \<Rightarrow> 'w mach \<Rightarrow> ('a result \<times> 'w mach) option" and s m
  show "perform os op s m = (case op s m of None \<Rightarrow> None
      | Some (r, m1) \<Rightarrow> if oo_persist (ss_opts s) then perform_loop os RETRIES op s r m1 else Some (r, s, m1))"
    by (rule perform_def)
qed

text \<open>Reopening never reports a lost connection: its errors are those of \<open>tt_open\<close>.\<close>

lemma reopen_errno:
  assumes "reopen os sess s = (Inl e, sess', s')"
  shows "\<exists>n \<in> {EINVAL, EAGAIN, ENODEV}. e = Os n"
proof -
  obtain rc raw where r: "tt_reopen os (Some (ss_raw sess)) s = (rc, raw, s')" "rc \<noteq> 0" "e = Os (errno s')"
    using assms by (auto simp: reopen_def split: prod.splits)
  then obtain sess1 s1 where c: "tt_close os (Some (ss_raw sess)) s = (fst (tt_close os (Some (ss_raw sess)) s), sess1, s1)"
    and o: "tt_open os (map_option sess_dev sess1) sess1 (sess_flags (the sess1)) s1 = (rc, raw, s')"
    by (auto simp: tt_reopen_def split: prod.splits)
  have "rc = TT_ERR" using tt_open_rc [OF o] r(2) by blast
  then show ?thesis using tt_open_err(2) [OF o [unfolded \<open>rc = TT_ERR\<close>]] r(3) by blast
qed

lemma reopen_opts: "reopen os sess s = (r, sess', s') \<Longrightarrow> ss_opts sess' = ss_opts sess"
  by (auto simp: reopen_def split: prod.splits)

lemma reopen_again_errno:
  "reopen_again os sess s = (Some r, sess', s') \<Longrightarrow> \<exists>n \<in> {EINVAL, EAGAIN, ENODEV}. r = Inl (Os n)"
  using reopen_errno by (fastforce simp: reopen_again_def split: prod.splits sum.splits)

section \<open>What running an operation promises\<close>

lemma perform_loop_never_lost:
  assumes "perform_loop os n op sess res s = Some (r, sess', s')"
  shows "\<not> is_err_lost r"
  using assms
  by (rule rs.loop_never_lost) (auto simp: is_err_lost_def dest!: reopen_again_errno)

lemma perform_persist:
  assumes "perform os op sess s = Some (r, sess', s')" "oo_persist (ss_opts sess)"
  obtains r0 s0 where "op sess s = Some (r0, s0)" "perform_loop os RETRIES op sess r0 s0 = Some (r, sess', s')"
  using assms by (auto simp: perform_def split: option.splits prod.splits)

lemma perform_total: "(\<And>s m. op s m \<noteq> None) \<Longrightarrow> \<exists>x. perform os op sess s = Some x"
  by (rule rs.perform_ends)

text \<open>A successful result is the operation's own, run last on the session as it is left.\<close>

lemma perform_ok:
  assumes "perform os op sess s = Some (Inr x, sess', s')"
  obtains s0 where "op sess' s0 = Some (Inr x, s')"
  by (rule rs.perform_last [OF assms, of "\<lambda>r. \<not> isl r"])
    (auto simp: reopen_again_def split: prod.splits sum.splits)

text \<open>
  C1: a call returns exactly this: on a session without persistence the operation runs once, and its
  result is the call's. On a persistent session it runs again after each result that reads as a lost
  connection, each time after a reopening that succeeded, at most three times; the call's result is then
  the last run's, if that is not lost, a failed reopening's error, or, with the retries spent,
  \<open>ENODEV\<close>, and so never reads as a lost connection itself. Every such run is the call's, so a device that
  comes back within three reopenings is served.
\<close>

theorem perform_outcome:
  "(perform os op sess s = Some (r, sess', s') \<longleftrightarrow>
      (\<exists>r0 s0. op sess s = Some (r0, s0) \<and>
        (if oo_persist (ss_opts sess) then
           (\<exists>k sess1 r1 s1. k \<le> 3 \<and>
              retries (\<lambda>r m. is_err_lost r) (reopen_again os) op k (sess, r0, s0) (sess1, r1, s1) \<and>
              (\<not> is_err_lost r1 \<and> r = r1 \<and> sess' = sess1 \<and> s' = s1 \<or>
               k < 3 \<and> is_err_lost r1 \<and> reopen_again os sess1 s1 = (Some r, sess', s') \<or>
               k = 3 \<and> is_err_lost r1 \<and> r = Inl (Os ENODEV) \<and> sess' = sess1 \<and> s' = s1))
         else r = r0 \<and> sess' = sess \<and> s' = s0))) \<and>
   (perform os op sess s = Some (r, sess', s') \<and> oo_persist (ss_opts sess) \<longrightarrow> \<not> is_err_lost r)"
proof
  have loop: "perform_loop os 3 op sess r0 s0 = Some (r, sess', s') \<longleftrightarrow>
      (\<exists>k sess1 r1 s1. k \<le> 3 \<and>
         retries (\<lambda>r m. is_err_lost r) (reopen_again os) op k (sess, r0, s0) (sess1, r1, s1) \<and>
         (\<not> is_err_lost r1 \<and> r = r1 \<and> sess' = sess1 \<and> s' = s1 \<or>
          k < 3 \<and> is_err_lost r1 \<and> reopen_again os sess1 s1 = (Some r, sess', s') \<or>
          k = 3 \<and> is_err_lost r1 \<and> r = Inl (Os ENODEV) \<and> sess' = sess1 \<and> s' = s1))" for r0 s0
    unfolding rs.loop_iff [where n = 3] by (intro ex_cong1) auto
  show "perform os op sess s = Some (r, sess', s') \<longleftrightarrow>
      (\<exists>r0 s0. op sess s = Some (r0, s0) \<and>
        (if oo_persist (ss_opts sess) then
           (\<exists>k sess1 r1 s1. k \<le> 3 \<and>
              retries (\<lambda>r m. is_err_lost r) (reopen_again os) op k (sess, r0, s0) (sess1, r1, s1) \<and>
              (\<not> is_err_lost r1 \<and> r = r1 \<and> sess' = sess1 \<and> s' = s1 \<or>
               k < 3 \<and> is_err_lost r1 \<and> reopen_again os sess1 s1 = (Some r, sess', s') \<or>
               k = 3 \<and> is_err_lost r1 \<and> r = Inl (Os ENODEV) \<and> sess' = sess1 \<and> s' = s1))
         else r = r0 \<and> sess' = sess \<and> s' = s0))"
    unfolding loop [symmetric]
    by (cases "op sess s") (auto simp: perform_def RETRIES_def split: prod.splits)
  show "perform os op sess s = Some (r, sess', s') \<and> oo_persist (ss_opts sess) \<longrightarrow> \<not> is_err_lost r"
    using perform_loop_never_lost by (blast elim: perform_persist)
qed

text \<open>The witness's operation always finds its connection reset.\<close>

theorem perform_outcome_witness:
  "\<exists>r sess' s'. perform stub_os (\<lambda>sess s. Some (Inl (Os ECONNRESET) :: unit result, s))
     \<lparr>ss_raw = \<lparr>sess_dev = \<lparr>dev_id = 0\<rparr>, sess_fd = 3, sess_flags = 0\<rparr>,
      ss_opts = \<lparr>oo_excl = False, oo_nonblock = False, oo_persist = True\<rparr>\<rparr> stub_mach = Some (r, sess', s') \<and>
     \<not> is_err_lost r"
proof -
  let ?op = "\<lambda>(sess :: session) (s :: stub_world mach). Some (Inl (Os ECONNRESET) :: unit result, s)"
  let ?x = "\<lparr>ss_raw = \<lparr>sess_dev = \<lparr>dev_id = 0\<rparr>, sess_fd = 3, sess_flags = 0\<rparr>,
      ss_opts = \<lparr>oo_excl = False, oo_nonblock = False, oo_persist = True\<rparr>\<rparr>"
  obtain r sess' s' where p: "perform stub_os ?op ?x stub_mach = Some (r, sess', s')"
    using rs.loop_total [where op = ?op and n = RETRIES and s = ?x and r = "Inl (Os ECONNRESET)"
        and m = stub_mach and os = stub_os]
    by (auto simp: perform_def)
  have "\<not> is_err_lost r"
    using perform_outcome [of stub_os ?op ?x stub_mach r sess' s', THEN conjunct2] p by simp
  then show ?thesis using p by blast
qed

section \<open>Sessions do not leak descriptors\<close>

text \<open>The descriptor a session holds.\<close>

definition holds :: "session \<Rightarrow> fd multiset" where
  "holds sess = (if sess_fd (ss_raw sess) < 0 then {#} else {#sess_fd (ss_raw sess)#})"

text \<open>Between \<open>s\<close> and \<open>s'\<close>, what was opened and not closed is what the session gained.\<close>

definition fd_books :: "session \<Rightarrow> 'w mach \<Rightarrow> session \<Rightarrow> 'w mach \<Rightarrow> bool" where
  "fd_books x s x' s' \<longleftrightarrow> extends s s' \<and>
     mset (opened (since s s')) + holds x = mset (closed (since s s')) + holds x'"

interpretation fd_ledger: ledger opened closed holds
  by unfold_locales simp_all

lemma fd_books_kept: "fd_books = kept opened closed holds"
  by (intro ext) (simp add: fd_books_def kept_def)

interpretation fds: account fd_books
  unfolding fd_books_kept by unfold_locales

lemmas fd_books_refl [simp] = fds.books_refl
lemmas fd_books_trans = fds.books_trans

definition closes :: "'w os \<Rightarrow> bool" where
  "closes os \<longleftrightarrow> (\<forall>f e w. fst (sys_close os f e w) = 0)"

lemma close_books:
  assumes "closes os" "tt_close os (Some ss) s = (rc, raw, s')"
  shows "extends s s'" "raw = Some (if sess_fd ss < 0 then ss else ss\<lparr>sess_fd := - 1\<rparr>)"
    "opened (since s s') = []" "closed (since s s') = (if sess_fd ss < 0 then [] else [sess_fd ss])"
proof -
  have "r = 0" if "k_close os f s = (r, s1)" for f r s1
    using assms(1) that by (metis call_fst closes_def fst_conv)
  then show "raw = Some (if sess_fd ss < 0 then ss else ss\<lparr>sess_fd := - 1\<rparr>)"
    using assms(2) by (auto simp: tt_close_def split: prod.splits if_splits)
  show "extends s s'" "opened (since s s') = []" "closed (since s s') = (if sess_fd ss < 0 then [] else [sess_fd ss])"
    using tt_close_trace [OF assms(2)] by auto
qed

text \<open>Reopening closes what the session held and opens what it holds after, nothing if it fails.\<close>

lemma reopen_trace:
  assumes "closes os" "reopen os x s = (r, x', s')"
  shows "extends s s'" "mset (opened (since s s')) = holds x'" "mset (closed (since s s')) = holds x"
proof -
  let ?ss = "ss_raw x"
  obtain cr raw1 s1 where c: "tt_close os (Some ?ss) s = (cr, raw1, s1)" by (metis prod_cases3)
  note cb = close_books [OF assms(1) c]
  let ?ss1 = "if sess_fd ?ss < 0 then ?ss else ?ss\<lparr>sess_fd := - 1\<rparr>"
  obtain rc raw2 s2 where o: "tt_open os (Some (sess_dev ?ss1)) (Some ?ss1) (sess_flags ?ss1) s1 = (rc, raw2, s2)"
    by (metis prod_cases3)
  note ot = tt_open_trace [OF o]
  have x': "s' = s2" "ss_raw x' = the raw2"
    using assms(2) c cb(2) o by (auto simp: reopen_def tt_reopen_def split: prod.splits)
  have raw2: "if rc = TT_OK then 0 \<le> sess_fd (the raw2) else raw2 = Some ?ss1"
    using tt_open_rc [OF o] tt_open_ok [of os _ _ _ s1 raw2 s2] tt_open_err(1) [of os _ _ _ s1 raw2 s2] o
    by fastforce
  show "extends s s'" "mset (opened (since s s')) = holds x'" "mset (closed (since s s')) = holds x"
    using cb ot raw2 x' trace_trans [OF cb(1) ot(1)]
    by (auto simp: holds_def split: if_splits)
qed

lemma reopen_books: "closes os \<Longrightarrow> reopen os x s = (r, x', s') \<Longrightarrow> fd_books x s x' s'"
  by (simp add: fd_books_def reopen_trace)

lemma reopen_ok_fd: "reopen os x s = (Inr u, x', s') \<Longrightarrow> 0 \<le> sess_fd (ss_raw x')"
  by (auto simp: reopen_def tt_reopen_def split: prod.splits dest!: tt_open_ok)

text \<open>An operation that leaves the session's descriptor alone.\<close>

definition steady_op :: "(session \<Rightarrow> 'w mach \<Rightarrow> ('a result \<times> 'w mach) option) \<Rightarrow> bool" where
  "steady_op op \<longleftrightarrow> (\<forall>x s r s'. op x s = Some (r, s') \<longrightarrow>
     extends s s' \<and> mset (opened (since s s')) = mset (closed (since s s')))"

lemma steady_books: "steady_op op \<Longrightarrow> op x s = Some (r, s') \<Longrightarrow> fd_books x s x s'"
  by (simp add: steady_op_def fd_books_def)

interpretation rs_fds: performing_account "perform_loop os" "\<lambda>r m. is_err_lost r" "reopen_again os"
    "\<lambda>m. (Inl (Os ENODEV), m)" "perform os" "\<lambda>x. oo_persist (ss_opts x)" RETRIES fd_books "closes os"
    for os :: "'w os"
  by unfold_locales (auto simp: reopen_again_def dest!: reopen_books split: prod.splits sum.splits)

lemma perform_books:
  "closes os \<Longrightarrow> steady_op op \<Longrightarrow> perform os op x s = Some (r, x', s') \<Longrightarrow> fd_books x s x' s'"
  by (rule rs_fds.perform_keeps) (auto intro: steady_books)

lemma drop_books:
  assumes "closes os"
  shows "extends s (session_drop os x s)" "opened (since s (session_drop os x s)) = []"
    "mset (closed (since s (session_drop os x s))) = holds x"
proof -
  obtain rc raw s' where c: "tt_close os (Some (ss_raw x)) s = (rc, raw, s')" by (metis prod_cases3)
  have "session_drop os x s = s'" using c by (simp add: session_drop_def session_close_def)
  with close_books [OF assms c]
  show "extends s (session_drop os x s)" "opened (since s (session_drop os x s)) = []"
    "mset (closed (since s (session_drop os x s))) = holds x"
    by (auto simp: holds_def)
qed

section \<open>What opening promises\<close>

lemma options_flags_known:
  "options_flags opts AND 3 = options_flags opts"
  "options_flags opts AND TT_OPEN_EXCL \<noteq> 0 \<longleftrightarrow> oo_excl opts"
  "options_flags opts AND TT_OPEN_NONBLOCK \<noteq> 0 \<longleftrightarrow> oo_nonblock opts"
  by (cases "oo_excl opts"; cases "oo_nonblock opts"; simp add: options_flags_def flag_defs)+

lemma options_open_run:
  assumes "options_open os opts dev s = (r, s')"
  shows "\<exists>oflags f. since s s' = [EvOpen (dev_path (device_raw dev)) oflags f] \<and>
    (oflags AND O_EXCL \<noteq> 0 \<longleftrightarrow> oo_excl opts) \<and> (oflags AND O_NONBLOCK \<noteq> 0 \<longleftrightarrow> oo_nonblock opts) \<and>
    (if f < 0 then r \<in> {Inl (Os EAGAIN), Inl (Os ENODEV)}
     else \<exists>sess. r = Inr sess \<and> session_dev sess = dev \<and> ss_opts sess = opts \<and> sess_fd (ss_raw sess) = f)"
proof -
  have fl: "open_flags fl AND O_EXCL \<noteq> 0 \<longleftrightarrow> fl AND TT_OPEN_EXCL \<noteq> 0"
    "open_flags fl AND O_NONBLOCK \<noteq> 0 \<longleftrightarrow> fl AND TT_OPEN_NONBLOCK \<noteq> 0" for fl
    by (simp_all add: open_flags_def O_EXCL_def O_NONBLOCK_def O_APPEND_def O_RDWR_def
        O_CLOEXEC_def Let_def)
  obtain f s1 where k: "k_open os (dev_path (device_raw dev)) (open_flags (options_flags opts)) s = (f, s1)"
    by (metis prod.exhaust)
  have s: "since s s' = [EvOpen (dev_path (device_raw dev)) (open_flags (options_flags opts)) f]"
    "if f < 0 then r \<in> {Inl (Os EAGAIN), Inl (Os ENODEV)}
     else \<exists>sess. r = Inr sess \<and> session_dev sess = dev \<and> ss_opts sess = opts \<and> sess_fd (ss_raw sess) = f"
    using assms k call_trace [OF k] options_flags_known(1) [of opts]
    by (cases dev;
        auto simp: options_open_def tt_open_known_flags session_dev_def since_eq split: if_splits)+
  show ?thesis
    by (intro exI [of _ "open_flags (options_flags opts)"] exI [of _ f] conjI s)
      (simp_all add: fl options_flags_known)
qed

lemma options_open_extends: "options_open os opts dev s = (r, s') \<Longrightarrow> extends s s'"
  using tt_open_trace(1) [of os _ _ _ s] by (auto simp: options_open_def checked_def split: prod.splits)

text \<open>
  The options reach the C library as exactly the two flags it knows (persistence is the binding's
  own), so opening never fails with \<open>EINVAL\<close>: it yields a session on the device with these
  options, on the descriptor just opened, or fails with \<open>EAGAIN\<close> or \<open>ENODEV\<close> and opens nothing.
\<close>

theorem options_open_outcome:
  assumes "options_open os opts dev s = (r, s')"
  shows "\<exists>oflags f. since s s' = [EvOpen (dev_path (device_raw dev)) oflags f] \<and>
    (oflags AND O_EXCL \<noteq> 0 \<longleftrightarrow> oo_excl opts) \<and> (oflags AND O_NONBLOCK \<noteq> 0 \<longleftrightarrow> oo_nonblock opts) \<and>
    (if f < 0 then r \<in> {Inl (Os EAGAIN), Inl (Os ENODEV)}
     else \<exists>sess. r = Inr sess \<and> session_dev sess = dev \<and> ss_opts sess = opts \<and> sess_fd (ss_raw sess) = f)"
  by (rule options_open_run [OF assms])

theorem options_open_outcome_witness:
  "\<exists>oflags f. since stub_mach (snd (options_open stub_os (options_exclusive True options_new)
     (Dev \<lparr>dev_id = 4\<rparr>) stub_mach)) = [EvOpen (dev_path \<lparr>dev_id = 4\<rparr>) oflags f] \<and> oflags AND O_EXCL \<noteq> 0"
proof -
  obtain r s' where o: "options_open stub_os (options_exclusive True options_new) (Dev \<lparr>dev_id = 4\<rparr>) stub_mach
      = (r, s')"
    by (metis prod.exhaust)
  from options_open_outcome [OF o] o show ?thesis
    by (auto simp: options_exclusive_def options_new_def)
qed

section \<open>What scanning promises\<close>

lemma scan_loop_step:
  assumes "k_opendir os ''/dev/tenstorrent'' s = (dir, s1)"
  shows "\<exists>s2. scan_loop os cap s =
    (case dir of
       None \<Rightarrow> Some (if errno s1 = ENOENT then Inr [] else Inl (Os (errno s1)), s1)
     | Some es \<Rightarrow>
         if length (listed es) \<le> cap then Some (Inr (map Dev (listed es)), s2)
         else scan_loop os (length (listed es) * 2) s2)"
proof (cases dir)
  case None
  then show ?thesis
    using assms by (subst scan_loop.simps) (auto simp: tt_dev_scan_def last_error_def)
next
  case (Some es)
  obtain s2 where "tt_dev_scan os cap (replicate cap uninit_device) s =
      (int (length (listed es)), take cap (listed es) @ drop (length (listed es)) (replicate cap uninit_device), s2)"
    using tt_dev_scan_some [OF assms [unfolded Some], of "replicate cap uninit_device" cap] by auto
  then show ?thesis
    using Some by (subst scan_loop.simps) (auto intro!: exI [of _ s2])
qed

lemma scan_loop_returns:
  assumes "\<And>s es s1. k_opendir os ''/dev/tenstorrent'' s = (Some es, s1) \<Longrightarrow> length (listed es) \<le> N"
  shows "\<exists>r s'. scan_loop os cap s = Some (r, s') \<and>
    (\<exists>t dir t1. k_opendir os ''/dev/tenstorrent'' t = (dir, t1) \<and>
       r = (case dir of Some es \<Rightarrow> Inr (map Dev (listed es))
            | None \<Rightarrow> if errno t1 = ENOENT then Inr [] else Inl (Os (errno t1))))"
proof (induction "N - cap" arbitrary: cap s rule: less_induct)
  case less
  obtain dir s1 where d: "k_opendir os ''/dev/tenstorrent'' s = (dir, s1)" by (metis prod.exhaust)
  obtain s2 where st: "scan_loop os cap s =
    (case dir of
       None \<Rightarrow> Some (if errno s1 = ENOENT then Inr [] else Inl (Os (errno s1)), s1)
     | Some es \<Rightarrow>
         if length (listed es) \<le> cap then Some (Inr (map Dev (listed es)), s2)
         else scan_loop os (length (listed es) * 2) s2)"
    using scan_loop_step [OF d, of cap] by blast
  show ?case
  proof (cases dir)
    case None
    show ?thesis
      unfolding st None option.case
      by (intro exI conjI, rule refl, rule d [unfolded None]) simp
  next
    case (Some es)
    note dd = d [unfolded Some]
    show ?thesis
    proof (cases "length (listed es) \<le> cap")
      case True
      then show ?thesis unfolding st Some using dd by (auto split: option.split)
    next
      case False
      then have "N - length (listed es) * 2 < N - cap"
        using assms [OF dd] by simp
      from less.hyps [OF this, of s2] show ?thesis
        unfolding st Some using False by simp
    qed
  qed
qed

text \<open>
  A scan returns however many devices there are and however their number changes between its
  attempts, as long as it stays below some bound: the result is exactly the devices one listing
  of the directory held, in its order, none for a missing directory, and otherwise the listing's error.
\<close>

theorem scan_returns:
  assumes "\<forall>s es s1. k_opendir os ''/dev/tenstorrent'' s = (Some es, s1) \<longrightarrow> length (listed es) \<le> N"
  shows "\<exists>r s'. scan os s = Some (r, s') \<and>
    (\<exists>t dir t1. k_opendir os ''/dev/tenstorrent'' t = (dir, t1) \<and>
       r = (case dir of Some es \<Rightarrow> Inr (map Dev (listed es))
            | None \<Rightarrow> if errno t1 = ENOENT then Inr [] else Inl (Os (errno t1))))"
  unfolding scan_def using assms by (intro scan_loop_returns) blast

text \<open>The witness's directory lists forty devices, more than the first attempt's buffer holds.\<close>

theorem scan_returns_witness:
  "\<exists>s'. scan (stub_os\<lparr>sys_opendir := (\<lambda>_. ret0 (Some (replicate 40 \<lparr>d_type = DT_CHR, d_name = ''0''\<rparr>)))\<rparr>) stub_mach
     = Some (Inr (replicate 40 (Dev \<lparr>dev_id = 0\<rparr>)), s')"
proof -
  let ?es = "replicate 40 \<lparr>d_type = DT_CHR, d_name = ''0''\<rparr>"
  let ?os = "stub_os\<lparr>sys_opendir := (\<lambda>_. ret0 (Some ?es))\<rparr>"
  have o: "k_opendir ?os ''/dev/tenstorrent'' s = (dir, s1) \<longleftrightarrow>
      dir = Some ?es \<and> s1 = s\<lparr>trace := trace s @ [EvOpendir ''/dev/tenstorrent'']\<rparr>"
    for s :: "stub_world mach" and dir s1
    by (auto simp: call_def ret0_def)
  then have "\<forall>s es s1. k_opendir ?os ''/dev/tenstorrent'' s = (Some es, s1) \<longrightarrow> length (listed es) \<le> 40"
    by (simp add: listed_replicate)
  from scan_returns [OF this, of stub_mach] show ?thesis
    unfolding o by (auto simp: listed_replicate)
qed

text \<open>
  A path with an interior nul byte is refused before the C library is called; any other path is
  the C library's to resolve, and a device comes back exactly when it resolves one.
\<close>

theorem try_from_path_outcome:
  "try_from_path os path s =
    (if CHR 0x00 \<in> set path then (Inl (Simple InvalidInput), s)
     else case tt_dev_from_path os (Some path) (Some uninit_device) s of (rc, d, s') \<Rightarrow>
       (if rc = TT_OK then Inr (Dev (the d)) else Inl (Os (errno s')), s')) \<and>
   fst (try_from_path os path s) \<noteq> Inl (Os ECONNRESET)"
  by (auto simp: try_from_path_def cstring_def tt_dev_from_path_def split: prod.splits option.splits)

end
