(* ===== verification/RsPci.thy ===== *)
theory RsPci
  imports RsSession
begin

text \<open>
  \<open>src/bind/rs/src/pci.rs\<close>: PCI addresses with their order and their text form, and the lookup
  of a device by its address (\<open>dev/mod.rs\<close>). The text form is a \<open>codec\<close>: a locale of a printer
  and of a parser that reads back what the printer prints.
\<close>

section \<open>Printers and parsers\<close>

locale codec =
  fixes print :: "'a \<Rightarrow> string"
    and parse :: "string \<Rightarrow> 'e + 'a"
  assumes parse_print: "parse (print x) = Inr x"
begin

lemma print_inj: "print x = print y \<longleftrightarrow> x = y"
  using parse_print by (metis sum.inject(2))

text \<open>Printing what was parsed normalises: it parses to the same value, once and for all.\<close>

lemma normalise: "parse t = Inr x \<Longrightarrow> parse (print x) = parse t \<and> print (projr (parse (print x))) = print x"
  by (simp add: parse_print)

lemma same_value: "parse t = Inr x \<Longrightarrow> parse u = Inr y \<Longrightarrow> print x = print y \<longleftrightarrow> parse t = parse u"
  by (simp add: print_inj)

end

section \<open>Addresses\<close>

datatype address = Address (a_domain: u16) (a_bus: u8) (a_device: u8) (a_function: u8)

definition address_new :: "u16 \<Rightarrow> u8 \<Rightarrow> u8 \<Rightarrow> u8 \<Rightarrow> address" where
  "address_new d b v f = Address d b v f"

definition address_domain :: "address \<Rightarrow> u16" where "address_domain a = a_domain a"
definition address_bus :: "address \<Rightarrow> u8" where "address_bus a = a_bus a"
definition address_device :: "address \<Rightarrow> u8" where "address_device a = a_device a"
definition address_function :: "address \<Rightarrow> u8" where "address_function a = a_function a"

text \<open>The derived \<open>Ord\<close> compares the fields in their order; it is the order of the type.\<close>

definition address_le :: "address \<Rightarrow> address \<Rightarrow> bool" where
  "address_le a b \<longleftrightarrow> a_domain a < a_domain b \<or> a_domain a = a_domain b \<and>
     (a_bus a < a_bus b \<or> a_bus a = a_bus b \<and>
       (a_device a < a_device b \<or> a_device a = a_device b \<and> a_function a \<le> a_function b))"

instantiation address :: linorder
begin

definition less_eq_address :: "address \<Rightarrow> address \<Rightarrow> bool" where
  "a \<le> b \<longleftrightarrow> address_le a b"

definition less_address :: "address \<Rightarrow> address \<Rightarrow> bool" where
  "a < b \<longleftrightarrow> a \<le> b \<and> \<not> b \<le> (a :: address)"

instance
  by standard (auto simp: address_le_def less_eq_address_def less_address_def intro: address.expand)

end

section \<open>Text\<close>

definition address_display :: "address \<Rightarrow> string" where
  "address_display a =
     hex0 4 (unat (a_domain a)) @ '':'' @ hex0 2 (unat (a_bus a)) @ '':'' @
     hex0 2 (unat (a_device a)) @ ''.'' @ show_hex (unat (a_function a))"

datatype addr_parse_error = AddrParseError unit

definition addr_parse_error_display :: "addr_parse_error \<Rightarrow> string" where
  "addr_parse_error_display e = ''invalid PCI address''"

text \<open>\<open>ok_or(err)?\<close> and \<open>map_err(|_| err)?\<close>: the rest runs on the value, if there is one.\<close>

definition ok_or :: "'e \<Rightarrow> 'a option \<Rightarrow> ('a \<Rightarrow> 'e + 'b) \<Rightarrow> 'e + 'b" where
  "ok_or err x k = (case x of None \<Rightarrow> Inl err | Some v \<Rightarrow> k v)"

definition address_from_str :: "string \<Rightarrow> addr_parse_error + address" where
  "address_from_str s =
     (let err = AddrParseError ();
          colon_count = length (filter (\<lambda>c. c = CHR '':'') s)
      in if colon_count = 2 then
           ok_or err (split_once CHR '':'' s) (\<lambda>(domain_s, rest).
           ok_or err (split_once CHR '':'' rest) (\<lambda>(bus_s, devfn_s).
           ok_or err (split_once CHR ''.'' devfn_s) (\<lambda>(dev_s, fn_s).
           ok_or err (from_str_radix16 16 domain_s) (\<lambda>d.
           ok_or err (from_str_radix16 8 bus_s) (\<lambda>b.
           ok_or err (from_str_radix16 8 dev_s) (\<lambda>v.
           ok_or err (from_str_radix16 8 fn_s) (\<lambda>f.
             Inr (address_new (of_nat d) (of_nat b) (of_nat v) (of_nat f)))))))))
         else if colon_count = 1 then
           ok_or err (split_once CHR '':'' s) (\<lambda>(bus_s, devfn_s).
           ok_or err (split_once CHR ''.'' devfn_s) (\<lambda>(dev_s, fn_s).
           ok_or err (from_str_radix16 8 bus_s) (\<lambda>b.
           ok_or err (from_str_radix16 8 dev_s) (\<lambda>v.
           ok_or err (from_str_radix16 8 fn_s) (\<lambda>f.
             Inr (address_new 0 (of_nat b) (of_nat v) (of_nat f)))))))
         else Inl err)"

section \<open>Lookup\<close>

text \<open>\<open>CString::new\<close> on the printed address; \<open>junk\<close> is the uninitialised scan buffer.\<close>

definition try_from_addr ::
  "'w os \<Rightarrow> tt_device list \<Rightarrow> address \<Rightarrow> 'w mach \<Rightarrow> (device result \<times> 'w mach) defined" where
  "try_from_addr os junk addr s =
     (case cstring (address_display addr) of
        None \<Rightarrow> Defined (Inl (Simple InvalidInput), s)
      | Some bdf \<Rightarrow> (case tt_dev_from_bdf os junk (Some bdf) (Some uninit_device) s of
          Undefined \<Rightarrow> Undefined
        | Defined p \<Rightarrow> (case checked p of (r, s1) \<Rightarrow> Defined (map_sum id Dev r, s1))))"

section \<open>What parsing promises\<close>

lemma u_less: "unat (x :: 'a::len word) < 2 ^ LENGTH('a)"
  by (rule unsigned_less)

lemma show_hex_eq: "show_hex n = hex0 1 n"
proof -
  have "1 \<le> length (show_hex n)" by (simp add: show_hex_def Suc_le_eq)
  then show ?thesis by (simp add: hex0_def pad0_def)
qed

lemma split_once_Some: "split_once d s = Some (a, b) \<longleftrightarrow> s = a @ d # b \<and> d \<notin> set a"
proof
  show "split_once d s = Some (a, b) \<Longrightarrow> s = a @ d # b \<and> d \<notin> set a"
    by (induction s arbitrary: a b) (auto split: if_splits option.splits)
qed (auto simp: split_once_append)

lemma ok_or_Inr: "ok_or err x k = Inr y \<longleftrightarrow> (\<exists>v. x = Some v \<and> k v = Inr y)"
  by (cases x) (simp_all add: ok_or_def)

lemma ok_or_simps [simp]: "ok_or err (Some v) k = k v" "ok_or err None k = Inl err"
  by (simp_all add: ok_or_def)

text \<open>A field that parses is made of hexadecimal digits, with an optional plus sign.\<close>

lemma from_str_radix16_field:
  assumes "from_str_radix16 bits s = Some n"
  shows "n < 2 ^ bits" "CHR '':'' \<notin> set s" "CHR ''.'' \<notin> set s"
proof -
  let ?ds = "case s of c # r \<Rightarrow> if c = CHR ''+'' \<and> r \<noteq> [] then r else s | [] \<Rightarrow> []"
  have d: "digit_val 16 CHR '':'' = None" "digit_val 16 CHR ''.'' = None"
    by (simp_all add: digit_val_def Let_def)
  have ds: "\<forall>c \<in> set ?ds. digit_val 16 c \<noteq> None"
    using assms by (simp add: from_str_radix16_def Let_def split: if_splits)
  have s: "set s \<subseteq> insert CHR ''+'' (set ?ds)"
    by (cases s) auto
  show "n < 2 ^ bits"
    using assms by (auto simp: from_str_radix16_def Let_def split: if_splits)
  have "c \<in> set s \<Longrightarrow> c = CHR ''+'' \<or> digit_val 16 c \<noteq> None" for c
    using ds s by blast
  from this [of "CHR '':''"] this [of "CHR ''.''"] d
  show "CHR '':'' \<notin> set s" "CHR ''.'' \<notin> set s" by auto
qed

lemma filter_colons: "c \<notin> set s \<Longrightarrow> filter (\<lambda>x. x = c) s = []"
  by (simp add: filter_empty_conv) blast

text \<open>The fields of an address, and the number each denotes.\<close>

definition fields :: "string \<Rightarrow> string \<Rightarrow> string \<Rightarrow> address \<Rightarrow> bool" where
  "fields bs vs fs a \<longleftrightarrow> from_str_radix16 8 bs = Some (unat (a_bus a)) \<and>
     from_str_radix16 8 vs = Some (unat (a_device a)) \<and>
     from_str_radix16 8 fs = Some (unat (a_function a))"

lemma fields_no_sep:
  assumes "fields bs vs fs a"
  shows "CHR '':'' \<notin> set bs" "CHR '':'' \<notin> set vs" "CHR '':'' \<notin> set fs" "CHR ''.'' \<notin> set vs"
  using assms from_str_radix16_field by (auto simp: fields_def)

lemma parse_long:
  assumes "from_str_radix16 16 ds = Some (unat (a_domain a))" "fields bs vs fs a"
  shows "address_from_str (ds @ '':'' @ bs @ '':'' @ vs @ ''.'' @ fs) = Inr a"
proof -
  note n = fields_no_sep [OF assms(2)] from_str_radix16_field(2) [OF assms(1)]
  show ?thesis
    using assms n
    by (cases a) (simp add: address_from_str_def filter_colons split_once_append fields_def address_new_def)
qed

lemma parse_short:
  assumes "fields bs vs fs a" "a_domain a = 0"
  shows "address_from_str (bs @ '':'' @ vs @ ''.'' @ fs) = Inr a"
  using assms fields_no_sep [OF assms(1)]
  by (cases a) (simp add: address_from_str_def filter_colons split_once_append fields_def address_new_def)

interpretation addr: codec address_display address_from_str
proof
  fix a :: address
  have "fields (hex0 2 (unat (a_bus a))) (hex0 2 (unat (a_device a))) (show_hex (unat (a_function a))) a"
    unfolding fields_def show_hex_eq
    using u_less [of "a_bus a"] u_less [of "a_device a"] u_less [of "a_function a"]
    by (simp add: from_str_radix16_hex0)
  moreover have "from_str_radix16 16 (hex0 4 (unat (a_domain a))) = Some (unat (a_domain a))"
    using u_less [of "a_domain a"] by (simp add: from_str_radix16_hex0)
  ultimately show "address_from_str (address_display a) = Inr a"
    unfolding address_display_def by (rule parse_long [rotated])
qed

text \<open>
  C19: every address, its fields in range of a real device or not, prints to a text that parses back to it.
\<close>

theorem address_roundtrip:
  "address_from_str (address_display a) = Inr a"
  by (rule addr.parse_print)

text \<open>
  C20: the parser accepts exactly the two documented forms, \<open>D:B:V.F\<close> and \<open>B:V.F\<close>, with each field a
  hexadecimal number of any length and with an optional plus sign that fits its width; the domain
  of the short form is zero.
\<close>

theorem address_parse_iff:
  "address_from_str s = Inr a \<longleftrightarrow>
    (\<exists>bs vs fs. fields bs vs fs a \<and>
      (a_domain a = 0 \<and> s = bs @ '':'' @ vs @ ''.'' @ fs \<or>
       (\<exists>ds. from_str_radix16 16 ds = Some (unat (a_domain a)) \<and>
          s = ds @ '':'' @ bs @ '':'' @ vs @ ''.'' @ fs)))"
proof
  assume p: "address_from_str s = Inr a"
  have f: "from_str_radix16 8 t = Some n \<Longrightarrow> unat (of_nat n :: u8) = n" for t n
    using from_str_radix16_field(1) [of 8 t n] by (simp add: unsigned_of_nat take_bit_nat_eq_self)
  have g: "from_str_radix16 16 t = Some n \<Longrightarrow> unat (of_nat n :: u16) = n" for t n
    using from_str_radix16_field(1) [of 16 t n] by (simp add: unsigned_of_nat take_bit_nat_eq_self)
  have "length (filter (\<lambda>c. c = CHR '':'') s) = 2 \<or> length (filter (\<lambda>c. c = CHR '':'') s) = 1"
    using p by (auto simp: address_from_str_def Let_def split: if_splits)
  then show "\<exists>bs vs fs. fields bs vs fs a \<and>
      (a_domain a = 0 \<and> s = bs @ '':'' @ vs @ ''.'' @ fs \<or>
       (\<exists>ds. from_str_radix16 16 ds = Some (unat (a_domain a)) \<and>
          s = ds @ '':'' @ bs @ '':'' @ vs @ ''.'' @ fs))"
  proof
    assume "length (filter (\<lambda>c. c = CHR '':'') s) = 2"
    then obtain ds bs vs fs where "s = ds @ '':'' @ bs @ '':'' @ vs @ ''.'' @ fs"
      "from_str_radix16 16 ds = Some (unat (a_domain a))" "fields bs vs fs a"
      using p f g
      by (auto simp: address_from_str_def Let_def ok_or_Inr split_once_Some address_new_def fields_def)
    then show ?thesis by blast
  next
    assume "length (filter (\<lambda>c. c = CHR '':'') s) = 1"
    then obtain bs vs fs where "s = bs @ '':'' @ vs @ ''.'' @ fs" "fields bs vs fs a" "a_domain a = 0"
      using p f
      by (auto simp: address_from_str_def Let_def ok_or_Inr split_once_Some address_new_def fields_def)
    then show ?thesis by blast
  qed
qed (use parse_long parse_short in blast)

section \<open>What lookup promises\<close>

text \<open>Where a device's information says it is.\<close>

definition located :: "kmd_device_info \<Rightarrow> address" where
  "located q = Address (k_pci_domain q) (ucast (drop_bit 8 (k_bus_dev_fn q) AND 0xFF))
     (ucast (drop_bit 3 (k_bus_dev_fn q) AND 0x1F)) (ucast (k_bus_dev_fn q AND 7))"

lemma bdf_text_display:
  "bdf_text (unat (a_domain a)) (unat (a_bus a)) (unat (a_device a)) (unat (a_function a)) = address_display a"
proof -
  have "length (hex0 4 (unat (a_domain a))) = 4" "length (hex0 2 (unat (a_bus a))) = 2"
    "length (hex0 2 (unat (a_device a))) = 2" "length (show_hex (unat (a_function a))) \<le> 2"
    using u_less [of "a_domain a"] u_less [of "a_bus a"] u_less [of "a_device a"]
      u_less [of "a_function a"] show_base_length [of 16 2 "unat (a_function a)"]
    by (simp_all add: hex0_length show_hex_def)
  then show ?thesis
    by (simp add: bdf_text_def address_display_def show_hex_eq)
qed

lemma parse_bdf_display: "parse_bdf (address_display a) = Some (address_display a)"
proof -
  have "unat (a_domain a) < 2 ^ 32" "unat (a_bus a) < 2 ^ 32" "unat (a_device a) < 2 ^ 32"
    "unat (a_function a) < 2 ^ 32"
    using u_less [of "a_domain a"] u_less [of "a_bus a"] u_less [of "a_device a"]
      u_less [of "a_function a"] by simp_all
  then show ?thesis
    using scan_hex_hex0 [of "[]" "unat (a_function a)" 1]
    by (simp add: parse_bdf_def address_display_def show_hex_eq scan_hex_hex0
        bdf_text_display [of a, unfolded address_display_def show_hex_eq append_Cons append_Nil])
qed

lemma address_display_no_nul: "cstring (address_display a) = Some (address_display a)"
proof -
  have "digit d \<noteq> CHR 0x00" if "d < 16" for d
    using that digit_val_digit [of d 16] by (auto simp: digit_val_def Let_def)
  then have "CHR 0x00 \<notin> set (hex0 w n)" for w n
    using hex0_digits [of _ w n] by fastforce
  then show ?thesis by (simp add: cstring_def address_display_def show_hex_eq)
qed

lemma unat_byte:
  fixes x :: u16
  assumes "x AND 0xFF = x"
  shows "unat (ucast x :: u8) = unat x"
proof -
  have "take_bit 8 x = x" using assms by (simp add: take_bit_eq_mask mask_numeral)
  then have "take_bit 8 (unat x) = unat x" using unsigned_take_bit_eq [of 8 x, where ?'a = nat] by simp
  then show ?thesis by (simp add: unsigned_ucast_eq)
qed

lemma info_bdf_located: "info_bdf (unpack_info q) = address_display (located q)"
proof -
  let ?x = "k_bus_dev_fn q"
  have "unat (ucast (drop_bit 8 ?x AND 0xFF) :: u8) = unat (drop_bit 8 ?x AND 0xFF)"
    "unat (ucast (drop_bit 3 ?x AND 0x1F) :: u8) = unat (drop_bit 3 ?x AND 0x1F)"
    "unat (ucast (?x AND 7) :: u8) = unat (?x AND 7)"
    by (rule unat_byte, simp add: and.assoc)+
  then show ?thesis
    using bdf_text_display [of "located q"]
    by (simp only: info_bdf_def unpack_info_def located_def address.sel tt_dev_info.simps)
qed



end
