(* ===== verification/RsTlb.thy ===== *)
theory RsTlb
  imports RsSession Tlb
begin

text \<open>
  \<open>src/bind/rs/src/dev/tlb.rs\<close>: windows of the Rust binding. A \<open>Tlb\<close> borrows its session, so its
  methods take the session as it is at the call, and a \<open>Window\<close> is the exclusive borrow of a
  bound \<open>Tlb\<close>. \<open>free\<close> consumes the value and \<open>drop\<close> is \<open>free\<close> with its result discarded.
\<close>

section \<open>Data\<close>

datatype tlb_size = Mb1 | Mb2 | Mb16 | Gb4

fun size_raw :: "tlb_size \<Rightarrow> u64" where
  "size_raw Mb1 = TT_TLB_1MB"
| "size_raw Mb2 = TT_TLB_2MB"
| "size_raw Mb16 = TT_TLB_16MB"
| "size_raw Gb4 = TT_TLB_4GB"

datatype caching = Uncached | WriteCombined

fun caching_raw :: "caching \<Rightarrow> u32" where
  "caching_raw Uncached = TT_TLB_UC"
| "caching_raw WriteCombined = TT_TLB_WC"

datatype rs_tlb = RsTlb (tlb_raw: tt_tlb)

datatype window = Window (window_tlb: rs_tlb)

definition uninit_tlb :: tt_tlb where
  "uninit_tlb = \<lparr>tlb_id = 0, tlb_ptr = 0, tlb_idx = 0, tlb_len = 0\<rparr>"

section \<open>Operations\<close>

definition rs_bind ::
  "'w os \<Rightarrow> session \<Rightarrow> rs_tlb \<Rightarrow> tt_tlb_config \<Rightarrow> 'w mach \<Rightarrow> window result \<times> rs_tlb \<times> 'w mach" where
  "rs_bind os dev t cfg s =
     (case tt_tlb_bind os (session_ptr dev) (Some (tlb_raw t)) (Some cfg) s of (rc, raw, s1) \<Rightarrow>
        let t1 = RsTlb (the raw) in (map_sum id (\<lambda>_. Window t1) (check rc s1), t1, s1))"

definition rs_free :: "'w os \<Rightarrow> session \<Rightarrow> rs_tlb \<Rightarrow> 'w mach \<Rightarrow> unit result \<times> 'w mach" where
  "rs_free os dev t s =
     (case tt_tlb_free os (session_ptr dev) (Some (tlb_raw t)) s of (rc, _, s1) \<Rightarrow> (check rc s1, s1))"

definition rs_tlb_drop :: "'w os \<Rightarrow> session \<Rightarrow> rs_tlb \<Rightarrow> 'w mach \<Rightarrow> 'w mach" where
  "rs_tlb_drop os dev t s = snd (rs_free os dev t s)"

definition window_size :: "window \<Rightarrow> u64" where
  "window_size w = tlb_len (tlb_raw (window_tlb w))"

text \<open>A volatile access of \<open>n = size_of::<T>()\<close> bytes.\<close>

definition window_read :: "'w os \<Rightarrow> nat \<Rightarrow> window \<Rightarrow> u64 \<Rightarrow> 'w mach \<Rightarrow> u64 option \<times> 'w mach" where
  "window_read os n w offset s =
     (let p = tlb_ptr (tlb_raw (window_tlb w)) + offset in k_load os p n s)"

definition window_write :: "'w os \<Rightarrow> nat \<Rightarrow> window \<Rightarrow> u64 \<Rightarrow> u64 \<Rightarrow> 'w mach \<Rightarrow> bool \<times> 'w mach" where
  "window_write os n w offset val s =
     (let p = tlb_ptr (tlb_raw (window_tlb w)) + offset in k_store os p n val s)"

definition rs_alloc ::
  "'w os \<Rightarrow> tlb_size \<Rightarrow> caching \<Rightarrow> session \<Rightarrow> 'w mach \<Rightarrow> (rs_tlb result \<times> session \<times> 'w mach) option" where
  "rs_alloc os sz mode sess s =
     (case perform os (\<lambda>sess s. Some (checked (tt_tlb_alloc os (session_ptr sess)
          (size_raw sz) (caching_raw mode) (Some uninit_tlb) s))) sess s of
        None \<Rightarrow> None
      | Some (r, sess1, s1) \<Rightarrow> Some (map_sum id RsTlb r, sess1, s1))"

section \<open>What allocation promises\<close>

lemma alloc_step:
  assumes "tt_tlb_alloc os (Some ss) (size_raw sz) (caching_raw mode) (Some t0) s = (TT_OK, raw, s')"
  shows "\<exists>a :: kmd_tlb_alloc. 0 \<le> sess_fd ss \<and> since s s' = [EvIoctl (sess_fd ss) (IoAllocTlb (size_raw sz)) 0] \<and>
    raw = Some \<lparr>tlb_id = k_id a, tlb_ptr = 0,
      tlb_idx = (if mode = Uncached then k_mmap_offset_uc a else k_mmap_offset_wc a),
      tlb_len = size_raw sz\<rparr>"
proof -
  obtain r a s1 where k: "k_alloc_tlb os (sess_fd ss) (size_raw sz) s = ((r, a), s1)"
    by (metis prod.exhaust)
  then show ?thesis
    using assms
    by (intro exI [of _ a])
      (cases mode; auto simp: tt_tlb_alloc_def TT_TLB_UC_def TT_TLB_WC_def since_eq
        split: if_splits dest!: call_trace)
qed

lemma alloc_steady:
  "steady_op (\<lambda>sess s. Some (checked (tt_tlb_alloc os (session_ptr sess) sz mode (Some t) s)))"
proof -
  have "extends s s' \<and> opened (since s s') = [] \<and> closed (since s s') = []"
    if "tt_tlb_alloc os (Some ss) sz mode (Some t) s = (rc, raw, s')" for ss s rc raw s'
    using tlb_alloc.steady that by (metis fst_conv op3_eq snd_conv)
  then show ?thesis by (auto simp: steady_op_def checked_def split: prod.splits)
qed

lemma rs_alloc_ok:
  assumes "rs_alloc os sz mode sess s = Some (Inr t, sess', s')"
  shows "\<exists>s0 (a :: kmd_tlb_alloc). 0 \<le> sess_fd (ss_raw sess') \<and>
    since s0 s' = [EvIoctl (sess_fd (ss_raw sess')) (IoAllocTlb (2 ^ (case sz of Mb1 \<Rightarrow> 20 | Mb2 \<Rightarrow> 21 | Mb16 \<Rightarrow> 24 | Gb4 \<Rightarrow> 32))) 0] \<and>
    t = RsTlb \<lparr>tlb_id = k_id a, tlb_ptr = 0,
      tlb_idx = (if mode = Uncached then k_mmap_offset_uc a else k_mmap_offset_wc a),
      tlb_len = size_raw sz\<rparr>"
proof -
  obtain raw where p: "perform os (\<lambda>sess s. Some (checked (tt_tlb_alloc os (session_ptr sess)
          (size_raw sz) (caching_raw mode) (Some uninit_tlb) s))) sess s = Some (Inr raw, sess', s')"
    and t: "t = RsTlb raw"
    using assms by (auto simp: rs_alloc_def map_sum_def split: option.splits prod.splits sum.splits)
  obtain s0 where "checked (tt_tlb_alloc os (session_ptr sess')
          (size_raw sz) (caching_raw mode) (Some uninit_tlb) s0) = (Inr raw, s')"
    using perform_ok [OF p] by blast
  then obtain raw' where a: "tt_tlb_alloc os (Some (ss_raw sess')) (size_raw sz) (caching_raw mode)
      (Some uninit_tlb) s0 = (TT_OK, raw', s')" "raw = the raw'"
    by (auto simp: checked_def map_sum_def split: prod.splits sum.splits)
  have "size_raw sz = 2 ^ (case sz of Mb1 \<Rightarrow> 20 | Mb2 \<Rightarrow> 21 | Mb16 \<Rightarrow> 24 | Gb4 \<Rightarrow> 32)"
    by (cases sz) (simp_all add: TT_TLB_1MB_def TT_TLB_2MB_def TT_TLB_16MB_def TT_TLB_4GB_def)
  then show ?thesis
    using alloc_step [OF a(1)] a(2) t by auto
qed

lemma rs_alloc_fresh:
  "rs_alloc os sz mode sess s = Some (Inr t, sess', s') \<Longrightarrow>
   0 \<le> sess_fd (ss_raw sess') \<and> tlb_ptr (tlb_raw t) = 0 \<and> tlb_len (tlb_raw t) = size_raw sz"
  using rs_alloc_ok by fastforce

text \<open>
  A successful allocation is the driver's, made on the session the call leaves behind, of exactly
  the size the variant names and with the mapping offset of the cache mode asked for; the window
  is not mapped yet.
\<close>

theorem rs_alloc_window:
  assumes "rs_alloc os sz mode sess s = Some (Inr t, sess', s')"
  shows "\<exists>s0 (a :: kmd_tlb_alloc). 0 \<le> sess_fd (ss_raw sess') \<and>
    since s0 s' = [EvIoctl (sess_fd (ss_raw sess')) (IoAllocTlb (2 ^ (case sz of Mb1 \<Rightarrow> 20 | Mb2 \<Rightarrow> 21 | Mb16 \<Rightarrow> 24 | Gb4 \<Rightarrow> 32))) 0] \<and>
    t = RsTlb \<lparr>tlb_id = k_id a, tlb_ptr = 0,
      tlb_idx = (if mode = Uncached then k_mmap_offset_uc a else k_mmap_offset_wc a),
      tlb_len = size_raw sz\<rparr>"
  by (rule rs_alloc_ok [OF assms])

theorem rs_alloc_window_witness:
  "\<exists>t sess' s'. rs_alloc stub_os Mb2 WriteCombined
     \<lparr>ss_raw = \<lparr>sess_dev = \<lparr>dev_id = 0\<rparr>, sess_fd = 3, sess_flags = 0\<rparr>, ss_opts = options_new\<rparr> stub_mach
     = Some (Inr t, sess', s') \<and> tlb_idx (tlb_raw t) = 0x2000 \<and> tlb_len (tlb_raw t) = 0x200000"
proof -
  let ?x = "\<lparr>ss_raw = \<lparr>sess_dev = \<lparr>dev_id = 0\<rparr>, sess_fd = 3, sess_flags = 0\<rparr>, ss_opts = options_new\<rparr>"
  obtain t s' where a: "rs_alloc stub_os Mb2 WriteCombined ?x stub_mach = Some (Inr t, ?x, s')"
    and t: "tlb_idx (tlb_raw t) = 0x2000"
    by (simp add: rs_alloc_def perform_def options_new_def tt_tlb_alloc_def TT_TLB_UC_def TT_TLB_WC_def stub_defs)
  from rs_alloc_window [OF a] a t show ?thesis by (auto simp: TT_TLB_2MB_def)
qed

section \<open>The life of a window\<close>

text \<open>
  The owner of a \<open>Tlb\<close> can bind it any number of times, on any configurations, whether the binds
  succeed or not, while the borrowed session stays as it is.
\<close>

fun rs_binds :: "'w os \<Rightarrow> session \<Rightarrow> tt_tlb_config list \<Rightarrow> rs_tlb \<Rightarrow> 'w mach \<Rightarrow> rs_tlb \<times> 'w mach" where
  "rs_binds os dev [] t s = (t, s)"
| "rs_binds os dev (cfg # cfgs) t s =
     (case rs_bind os dev t cfg s of (_, t1, s1) \<Rightarrow> rs_binds os dev cfgs t1 s1)"

lemma dropped_no_ioctls: "dropped os t D \<Longrightarrow> ioctls D = []"
  by (auto simp: dropped_def split: if_splits)

lemma rs_bind_step:
  assumes "mapping_calls os" "rs_bind os dev t cfg s = (r, t', s')"
  shows "extends s s'" "tlb_id (tlb_raw t') = tlb_id (tlb_raw t)" "tlb_len (tlb_raw t') = tlb_len (tlb_raw t)"
    "set (ioctls (since s s')) \<subseteq> {(sess_fd (ss_raw dev), IoConfigTlb (tlb_id (tlb_raw t)) (noc_config cfg))}"
    "mset (mapped (since s s')) + held (tlb_raw t) = mset (unmapped (since s s')) + held (tlb_raw t')"
proof -
  obtain rc raw where b: "tt_tlb_bind os (Some (ss_raw dev)) (Some (tlb_raw t)) (Some cfg) s = (rc, raw, s')"
    and t': "t' = RsTlb (the raw)"
    using assms(2) by (auto simp: rs_bind_def Let_def split: prod.splits)
  have fin: "raw = Some (tlb_raw t') \<and> tlb_id (tlb_raw t') = tlb_id (tlb_raw t) \<and>
      tlb_len (tlb_raw t') = tlb_len (tlb_raw t) \<and>
      set (ioctls (since s s')) \<subseteq> {(sess_fd (ss_raw dev), IoConfigTlb (tlb_id (tlb_raw t)) (noc_config cfg))}"
  proof (cases "sess_fd (ss_raw dev) < 0")
    case True
    then show ?thesis using b t' by (auto simp: tt_tlb_bind_def)
  next
    case False
    then have "0 \<le> sess_fd (ss_raw dev)" by simp
    from b this t' show ?thesis
      by (cases rule: tt_tlb_bind_cases) (auto simp: since_eq dropped_no_ioctls)
  qed
  then show "tlb_id (tlb_raw t') = tlb_id (tlb_raw t)" "tlb_len (tlb_raw t') = tlb_len (tlb_raw t)"
    "set (ioctls (since s s')) \<subseteq> {(sess_fd (ss_raw dev), IoConfigTlb (tlb_id (tlb_raw t)) (noc_config cfg))}"
    by blast+
  show "extends s s'" by (rule tt_tlb_bind_extends [OF b])
  show "mset (mapped (since s s')) + held (tlb_raw t) = mset (unmapped (since s s')) + held (tlb_raw t')"
    using bind_accounts [OF assms(1)] b fin by blast
qed

text \<open>What a stretch of binds leaves: \<open>S\<close> is where it started.\<close>

definition bound_books :: "session \<Rightarrow> rs_tlb \<Rightarrow> 'w mach \<Rightarrow> rs_tlb \<Rightarrow> 'w mach \<Rightarrow> bool" where
  "bound_books dev t s t' s' \<longleftrightarrow> extends s s' \<and> tlb_id (tlb_raw t') = tlb_id (tlb_raw t) \<and>
     (\<forall>(f, i) \<in> set (ioctls (since s s')). f = sess_fd (ss_raw dev) \<and> (\<exists>c. i = IoConfigTlb (tlb_id (tlb_raw t)) c)) \<and>
     mset (mapped (since s s')) + held (tlb_raw t) = mset (unmapped (since s s')) + held (tlb_raw t')"

interpretation binds: account "bound_books dev" for dev
proof
  show "bound_books dev t s t s" for t and s :: "'w mach" by (simp add: bound_books_def)
next
  fix t u x and s v y :: "'w mach"
  assume a: "bound_books dev t s u v" "bound_books dev u v x y"
  then have e: "extends s v" "extends v y" by (auto simp: bound_books_def)
  have "kept mapped unmapped held (tlb_raw t) s (tlb_raw x) y"
    by (rule maps.books_trans [of _ _ "tlb_raw u" v]) (use a in \<open>simp_all add: bound_books_def kept_def\<close>)
  then show "bound_books dev t s x y"
    using a since_trans [OF e] by (auto simp: bound_books_def kept_def)
qed

lemma rs_binds_books:
  assumes "mapping_calls os" "rs_binds os dev cfgs t s = (t', s')"
  shows "bound_books dev t s t' s'"
  using assms(2)
proof (induction cfgs arbitrary: t s)
  case Nil
  then show ?case by (simp add: binds.books_refl)
next
  case (Cons c cs)
  obtain r t1 s1 where b: "rs_bind os dev t c s = (r, t1, s1)" by (metis prod_cases3)
  have "bound_books dev t s t1 s1"
    using rs_bind_step [OF assms(1) b] by (auto simp: bound_books_def)
  moreover have "bound_books dev t1 s1 t' s'"
    using Cons b by simp
  ultimately show ?case by (rule binds.books_trans)
qed

lemma rs_drop_step:
  assumes "mapping_calls os" "0 \<le> sess_fd (ss_raw dev)"
  shows "extends s (rs_tlb_drop os dev t s)"
    "ioctls (since s (rs_tlb_drop os dev t s)) = [(sess_fd (ss_raw dev), IoFreeTlb (tlb_id (tlb_raw t)))]"
    "mapped (since s (rs_tlb_drop os dev t s)) = []"
    "mset (unmapped (since s (rs_tlb_drop os dev t s))) = held (tlb_raw t)"
proof -
  obtain rc raw s' where f: "tt_tlb_free os (Some (ss_raw dev)) (Some (tlb_raw t)) s = (rc, raw, s')"
    by (metis prod_cases3)
  have d: "rs_tlb_drop os dev t s = s'" using f by (simp add: rs_tlb_drop_def rs_free_def)
  from f have "extends s s' \<and> ioctls (since s s') = [(sess_fd (ss_raw dev), IoFreeTlb (tlb_id (tlb_raw t)))] \<and>
      mapped (since s s') = [] \<and> mset (unmapped (since s s')) = held (tlb_raw t)"
    using assms by (cases rule: tt_tlb_free_cases) (auto simp: since_eq extendsI held_def)
  then show "extends s (rs_tlb_drop os dev t s)"
    "ioctls (since s (rs_tlb_drop os dev t s)) = [(sess_fd (ss_raw dev), IoFreeTlb (tlb_id (tlb_raw t)))]"
    "mapped (since s (rs_tlb_drop os dev t s)) = []"
    "mset (unmapped (since s (rs_tlb_drop os dev t s))) = held (tlb_raw t)"
    by (simp_all add: d)
qed

text \<open>
  C7: the scope of a window, from its allocation over any sequence of binds, failed ones included, to
  its drop, with the session left alone: it frees the id the driver gave it exactly once, last, on
  the session's descriptor, every other request is a configuration of that window, and every
  mapping it made is gone.
\<close>

theorem rs_tlb_scope:
  assumes "mapping_calls os" "rs_alloc os sz mode sess s0 = Some (Inr t, dev, s)"
    "rs_binds os dev cfgs t s = (t', s1)"
  defines "s2 \<equiv> rs_tlb_drop os dev t' s1"
  shows "\<exists>is. ioctls (since s s2) = is @ [(sess_fd (ss_raw dev), IoFreeTlb (tlb_id (tlb_raw t)))] \<and>
      (\<forall>(f, i) \<in> set is. f = sess_fd (ss_raw dev) \<and> (\<exists>c. i = IoConfigTlb (tlb_id (tlb_raw t)) c)) \<and>
    mset (mapped (since s s2)) = mset (unmapped (since s s2))"
proof -
  have new: "0 \<le> sess_fd (ss_raw dev)" "tlb_ptr (tlb_raw t) = 0"
    using rs_alloc_fresh [OF assms(2)] by auto
  have b: "bound_books dev t s t' s1" by (rule rs_binds_books [OF assms(1,3)])
  note d = rs_drop_step [OF assms(1) new(1), of s1 t', folded s2_def]
  have e: "extends s s1" using b by (simp add: bound_books_def)
  show ?thesis
    using b new(2) d since_trans [OF e d(1)]
    by (intro exI [of _ "ioctls (since s s1)"]) (auto simp: bound_books_def held_def)
qed

theorem rs_tlb_scope_witness:
  "\<exists>(t :: tt_tlb) (s :: stub_world mach) (s2 :: stub_world mach) is. ioctls (since s s2) = is @ [(3, IoFreeTlb 7)] \<and> tlb_id t = 7 \<and>
     mset (mapped (since s s2)) = mset (unmapped (since s s2)) \<and> (3, IoAllocTlb 0x100000) \<in> set (ioctls (trace s))"
proof -
  let ?x = "\<lparr>ss_raw = \<lparr>sess_dev = \<lparr>dev_id = 0\<rparr>, sess_fd = 3, sess_flags = 0\<rparr>, ss_opts = options_new\<rparr>"
  let ?c = "\<lparr>cfg_addr = 0, cfg_x_end = 0, cfg_y_end = 2, cfg_x_start = 0, cfg_y_start = 0,
        cfg_noc = 0, cfg_mcast = False, cfg_linked = False, cfg_static_vc = 0\<rparr>"
  obtain t s where a: "rs_alloc stub_os Mb1 Uncached ?x stub_mach = Some (Inr t, ?x, s)"
    and t: "tlb_id (tlb_raw t) = 7" and s: "(3, IoAllocTlb 0x100000) \<in> set (ioctls (trace s))"
    by (simp add: rs_alloc_def perform_def options_new_def tt_tlb_alloc_def TT_TLB_UC_def TT_TLB_1MB_def stub_defs)
  obtain t' s1 where b: "rs_binds stub_os ?x [?c, ?c] t s = (t', s1)" by (metis prod.exhaust)
  have "mapping_calls stub_os" by (simp add: mapping_calls_def stub_os_def ret0_def)
  from rs_tlb_scope [OF this a b] t s show ?thesis
    by (intro exI [of _ "tlb_raw t"] exI [of _ s] exI [of _ "rs_tlb_drop stub_os ?x t' s1"]) auto
qed



section \<open>Access\<close>

lemma bind_ok_maps:
  assumes "tt_tlb_bind os (Some ss) (Some t) (Some c) s = (TT_OK, raw, s')" "0 \<le> sess_fd ss"
  shows "\<exists>p s0. k_mmap os (sess_fd ss) (tlb_len t) (tlb_idx t) s = (p, s0) \<and> p \<noteq> MAP_FAILED \<and>
    raw = Some (t\<lparr>tlb_ptr := p\<rparr>) \<and> EvMmap (sess_fd ss) (tlb_len t) (tlb_idx t) p \<in> set (since s s')"
proof -
  obtain p s0 where m: "k_mmap os (sess_fd ss) (tlb_len t) (tlb_idx t) s = (p, s0)"
    by (metis prod.exhaust)
  from assms show ?thesis
  proof (cases rule: tt_tlb_bind_cases)
    case (bound q D)
    have "tlb_ptr (the raw) = p" using assms m by (auto simp: tt_tlb_bind_def Let_def split: prod.splits if_splits
          dest!: bind_cleanup_outcome(2))
    then have "q = p" using bound(3) by simp
    then show ?thesis using bound m by (auto simp: since_eq)
  qed auto
qed

text \<open>A mapping lies within the address space.\<close>

definition mmap_fits :: "'w os \<Rightarrow> bool" where
  "mmap_fits os \<longleftrightarrow> (\<forall>f n off e w. let p = fst (sys_mmap os f n off e w) in
     p = MAP_FAILED \<or> unat p + unat n \<le> 2 ^ 64)"

text \<open>
  C29: a \<open>Window\<close> exists only for a mapping the bind that returned it just made, and an access within
  its size touches exactly its bytes of that mapping, nothing else of the machine's memory.
\<close>

theorem window_access_inside:
  assumes "mmap_fits os" "rs_bind os dev t cfg s = (Inr w, t', s')"
    "unat offset + n \<le> unat (window_size w)" "0 < n"
  shows "\<exists>p a. EvMmap (sess_fd (ss_raw dev)) (window_size w) (tlb_idx (tlb_raw t)) p \<in> set (since s s') \<and>
    p \<noteq> MAP_FAILED \<and>
    since s1 (snd (window_read os n w offset s1)) = [EvLoad a n] \<and>
    since s1 (snd (window_write os n w offset v s1)) = [EvStore a n v] \<and>
    unat a = unat p + unat offset \<and> unat a + n \<le> unat p + unat (window_size w)"
proof -
  obtain rc raw where b: "tt_tlb_bind os (Some (ss_raw dev)) (Some (tlb_raw t)) (Some cfg) s = (rc, raw, s')"
    and ok: "rc = TT_OK" "w = Window (RsTlb (the raw))"
    using assms(2) by (auto simp: rs_bind_def Let_def map_sum_def split: prod.splits sum.splits)
  have fd: "0 \<le> sess_fd (ss_raw dev)"
    using b ok(1) by (auto simp: tt_tlb_bind_def split: if_splits)
  obtain p D s0 where m: "k_mmap os (sess_fd (ss_raw dev)) (tlb_len (tlb_raw t)) (tlb_idx (tlb_raw t)) s = (p, s0)"
    and p: "p \<noteq> MAP_FAILED" "raw = Some (tlb_raw t\<lparr>tlb_ptr := p\<rparr>)"
    "EvMmap (sess_fd (ss_raw dev)) (tlb_len (tlb_raw t)) (tlb_idx (tlb_raw t)) p \<in> set (since s s')"
    using bind_ok_maps [OF b [unfolded ok(1)] fd] by blast
  have len: "window_size w = tlb_len (tlb_raw t)" using ok(2) p(2) by (simp add: window_size_def)
  have fits: "unat p + unat (tlb_len (tlb_raw t)) \<le> 2 ^ 64"
    using assms(1) m p(1) call_fst unfolding mmap_fits_def Let_def by (metis fst_conv)
  have a: "unat (p + offset) = unat p + unat offset"
    using fits assms(3,4) len by (subst unat_add_lem [THEN iffD1]) simp_all
  show ?thesis
    using p a assms(3) len ok(2)
    by (intro exI [of _ p] exI [of _ "p + offset"])
      (auto simp: window_read_def window_write_def Let_def since_eq call_trace [OF surjective_pairing])
qed

text \<open>The witness's system refuses mappings of more than 4 GB.\<close>

theorem window_access_inside_witness:
  "\<exists>w a. window_size w = 0x100000 \<and>
     since stub_mach (snd (window_read stub_os 4 w 0xFFFFC stub_mach)) = [EvLoad a 4] \<and> unat a = 0x100FFFFC"
proof -
  let ?os = "stub_os\<lparr>sys_mmap := (\<lambda>_ n _. ret0 (if unat n \<le> 2 ^ 32 then 0x10000000 else MAP_FAILED))\<rparr>"
  let ?x = "\<lparr>ss_raw = \<lparr>sess_dev = \<lparr>dev_id = 0\<rparr>, sess_fd = 3, sess_flags = 0\<rparr>, ss_opts = options_new\<rparr>"
  let ?c = "\<lparr>cfg_addr = 0, cfg_x_end = 0, cfg_y_end = 2, cfg_x_start = 0, cfg_y_start = 0,
        cfg_noc = 0, cfg_mcast = False, cfg_linked = False, cfg_static_vc = 0\<rparr>"
  let ?t = "RsTlb \<lparr>tlb_id = 7, tlb_ptr = 0, tlb_idx = 0x1000, tlb_len = 0x100000\<rparr>"
  obtain w t' s' where b: "rs_bind ?os ?x ?t ?c stub_mach = (Inr w, t', s')"
    and w: "window_size w = 0x100000" "tlb_ptr (tlb_raw (window_tlb w)) = 0x10000000"
    by (simp add: rs_bind_def tt_tlb_bind_def window_size_def stub_defs Let_def)
  have "mmap_fits ?os" by (simp add: mmap_fits_def stub_os_def ret0_def)
  from window_access_inside [OF this b, of "0xFFFFC" 4 stub_mach 0] w show ?thesis
    by (auto simp: window_read_def since_eq call_trace [OF surjective_pairing])
qed

end
