(* ===== verification/Smc.thy ===== *)
theory Smc
  imports PowerState "HOL-Library.Signed_Division"
begin

text \<open>
  \<open>src/clock.h\<close> and \<open>src/dev/smc.c\<close>: elapsed time on the monotonic clock, and messages to the system
  management controller. The wait loop is a partial function into \<open>option\<close>, \<^const>\<open>None\<close> being a
  loop that never ends, so that its termination is a theorem.
\<close>

section \<open>The clock\<close>

definition timespec_diff_ms :: "timespec \<Rightarrow> timespec \<Rightarrow> u64" where
  "timespec_diff_ms start end =
     (let ns = (tv_sec end - tv_sec start) * 1000000000 + (tv_nsec end - tv_nsec start)
      in of_int (ns sdiv 1000000))"

definition elapsed_ms :: "'w os \<Rightarrow> timespec \<Rightarrow> 'w mach \<Rightarrow> u64 \<times> 'w mach" where
  "elapsed_ms os start s = (case k_clock os s of (t, s1) \<Rightarrow> (timespec_diff_ms start t, s1))"

section \<open>Messages\<close>

text \<open>The eight words of a message are a list.\<close>

definition TT_SMC_TIMEOUT_DEFAULT :: u32 where "TT_SMC_TIMEOUT_DEFAULT = 1000"
definition SPIN_POLLS :: u32 where "SPIN_POLLS = 32"
definition POLL_INTERVAL_US :: nat where "POLL_INTERVAL_US = 1000"

text \<open>The message of an ioctl that does not send one is the zeroed one of its initialiser.\<close>

definition zero_msg :: "u32 list" where
  "zero_msg = replicate 8 0"

definition tt_smc_post :: "'w os \<Rightarrow> tt_session option \<Rightarrow> u32 list option \<Rightarrow> 'w mach \<Rightarrow> int \<times> 'w mach" where
  "tt_smc_post os sess req s =
     (case sess of None \<Rightarrow> tt_fail EINVAL s | Some ss \<Rightarrow>
      case req of None \<Rightarrow> tt_fail EINVAL s | Some m \<Rightarrow>
      if sess_fd ss < 0 then tt_fail ENOTCONN s
      else (case k_smc os (sess_fd ss) SMC_POST m s of ((r, _), s1) \<Rightarrow>
        if r \<noteq> 0 then tt_fail_io (errno s1) s1 else (TT_OK, s1)))"

definition tt_smc_poll ::
  "'w os \<Rightarrow> tt_session option \<Rightarrow> u32 list option \<Rightarrow> 'w mach \<Rightarrow> int \<times> u32 list option \<times> 'w mach" where
  "tt_smc_poll os sess rsp s =
     (case sess of None \<Rightarrow> out rsp (tt_fail EINVAL s) | Some ss \<Rightarrow>
      case rsp of None \<Rightarrow> out rsp (tt_fail EINVAL s) | Some _ \<Rightarrow>
      if sess_fd ss < 0 then out rsp (tt_fail ENOTCONN s)
      else (case k_smc os (sess_fd ss) SMC_POLL zero_msg s of ((r, m), s1) \<Rightarrow>
        if r \<noteq> 0 then out rsp (tt_fail_io (errno s1) s1) else (TT_OK, Some m, s1)))"

definition tt_smc_drop :: "'w os \<Rightarrow> tt_session option \<Rightarrow> 'w mach \<Rightarrow> int \<times> 'w mach" where
  "tt_smc_drop os sess s =
     (case sess of None \<Rightarrow> tt_fail EINVAL s | Some ss \<Rightarrow>
      if sess_fd ss < 0 then tt_fail ENOTCONN s
      else (case k_smc os (sess_fd ss) SMC_ABANDON zero_msg s of ((r, _), s1) \<Rightarrow>
        if r \<noteq> 0 then tt_fail_io (errno s1) s1 else (TT_OK, s1)))"

text \<open>The wait loop, after \<open>spins\<close> iterations. The counter is an \<open>unsigned\<close> and may wrap.\<close>

partial_function (option) smc_wait_loop ::
  "'w os \<Rightarrow> tt_session \<Rightarrow> u64 \<Rightarrow> timespec \<Rightarrow> u32 \<Rightarrow> u32 list option \<Rightarrow> 'w mach \<Rightarrow>
     (int \<times> u32 list option \<times> 'w mach) option" where
  "smc_wait_loop os ss budget start spins rsp s =
     (case tt_smc_poll os (Some ss) rsp s of (rc, rsp1, s1) \<Rightarrow>
       if rc = TT_OK then Some (TT_OK, rsp1, s1)
       else if errno s1 \<noteq> EAGAIN then Some (TT_ERR, rsp1, s1)
       else (case elapsed_ms os start s1 of (ms, s2) \<Rightarrow>
         if ms \<ge> budget then Some (out rsp1 (tt_fail ETIMEDOUT s2))
         else smc_wait_loop os ss budget start (spins + 1) rsp1
                (if spins \<ge> SPIN_POLLS then snd (k_usleep os POLL_INTERVAL_US s2) else s2)))"

definition tt_smc_wait ::
  "'w os \<Rightarrow> tt_session option \<Rightarrow> u32 list option \<Rightarrow> u32 \<Rightarrow> 'w mach \<Rightarrow>
     (int \<times> u32 list option \<times> 'w mach) option" where
  "tt_smc_wait os sess rsp timeout s =
     (case sess of None \<Rightarrow> Some (out rsp (tt_fail EINVAL s)) | Some ss \<Rightarrow>
      case rsp of None \<Rightarrow> Some (out rsp (tt_fail EINVAL s)) | Some _ \<Rightarrow>
      if sess_fd ss < 0 then Some (out rsp (tt_fail ENOTCONN s))
      else (let budget = ucast (if timeout \<noteq> 0 then timeout else TT_SMC_TIMEOUT_DEFAULT) in
        (case k_clock os s of (start, s1) \<Rightarrow> smc_wait_loop os ss budget start 0 rsp s1)))"

definition tt_smc_call ::
  "'w os \<Rightarrow> tt_session option \<Rightarrow> u32 list option \<Rightarrow> u32 list option \<Rightarrow> u32 \<Rightarrow> 'w mach \<Rightarrow>
     (int \<times> u32 list option \<times> 'w mach) option" where
  "tt_smc_call os sess req rsp timeout s =
     (case rsp of None \<Rightarrow> Some (out rsp (tt_fail EINVAL s)) | Some _ \<Rightarrow>
      (case tt_smc_post os sess req s of (rc, s1) \<Rightarrow>
        if rc \<noteq> TT_OK then Some (TT_ERR, rsp, s1)
        else (case tt_smc_wait os sess rsp timeout s1 of
            None \<Rightarrow> None
          | Some (rc, rsp1, s2) \<Rightarrow>
              if rc \<noteq> TT_OK then
                (let err = errno s2 in
                 (case tt_smc_drop os sess s2 of (_, s3) \<Rightarrow> Some (out rsp1 (tt_fail err s3))))
              else Some (TT_OK, rsp1, s2))))"

lemmas smc_defs = tt_smc_post_def tt_smc_poll_def tt_smc_drop_def

interpretation smc_post: session_op "\<lambda>ss. tt_smc_post os (Some ss) (Some m)" id for os m
  by unfold_locales
    (auto simp: smc_defs since_eq extendsI split: prod.splits if_splits dest!: call_trace)

interpretation smc_poll: session_op "\<lambda>ss. op3 (tt_smc_poll os (Some ss) (Some m))" fst for os m
  by unfold_locales
    (auto simp: smc_defs since_eq extendsI split: prod.splits if_splits dest!: call_trace)

interpretation smc_drop: session_op "\<lambda>ss. tt_smc_drop os (Some ss)" id for os
  by unfold_locales
    (auto simp: smc_defs since_eq extendsI split: prod.splits if_splits dest!: call_trace)

section \<open>Elapsed time\<close>

definition ns_of :: "timespec \<Rightarrow> int" where
  "ns_of t = tv_sec t * 1000000000 + tv_nsec t"

lemma diff_ms_uint:
  assumes "ns_of a \<le> ns_of b" "ns_of b - ns_of a < 1000000 * 2 ^ 64"
  shows "uint (timespec_diff_ms a b) = (ns_of b - ns_of a) div 1000000"
proof -
  have ns: "(tv_sec b - tv_sec a) * 1000000000 + (tv_nsec b - tv_nsec a) = ns_of b - ns_of a"
    by (simp add: ns_of_def algebra_simps)
  have "(ns_of b - ns_of a) sdiv 1000000 = (ns_of b - ns_of a) div 1000000"
    using assms(1) by (simp add: signed_divide_int_def sgn_if)
  moreover have "(ns_of b - ns_of a) div 1000000 < 2 ^ 64"
    using assms(2) by simp
  moreover have "0 \<le> (ns_of b - ns_of a) div 1000000"
    using assms(1) by (simp add: pos_imp_zdiv_nonneg_iff)
  ultimately show ?thesis
    unfolding timespec_diff_ms_def Let_def ns by (simp add: uint_word_of_int)
qed

text \<open>
  The elapsed time is the whole milliseconds between the two points, also over a second boundary
  where the nanosecond field shrinks, as long as it fits 64 bits.
\<close>

theorem timespec_diff_exact:
  assumes "ns_of a \<le> ns_of b" "ns_of b - ns_of a < 1000000 * 2 ^ 64"
  shows "uint (timespec_diff_ms a b) = (ns_of b - ns_of a) div 1000000"
  using assms by (rule diff_ms_uint)

theorem timespec_diff_exact_witness:
  "uint (timespec_diff_ms \<lparr>tv_sec = 4, tv_nsec = 999000000\<rparr> \<lparr>tv_sec = 5, tv_nsec = 1000000\<rparr>) = 2"
  using timespec_diff_exact [of "\<lparr>tv_sec = 4, tv_nsec = 999000000\<rparr>" "\<lparr>tv_sec = 5, tv_nsec = 1000000\<rparr>"]
  by (simp add: ns_of_def)

section \<open>Time passes\<close>

text \<open>
  What the calls are relied upon for: \<open>now\<close> is the monotonic clock, in nanoseconds. No call takes
  longer than \<open>2 ^ 60\<close> nanoseconds (36 years) or turns the clock back, reading the clock yields a
  time between the start and the end of the reading, and a sleep lasts as long as asked.
\<close>

definition ticks :: "('w \<Rightarrow> nat) \<Rightarrow> ('r, 'w) sysc \<Rightarrow> bool" where
  "ticks now f \<longleftrightarrow> (\<forall>e w. now w \<le> now (snd (snd (f e w))) \<and> now (snd (snd (f e w))) \<le> now w + 2 ^ 60)"

definition keeps_time :: "'w os \<Rightarrow> ('w \<Rightarrow> nat) \<Rightarrow> bool" where
  "keeps_time os now \<longleftrightarrow>
     ticks now (sys_clock os) \<and>
     (\<forall>e w. int (now w) \<le> ns_of (fst (sys_clock os e w)) \<and>
        ns_of (fst (sys_clock os e w)) \<le> int (now (snd (snd (sys_clock os e w))))) \<and>
     (\<forall>us \<le> 1000000. ticks now (sys_usleep os us) \<and>
        (\<forall>e w. now w + 1000 * us \<le> now (snd (snd (sys_usleep os us e w))))) \<and>
     (\<forall>f op m. ticks now (ioc_smc os f op m))"

lemma call_ticks:
  assumes "ticks now f" "call f ev s = (r, s')"
  shows "now (world s) \<le> now (world s')" "now (world s') \<le> now (world s) + 2 ^ 60"
  using assms
  by (auto simp: ticks_def call_def split: prod.splits dest!: spec [of _ "errno s"] spec [of _ "world s"])

lemma clock_reading:
  assumes "keeps_time os now" "k_clock os s = (t, s')"
  shows "int (now (world s)) \<le> ns_of t" "ns_of t \<le> int (now (world s'))"
    "now (world s') \<le> now (world s) + 2 ^ 60"
proof -
  have "int (now (world s)) \<le> ns_of t \<and> ns_of t \<le> int (now (world s'))"
    using assms
    by (auto simp: keeps_time_def call_def split: prod.splits
        dest!: spec [of _ "errno s"] spec [of _ "world s"])
  then show "int (now (world s)) \<le> ns_of t" "ns_of t \<le> int (now (world s'))" by auto
  show "now (world s') \<le> now (world s) + 2 ^ 60"
    using assms call_ticks(2) [of now "sys_clock os"] by (auto simp: keeps_time_def)
qed

lemma poll_ticks:
  assumes "keeps_time os now" "tt_smc_poll os sess rsp s = (rc, rsp', s')"
  shows "now (world s) \<le> now (world s') \<and> now (world s') \<le> now (world s) + 2 ^ 60"
proof -
  have "ticks now (ioc_smc os f op m)" for f op m using assms(1) by (simp add: keeps_time_def)
  note tk = call_ticks [OF this]
  show ?thesis
    using assms(2)
    by (auto simp: tt_smc_poll_def split: option.splits prod.splits if_splits dest: tk)
qed

lemma usleep_ticks:
  assumes "keeps_time os now" "us \<le> 1000000"
  shows "now (world s) + 1000 * us \<le> now (world (snd (k_usleep os us s)))"
    "now (world (snd (k_usleep os us s))) \<le> now (world s) + 2 ^ 60"
  using assms by (auto simp: keeps_time_def ticks_def call_def split: prod.splits) (metis snd_conv)+

text \<open>
  One iteration of a polling loop that does not give up: the clock read at its check is still within
  the budget, so no wrap-around can have hidden the elapsed time.
\<close>

lemma within_budget:
  assumes "keeps_time os now" "elapsed_ms os start s = (ms, s')" "ms < budget" "uint budget < 2 ^ 32"
    "ns_of start \<le> int (now (world s))" "int (now (world s)) < ns_of start + 2 ^ 64"
  shows "int (now (world s)) < ns_of start + 1000000 * uint budget" "now (world s) \<le> now (world s')"
    "int (now (world s')) \<le> ns_of start + 1000000 * uint budget + 2 ^ 60"
proof -
  obtain t where c: "k_clock os s = (t, s')" and ms: "ms = timespec_diff_ms start t"
    using assms(2) by (auto simp: elapsed_ms_def split: prod.splits)
  note r = clock_reading [OF assms(1) c]
  have "ns_of t - ns_of start < 1000000 * 2 ^ 64" using r assms(6) by simp
  then have "uint ms = (ns_of t - ns_of start) div 1000000"
    using diff_ms_uint ms r assms(5) by simp
  then have "(ns_of t - ns_of start) div 1000000 < uint budget"
    using assms(3) by (simp add: word_less_def)
  then have "ns_of t < ns_of start + 1000000 * uint budget" by simp
  then show "int (now (world s)) < ns_of start + 1000000 * uint budget" "now (world s) \<le> now (world s')"
    "int (now (world s')) \<le> ns_of start + 1000000 * uint budget + 2 ^ 60"
    using r by simp_all
qed

section \<open>The wait loop ends\<close>

text \<open>
  The bound on the remaining iterations: every iteration that sleeps brings the end of the budget
  nearer, and at most 32 in a row do not sleep.
\<close>

definition wait_bound :: "('w \<Rightarrow> nat) \<Rightarrow> u64 \<Rightarrow> timespec \<Rightarrow> u32 \<Rightarrow> 'w mach \<Rightarrow> nat" where
  "wait_bound now budget start spins s =
     33 * nat (ns_of start + 1000000 * uint budget - int (now (world s))) + (32 - unat spins)"

lemma wait_bound_decreases:
  assumes "now (world s) \<le> now (world s')" "int (now (world s)) < ns_of start + 1000000 * uint budget"
    "spins \<ge> SPIN_POLLS \<longrightarrow> now (world s) < now (world s')"
  shows "wait_bound now budget start (spins + 1) s' < wait_bound now budget start spins s"
proof (cases "spins \<ge> SPIN_POLLS")
  case True
  then have "nat (ns_of start + 1000000 * uint budget - int (now (world s'))) <
      nat (ns_of start + 1000000 * uint budget - int (now (world s)))"
    using assms by simp
  then show ?thesis unfolding wait_bound_def by linarith
next
  case False
  then have sp: "unat spins < 32" by (simp add: SPIN_POLLS_def word_le_nat_alt)
  then have "unat (spins + 1) = unat spins + 1" by (simp add: unat_word_ariths)
  moreover have "nat (ns_of start + 1000000 * uint budget - int (now (world s'))) \<le>
      nat (ns_of start + 1000000 * uint budget - int (now (world s)))"
    using assms(1) by simp
  ultimately show ?thesis using sp by (simp add: wait_bound_def)
qed

text \<open>What one wait is: it ends, and it has only ever polled.\<close>

definition only_polls :: "tt_session \<Rightarrow> 'w mach \<Rightarrow> 'w mach \<Rightarrow> bool" where
  "only_polls ss s s' \<longleftrightarrow> extends s s' \<and> opened (since s s') = [] \<and> closed (since s s') = [] \<and>
     set (ioctls (since s s')) \<subseteq> {(sess_fd ss, IoSmc SMC_POLL zero_msg)}"

lemma only_polls_refl [simp]: "trace s' = trace s \<Longrightarrow> only_polls ss s s'"
  by (simp add: only_polls_def)

lemma only_polls_trans: "only_polls ss s t \<Longrightarrow> only_polls ss t u \<Longrightarrow> only_polls ss s u"
  unfolding only_polls_def using trace_trans [of s t u] by auto

lemma only_polls_errno [simp]: "only_polls ss s (s'\<lparr>errno := e\<rparr>) = only_polls ss s s'"
  by (simp add: only_polls_def)

lemma poll_only_polls:
  assumes "tt_smc_poll os (Some ss) rsp s = (rc, rsp', s')"
  shows "only_polls ss s s'"
  using assms
  by (auto simp: tt_smc_poll_def only_polls_def since_eq extendsI
      split: option.splits prod.splits if_splits dest!: call_trace)

lemma elapsed_only_polls: "elapsed_ms os start s = (ms, s') \<Longrightarrow> only_polls ss s s'"
  by (auto simp: elapsed_ms_def only_polls_def since_eq extendsI split: prod.splits dest!: call_trace)

lemma usleep_only_polls: "only_polls ss s (snd (k_usleep os us s))"
proof (cases "k_usleep os us s")
  case (Pair a s1)
  from call_trace [OF this] Pair show ?thesis by (simp add: only_polls_def since_eq extendsI)
qed

lemma poll_fails:
  assumes "tt_smc_poll os (Some ss) rsp s = (rc, rsp', s')" "rc \<noteq> TT_OK"
  shows "rc = TT_ERR" "rsp' = rsp"
  using assms
  by (auto simp: tt_smc_poll_def split: option.splits prod.splits if_splits)

lemma smc_wait_loop_returns:
  assumes "keeps_time os now" "uint budget < 2 ^ 32"
    "ns_of start \<le> int (now (world s))"
    "int (now (world s)) \<le> ns_of start + 1000000 * uint budget + 2 ^ 61"
  shows "\<exists>rc rsp' s'. smc_wait_loop os ss budget start spins rsp s = Some (rc, rsp', s') \<and>
    only_polls ss s s' \<and> now (world s) \<le> now (world s') \<and>
    (rc = TT_OK \<or> rc = TT_ERR \<and> rsp' = rsp \<and> errno s' \<noteq> EAGAIN)"
  using assms(3,4)
proof (induction "wait_bound now budget start spins s" arbitrary: spins s rule: less_induct)
  case less
  obtain rc rsp1 s1 where p: "tt_smc_poll os (Some ss) rsp s = (rc, rsp1, s1)" by (metis prod_cases3)
  obtain ms s2 where e: "elapsed_ms os start s1 = (ms, s2)" by (metis prod.exhaust)
  let ?s3 = "if spins \<ge> SPIN_POLLS then snd (k_usleep os POLL_INTERVAL_US s2) else s2"
  note pt = poll_ticks [OF assms(1) p] and pp = poll_only_polls [OF p]
  have e2: "now (world s1) \<le> now (world s2)"
    using e clock_reading [OF assms(1), of s1] by (fastforce simp: elapsed_ms_def split: prod.splits)
  have o2: "only_polls ss s s2"
    by (rule only_polls_trans [OF pp elapsed_only_polls [OF e]])
  show ?case
  proof (cases "rc = TT_OK \<or> errno s1 \<noteq> EAGAIN \<or> ms \<ge> budget")
    case True
    then show ?thesis
      using p e pt pp e2 o2 poll_fails [OF p]
      by (subst smc_wait_loop.simps) (auto split: if_splits)
  next
    case False
    have lim: "int (now (world s1)) < ns_of start + 2 ^ 64"
      using pt less.prems(2) assms(2) by simp
    note w = within_budget [OF assms(1) e _ assms(2) _ lim]
    have w1: "int (now (world s1)) < ns_of start + 1000000 * uint budget"
      "int (now (world s2)) \<le> ns_of start + 1000000 * uint budget + 2 ^ 60"
      using w False pt less.prems(1) by auto
    have sl: "now (world s2) \<le> now (world ?s3)" "now (world ?s3) \<le> now (world s2) + 2 ^ 60"
      "spins \<ge> SPIN_POLLS \<longrightarrow> now (world s2) < now (world ?s3)"
      using usleep_ticks [OF assms(1), of POLL_INTERVAL_US s2] by (simp_all add: POLL_INTERVAL_US_def)
    have rsp: "rsp1 = rsp" using poll_fails(2) [OF p] False by simp
    have step: "smc_wait_loop os ss budget start spins rsp s =
        smc_wait_loop os ss budget start (spins + 1) rsp ?s3"
      using p e False rsp by (subst smc_wait_loop.simps) simp
    have "wait_bound now budget start (spins + 1) ?s3 < wait_bound now budget start spins s"
      using pt e2 sl w1 by (intro wait_bound_decreases) auto
    then have "\<exists>rc rsp' s'. smc_wait_loop os ss budget start (spins + 1) rsp ?s3 = Some (rc, rsp', s') \<and>
        only_polls ss ?s3 s' \<and> now (world ?s3) \<le> now (world s') \<and>
        (rc = TT_OK \<or> rc = TT_ERR \<and> rsp' = rsp \<and> errno s' \<noteq> EAGAIN)"
      using less.prems pt e2 sl w1 by (intro less.hyps) auto
    moreover have "only_polls ss s ?s3"
      using o2 only_polls_trans [OF o2 usleep_only_polls] by simp
    moreover have "now (world s) \<le> now (world ?s3)" using pt e2 sl by simp
    ultimately show ?thesis
      unfolding step using only_polls_trans [of ss s ?s3] order_trans [of "now (world s)" "now (world ?s3)"]
      by blast
  qed
qed

lemmas smc_wait_induct = smc_wait_loop.raw_induct [rotated 1, consumes 1, case_names step]

text \<open>The driver's \<open>ENODEV\<close> never comes out of the loop either.\<close>

lemma smc_wait_loop_errno:
  assumes "smc_wait_loop os ss budget start spins rsp s = Some r"
  shows "case r of (rc, rsp', s') \<Rightarrow> (rc = TT_OK \<or> rc = TT_ERR) \<and> (rc \<noteq> TT_OK \<longrightarrow> errno s' \<noteq> ENODEV)"
  using assms
proof (induction rule: smc_wait_induct)
  case (step loop os ss budget start spins rsp s r)
  obtain rc rsp1 s1 where p: "tt_smc_poll os (Some ss) rsp s = (rc, rsp1, s1)" by (metis prod_cases3)
  obtain ms s2 where e: "elapsed_ms os start s1 = (ms, s2)" by (metis prod.exhaust)
  have "rc \<noteq> TT_OK \<Longrightarrow> errno s1 \<noteq> ENODEV"
    using p by (auto simp: tt_smc_poll_def split: option.splits prod.splits if_splits)
  moreover have "rc \<noteq> TT_OK \<Longrightarrow> errno s1 = EAGAIN \<Longrightarrow> \<not> ms \<ge> budget \<Longrightarrow> ?case"
    using step(2) p e by (intro step(1)) simp
  ultimately show ?case
    using step(2) p e by (auto split: if_splits)
qed

lemma smc_wait_errno:
  assumes "tt_smc_wait os (Some ss) (Some m) timeout s = Some (rc, rsp', s')"
  shows "rc = TT_OK \<or> rc = TT_ERR" "rc \<noteq> TT_OK \<Longrightarrow> errno s' \<noteq> ENODEV"
  using assms smc_wait_loop_errno
  by (fastforce simp: tt_smc_wait_def Let_def split: if_splits prod.splits)+

lemma smc_wait_closed:
  "sess_fd ss < 0 \<Longrightarrow>
   tt_smc_wait os (Some ss) (Some m) timeout s = Some (TT_ERR, Some m, s\<lparr>errno := ENOTCONN\<rparr>)"
  by (simp add: tt_smc_wait_def)

lemma smc_wait_total:
  assumes "keeps_time os now"
  shows "\<exists>rc rsp' s'. tt_smc_wait os (Some ss) (Some m) timeout s = Some (rc, rsp', s') \<and>
    only_polls ss s s' \<and> (rc = TT_OK \<or> rc = TT_ERR \<and> rsp' = Some m \<and> errno s' \<noteq> EAGAIN)"
proof (cases "sess_fd ss < 0")
  case True
  then show ?thesis by (simp add: tt_smc_wait_def)
next
  case False
  obtain start s1 where c: "k_clock os s = (start, s1)" by (metis prod.exhaust)
  note r = clock_reading [OF assms c]
  have o: "only_polls ss s s1"
    using call_trace [OF c] by (simp add: only_polls_def since_eq extendsI)
  let ?b = "ucast (if timeout \<noteq> 0 then timeout else TT_SMC_TIMEOUT_DEFAULT) :: u64"
  have b: "uint ?b < 2 ^ 32"
    using uint_bounded [of timeout] by (simp add: TT_SMC_TIMEOUT_DEFAULT_def uint_up_ucast is_up)
  have n: "ns_of start \<le> int (now (world s1))"
    "int (now (world s1)) \<le> ns_of start + 1000000 * uint ?b + 2 ^ 61"
  proof -
    show "ns_of start \<le> int (now (world s1))" by (rule r(2))
    have "int (now (world s1)) \<le> ns_of start + 2 ^ 60" using r by simp
    moreover have "0 \<le> uint ?b" "(2::int) ^ 60 \<le> 2 ^ 61" by simp_all
    ultimately show "int (now (world s1)) \<le> ns_of start + 1000000 * uint ?b + 2 ^ 61" by linarith
  qed
  from smc_wait_loop_returns [OF assms b n, of ss 0 "Some m"] only_polls_trans [OF o] c False
  show ?thesis by (auto simp: tt_smc_wait_def Let_def simp del: ucast_id)
qed

section \<open>What the message operations promise\<close>

text \<open>
  Waiting for a response always ends: with the response, with an error other than \<open>EAGAIN\<close> and the
  response buffer as it was, or with \<open>ETIMEDOUT\<close>. It polls and does nothing else, so a
  message that outlives the budget is still outstanding for the next wait.
\<close>

theorem tt_smc_wait_returns:
  assumes "keeps_time os now"
  shows "\<exists>rc rsp' s'. tt_smc_wait os (Some ss) (Some m) timeout s = Some (rc, rsp', s') \<and>
    only_polls ss s s' \<and> (rc = TT_OK \<or> rc = TT_ERR \<and> rsp' = Some m \<and> errno s' \<noteq> EAGAIN)"
  using assms by (rule smc_wait_total)

lemma stub_keeps_time: "keeps_time stub_os fst"
  by (auto simp: keeps_time_def ticks_def stub_os_def ns_of_def ret0_def stub_smc_def split: smc_op.split)

theorem tt_smc_wait_returns_witness:
  "tt_smc_wait (stub_os\<lparr>ioc_smc := (\<lambda>_ _ m. fails (1, m) EAGAIN)\<rparr>)
     (Some \<lparr>sess_dev = \<lparr>dev_id = 0\<rparr>, sess_fd = 3, sess_flags = 0\<rparr>) (Some zero_msg) 5 stub_mach \<noteq> None"
proof -
  have "keeps_time (stub_os\<lparr>ioc_smc := (\<lambda>_ _ m. fails (1, m) EAGAIN)\<rparr>) fst"
    using stub_keeps_time by (simp add: keeps_time_def ticks_def fails_def)
  from tt_smc_wait_returns [OF this, of "\<lparr>sess_dev = \<lparr>dev_id = 0\<rparr>, sess_fd = 3, sess_flags = 0\<rparr>"
      zero_msg 5 stub_mach]
  show ?thesis by auto
qed

section \<open>The driver's message slot\<close>

text \<open>
  The contract the driver's header states for \<open>TENSTORRENT_IOCTL_SMC_MSG\<close>: \<open>busy\<close> is the set of
  descriptors with a message outstanding. A post occupies the descriptor's slot unless it is
  refused, which it is, with \<open>EBUSY\<close>, when the slot is occupied; a poll that answers anything but
  \<open>EAGAIN\<close> has consumed the message; cancelling always succeeds.
\<close>

definition smc_slot :: "'w os \<Rightarrow> ('w \<Rightarrow> fd set) \<Rightarrow> bool" where
  "smc_slot os busy \<longleftrightarrow>
     (\<forall>f m s r x s'. k_smc os f SMC_POST m s = ((r, x), s') \<longrightarrow>
        busy (world s') = (if r = 0 then insert f (busy (world s)) else busy (world s)) \<and>
        (f \<in> busy (world s) \<longrightarrow> r \<noteq> 0 \<and> errno s' = EBUSY)) \<and>
     (\<forall>f m s r x s'. k_smc os f SMC_POLL m s = ((r, x), s') \<longrightarrow>
        busy (world s') = (if r \<noteq> 0 \<and> errno s' = EAGAIN then busy (world s) else busy (world s) - {f})) \<and>
     (\<forall>f m s r x s'. k_smc os f SMC_ABANDON m s = ((r, x), s') \<longrightarrow>
        r = 0 \<and> busy (world s') = busy (world s) - {f}) \<and>
     (\<forall>s t s'. k_clock os s = (t, s') \<longrightarrow> busy (world s') = busy (world s)) \<and>
     (\<forall>us s x s'. k_usleep os us s = (x, s') \<longrightarrow> busy (world s') = busy (world s))"

lemmas smc_slot_rules = smc_slot_def [THEN iffD1]

lemma smc_slotD:
  assumes "smc_slot os busy"
  shows "k_smc os f SMC_POST m s = ((r, x), s') \<Longrightarrow>
      busy (world s') = (if r = 0 then insert f (busy (world s)) else busy (world s)) \<and>
      (f \<in> busy (world s) \<longrightarrow> r \<noteq> 0 \<and> errno s' = EBUSY)"
    "k_smc os f SMC_POLL m s = ((r, x), s') \<Longrightarrow>
      busy (world s') = (if r \<noteq> 0 \<and> errno s' = EAGAIN then busy (world s) else busy (world s) - {f})"
    "k_smc os f SMC_ABANDON m s = ((r, x), s') \<Longrightarrow> r = 0 \<and> busy (world s') = busy (world s) - {f}"
    "k_clock os s = (t, s') \<Longrightarrow> busy (world s') = busy (world s)"
    "k_usleep os us s = (u, s') \<Longrightarrow> busy (world s') = busy (world s)"
proof -
  note law = assms [THEN smc_slot_rules]
  show "k_smc os f SMC_POST m s = ((r, x), s') \<Longrightarrow>
      busy (world s') = (if r = 0 then insert f (busy (world s)) else busy (world s)) \<and>
      (f \<in> busy (world s) \<longrightarrow> r \<noteq> 0 \<and> errno s' = EBUSY)"
    by (rule law [THEN conjunct1, THEN spec, THEN spec, THEN spec, THEN spec, THEN spec, THEN spec, THEN mp])
  show "k_smc os f SMC_POLL m s = ((r, x), s') \<Longrightarrow>
      busy (world s') = (if r \<noteq> 0 \<and> errno s' = EAGAIN then busy (world s) else busy (world s) - {f})"
    by (rule law [THEN conjunct2, THEN conjunct1, THEN spec, THEN spec, THEN spec, THEN spec, THEN spec, THEN spec, THEN mp])
  show "k_smc os f SMC_ABANDON m s = ((r, x), s') \<Longrightarrow> r = 0 \<and> busy (world s') = busy (world s) - {f}"
    by (rule law [THEN conjunct2, THEN conjunct2, THEN conjunct1, THEN spec, THEN spec, THEN spec, THEN spec, THEN spec, THEN spec, THEN mp])
  show "k_clock os s = (t, s') \<Longrightarrow> busy (world s') = busy (world s)"
    by (rule law [THEN conjunct2, THEN conjunct2, THEN conjunct2, THEN conjunct1, THEN spec, THEN spec, THEN spec, THEN mp])
  show "k_usleep os us s = (u, s') \<Longrightarrow> busy (world s') = busy (world s)"
    by (rule law [THEN conjunct2, THEN conjunct2, THEN conjunct2, THEN conjunct2, THEN spec, THEN spec, THEN spec, THEN spec, THEN mp])
qed

lemma slot_post:
  assumes "smc_slot os busy" "tt_smc_post os (Some ss) (Some m) s = (rc, s')" "0 \<le> sess_fd ss"
  shows "busy (world s') = (if rc = TT_OK then insert (sess_fd ss) (busy (world s)) else busy (world s))"
    "sess_fd ss \<in> busy (world s) \<Longrightarrow> rc = TT_ERR \<and> errno s' = EBUSY"
proof -
  obtain r x s1 where k: "k_smc os (sess_fd ss) SMC_POST m s = ((r, x), s1)" by (metis surj_pair)
  show "busy (world s') = (if rc = TT_OK then insert (sess_fd ss) (busy (world s)) else busy (world s))"
    "sess_fd ss \<in> busy (world s) \<Longrightarrow> rc = TT_ERR \<and> errno s' = EBUSY"
    using assms(2,3) smc_slotD(1) [OF assms(1) k] k
    by (auto simp: tt_smc_post_def split: if_splits)
qed

lemma slot_poll:
  assumes "smc_slot os busy" "tt_smc_poll os (Some ss) rsp s = (rc, rsp', s')" "0 \<le> sess_fd ss" "rsp \<noteq> None"
  shows "busy (world s') =
    (if rc \<noteq> TT_OK \<and> errno s' = EAGAIN then busy (world s) else busy (world s) - {sess_fd ss})"
proof -
  obtain r x s1 where k: "k_smc os (sess_fd ss) SMC_POLL zero_msg s = ((r, x), s1)" by (metis surj_pair)
  show ?thesis
    using assms(2-) smc_slotD(2) [OF assms(1) k] k
    by (cases rsp; cases "r = 0") (simp_all add: tt_smc_poll_def, force+)
qed

lemma slot_drop:
  assumes "smc_slot os busy" "tt_smc_drop os (Some ss) s = (rc, s')" "0 \<le> sess_fd ss"
  shows "busy (world s') = busy (world s) - {sess_fd ss}"
proof -
  obtain r x s1 where k: "k_smc os (sess_fd ss) SMC_ABANDON zero_msg s = ((r, x), s1)" by (metis surj_pair)
  show ?thesis
    using assms(2,3) smc_slotD(3) [OF assms(1) k] k
    by (auto simp: tt_smc_drop_def split: if_splits)
qed

lemma slot_elapsed:
  assumes "smc_slot os busy" "elapsed_ms os start s = (ms, s')"
  shows "busy (world s') = busy (world s)"
  using assms(2) by (auto simp: elapsed_ms_def split: prod.splits dest: smc_slotD(4) [OF assms(1)])

lemma slot_usleep:
  assumes "smc_slot os busy"
  shows "busy (world (snd (k_usleep os us s))) = busy (world s)"
  by (cases "k_usleep os us s") (use smc_slotD(5) [OF assms] in simp)

lemma slot_wait_loop:
  assumes "smc_wait_loop os ss budget start spins rsp s = Some r" "smc_slot os busy" "0 \<le> sess_fd ss"
    "rsp \<noteq> None"
  shows "case r of (rc, rsp', s') \<Rightarrow>
      if rc = TT_OK \<or> errno s' \<noteq> ETIMEDOUT then busy (world s') = busy (world s) - {sess_fd ss}
      else busy (world s') - {sess_fd ss} = busy (world s) - {sess_fd ss}"
  using assms
proof (induction rule: smc_wait_induct)
  case (step loop os ss budget start spins rsp s r)
  obtain rc rsp1 s1 where p: "tt_smc_poll os (Some ss) rsp s = (rc, rsp1, s1)" by (metis prod_cases3)
  obtain ms s2 where e: "elapsed_ms os start s1 = (ms, s2)" by (metis prod.exhaust)
  let ?s3 = "if spins \<ge> SPIN_POLLS then snd (k_usleep os POLL_INTERVAL_US s2) else s2"
  note b = slot_poll [OF step(3) p step(4,5)]
  have b2: "busy (world s2) = busy (world s1)" by (rule slot_elapsed [OF step(3) e])
  have b3: "busy (world ?s3) = busy (world s2)" by (simp add: slot_usleep [OF step(3)])
  show ?case
  proof (cases "rc = TT_OK \<or> errno s1 \<noteq> EAGAIN \<or> ms \<ge> budget")
    case True
    then have "r = (rc, rsp1, s1) \<and> (rc = TT_OK \<or> errno s1 \<noteq> EAGAIN) \<or>
        r = (TT_ERR, rsp1, s2\<lparr>errno := ETIMEDOUT\<rparr>) \<and> errno s1 = EAGAIN"
      using step(2) p e poll_fails(1) [OF p] by (simp split: if_splits)
    then show ?thesis using b b2 by (elim disjE) auto
  next
    case False
    then have "loop os ss budget start (spins + 1) rsp1 ?s3 = Some r"
      using step(2) p e by simp
    moreover have "rsp1 \<noteq> None"
      using poll_fails(2) [OF p] False step(5) by simp
    ultimately show ?thesis
      using step(1) [of os ss budget start "spins + 1" rsp1 ?s3 r] step(3,4) b b2 b3 False by auto
  qed
qed

lemma slot_wait:
  assumes "smc_slot os busy" "0 \<le> sess_fd ss" "tt_smc_wait os (Some ss) (Some r0) timeout s = Some (rc, rsp', s')"
  shows "if rc = TT_OK \<or> errno s' \<noteq> ETIMEDOUT then busy (world s') = busy (world s) - {sess_fd ss}
    else busy (world s') - {sess_fd ss} = busy (world s) - {sess_fd ss}"
proof -
  obtain start s1 where c: "k_clock os s = (start, s1)" by (metis prod.exhaust)
  have "smc_wait_loop os ss (ucast (if timeout \<noteq> 0 then timeout else TT_SMC_TIMEOUT_DEFAULT)) start 0 (Some r0) s1
      = Some (rc, rsp', s')"
    using assms(2,3) c by (simp add: tt_smc_wait_def Let_def del: ucast_id)
  from slot_wait_loop [OF this assms(1,2)] show ?thesis
    by (simp add: smc_slotD(4) [OF assms(1) c])
qed


lemma stub_smc_slot: "smc_slot stub_os snd"
  by (auto simp: smc_slot_def stub_os_def call_def stub_smc_def)


end
