(* ===== verification/RsSmc.thy ===== *)
theory RsSmc
  imports RsSession Smc
begin

text \<open>
  \<open>src/bind/rs/src/dev/smc\<close>: messages to the management controller from Rust. A \<open>Queued\<close> holds the
  exclusive borrow of its session, so it contains it, and the flag that says whether its reply has
  been taken. \<open>call\<close> and \<open>post\<close> never go through \<open>perform\<close>.
\<close>

section \<open>Data\<close>

datatype message = Message (words: "u32 list")

definition message_default :: message where
  "message_default = Message (replicate 8 0)"

record queued =
  q_sess :: session
  q_done :: bool

text \<open>A \<open>Duration\<close>, in nanoseconds; \<open>as_millis\<close> rounds down and \<open>u32::try_from\<close> fails above the width.\<close>

type_synonym duration = nat

definition as_millis :: "duration \<Rightarrow> nat" where
  "as_millis d = d div 1000000"

definition millis :: "duration option \<Rightarrow> u32" where
  "millis timeout =
     (case timeout of None \<Rightarrow> 0
      | Some d \<Rightarrow> if as_millis d < 2 ^ 32 then of_nat (as_millis d) else 0xFFFFFFFF)"

section \<open>Operations\<close>

definition queued_post :: "'w os \<Rightarrow> session \<Rightarrow> message \<Rightarrow> 'w mach \<Rightarrow> queued result \<times> 'w mach" where
  "queued_post os sess req s =
     (case tt_smc_post os (session_ptr sess) (Some (words req)) s of (rc, s1) \<Rightarrow>
        (map_sum id (\<lambda>_. \<lparr>q_sess = sess, q_done = False\<rparr>) (check rc s1), s1))"

definition settle :: "unit result \<Rightarrow> error_kind \<Rightarrow> queued \<Rightarrow> queued" where
  "settle res retry q = q\<lparr>q_done := (case res of Inr _ \<Rightarrow> True | Inl err \<Rightarrow> kind err \<noteq> retry)\<rparr>"

definition queued_wait ::
  "'w os \<Rightarrow> duration option \<Rightarrow> queued \<Rightarrow> 'w mach \<Rightarrow> (message result \<times> queued \<times> 'w mach) option" where
  "queued_wait os timeout q s =
     (case tt_smc_wait os (session_ptr (q_sess q)) (Some (replicate 8 0)) (millis timeout) s of
        None \<Rightarrow> None
      | Some (rc, rsp, s1) \<Rightarrow>
          let res = check rc s1; q1 = settle res TimedOut q
          in Some (map_sum id (\<lambda>_. Message (the rsp)) res, q1, s1))"

definition queued_try_wait :: "'w os \<Rightarrow> queued \<Rightarrow> 'w mach \<Rightarrow> message result \<times> queued \<times> 'w mach" where
  "queued_try_wait os q s =
     (case tt_smc_poll os (session_ptr (q_sess q)) (Some (replicate 8 0)) s of (rc, rsp, s1) \<Rightarrow>
        let res = check rc s1; q1 = settle res WouldBlock q
        in (map_sum id (\<lambda>_. Message (the rsp)) res, q1, s1))"

definition queued_drop :: "'w os \<Rightarrow> queued \<Rightarrow> 'w mach \<Rightarrow> 'w mach" where
  "queued_drop os q s = (if \<not> q_done q then snd (tt_smc_drop os (session_ptr (q_sess q)) s) else s)"

definition rs_call ::
  "'w os \<Rightarrow> message \<Rightarrow> duration option \<Rightarrow> session \<Rightarrow> 'w mach \<Rightarrow> (message result \<times> 'w mach) option" where
  "rs_call os req timeout sess s =
     (case tt_smc_call os (session_ptr sess) (Some (words req)) (Some (replicate 8 0)) (millis timeout) s of
        None \<Rightarrow> None
      | Some (rc, rsp, s1) \<Rightarrow> Some (map_sum id (\<lambda>_. Message (the rsp)) (check rc s1), s1))"

definition rs_post :: "'w os \<Rightarrow> message \<Rightarrow> session \<Rightarrow> 'w mach \<Rightarrow> queued result \<times> 'w mach" where
  "rs_post os req sess s = queued_post os sess req s"

lemmas queued_defs = queued_post_def queued_wait_def queued_try_wait_def settle_def

section \<open>Timeouts\<close>

text \<open>
  A timeout reaches the driver in whole milliseconds, rounded down and saturated at the width.
  A timeout under a millisecond becomes \<open>0\<close>, which the C library takes for its default of a
  second and not for no wait, as it does an absent one.
\<close>

theorem millis_outcome:
  "unat (millis (Some d)) = min (d div 1000000) (2 ^ 32 - 1) \<and> millis None = 0 \<and>
   (millis (Some d) = 0 \<longleftrightarrow> d < 1000000)"
proof -
  have m: "unat (millis (Some d)) = min (d div 1000000) (2 ^ 32 - 1)"
    by (simp add: millis_def as_millis_def unsigned_of_nat take_bit_nat_eq_self)
  then have "millis (Some d) = 0 \<longleftrightarrow> d div 1000000 = 0"
    by (simp add: unat_eq_0 [symmetric] min_def)
  also have "\<dots> \<longleftrightarrow> d < 1000000" by (rule div_eq_0_iff [THEN trans]) simp
  finally show ?thesis using m by (simp add: millis_def)
qed

section \<open>A queued message\<close>

text \<open>What the owner of a \<open>Queued\<close> can do before dropping it.\<close>

inductive queued_step :: "'w os \<Rightarrow> queued \<times> 'w mach \<Rightarrow> queued \<times> 'w mach \<Rightarrow> bool" for os where
  step_wait: "queued_wait os timeout q s = Some (r, q', s') \<Longrightarrow> queued_step os (q, s) (q', s')"
| step_try_wait: "queued_try_wait os q s = (r, q', s') \<Longrightarrow> queued_step os (q, s) (q', s')"

inductive_cases queued_stepE: "queued_step os (q, s) (q', s')"

definition q_fd :: "queued \<Rightarrow> fd" where
  "q_fd q = sess_fd (ss_raw (q_sess q))"

lemma kind_Os: "kind (Os e) = TimedOut \<longleftrightarrow> e = ETIMEDOUT" "kind (Os e) = WouldBlock \<longleftrightarrow> e = EAGAIN"
  by (simp_all add: decode_kind_def)

text \<open>
  The slot belongs to the handle: no step touches another descriptor's, and once the handle reads as
  done its own is free.
\<close>

lemma queued_step_slot:
  assumes "queued_step os (q, s) (q', s')" "smc_slot os busy" "0 \<le> q_fd q"
  shows "q_sess q' = q_sess q" "busy (world s') - {q_fd q} = busy (world s) - {q_fd q}"
    "q_done q' \<Longrightarrow> q_fd q \<notin> busy (world s')"
proof -
  have "q_sess q' = q_sess q \<and> busy (world s') - {q_fd q} = busy (world s) - {q_fd q} \<and>
    (q_done q' \<longrightarrow> q_fd q \<notin> busy (world s'))"
  proof -
    consider (wait) timeout r where "queued_wait os timeout q s = Some (r, q', s')"
      | (poll) r where "queued_try_wait os q s = (r, q', s')"
      using assms(1) by (auto elim: queued_stepE)
    then show ?thesis
    proof cases
      case wait
      then obtain rc rsp where w: "tt_smc_wait os (Some (ss_raw (q_sess q))) (Some (replicate 8 0)) (millis timeout) s
          = Some (rc, rsp, s')" and q': "q' = settle (check rc s') TimedOut q"
        by (auto simp: queued_wait_def Let_def split: option.splits prod.splits)
      show ?thesis
        using slot_wait [OF assms(2) _ w] assms(3) q'
        by (cases "rc = TT_OK") (auto simp: q_fd_def settle_def kind_Os simp del: kind.simps split: if_splits)
    next
      case poll
      then obtain rc rsp where p: "tt_smc_poll os (Some (ss_raw (q_sess q))) (Some (replicate 8 0)) s = (rc, rsp, s')"
        and q': "q' = settle (check rc s') WouldBlock q"
        by (auto simp: queued_try_wait_def Let_def split: prod.splits)
      show ?thesis
        using slot_poll [OF assms(2) p] assms(3) q'
        by (cases "rc = TT_OK") (auto simp: q_fd_def settle_def kind_Os simp del: kind.simps split: if_splits)
    qed
  qed
  then show "q_sess q' = q_sess q" "busy (world s') - {q_fd q} = busy (world s) - {q_fd q}"
    "q_done q' \<Longrightarrow> q_fd q \<notin> busy (world s')" by auto
qed

lemma queued_steps_slot:
  assumes "(queued_step os)\<^sup>*\<^sup>* (q, s) (q', s')" "smc_slot os busy" "0 \<le> q_fd q" "\<not> q_done q"
  shows "q_sess q' = q_sess q \<and> busy (world s') - {q_fd q} = busy (world s) - {q_fd q} \<and>
    (q_done q' \<longrightarrow> q_fd q \<notin> busy (world s'))"
  using assms(1)
proof (induction rule: rtranclp_induct2)
  case refl
  then show ?case using assms(4) by simp
next
  case (step q1 s1 q2 s2)
  have "q_fd q1 = q_fd q" using step.IH by (simp add: q_fd_def)
  then show ?case
    using queued_step_slot [OF step.hyps(2) assms(2)] step.IH assms(3) by simp
qed

text \<open>
  C12: a posted message never outlives its handle. Whatever waits, polls and timeouts the owner goes
  through, once the handle is dropped the session's slot is free, as it was before the post, and no
  other descriptor's slot has changed.
\<close>

theorem queued_never_leaks:
  assumes "smc_slot os busy" "rs_post os req sess s = (Inr q, s1)" "(queued_step os)\<^sup>*\<^sup>* (q, s1) (q', s2)"
  shows "busy (world (queued_drop os q' s2)) = busy (world s) \<and>
    sess_fd (ss_raw sess) \<notin> busy (world s)"
proof -
  let ?f = "sess_fd (ss_raw sess)"
  have p: "tt_smc_post os (Some (ss_raw sess)) (Some (words req)) s = (TT_OK, s1)"
    and q: "q = \<lparr>q_sess = sess, q_done = False\<rparr>"
    using assms(2) by (auto simp: rs_post_def queued_post_def map_sum_def split: prod.splits sum.splits)
  have fd: "0 \<le> ?f" using smc_post.ok_open [OF p] by simp
  note b = slot_post [OF assms(1) p fd]
  then have free: "?f \<notin> busy (world s)" by auto
  have st: "q_sess q' = sess \<and> busy (world s2) - {?f} = busy (world s1) - {?f} \<and>
      (q_done q' \<longrightarrow> ?f \<notin> busy (world s2))"
    using queued_steps_slot [OF assms(3,1)] fd by (simp add: q q_fd_def)
  obtain rc s3 where d: "tt_smc_drop os (Some (ss_raw sess)) s2 = (rc, s3)" by (metis prod.exhaust)
  have "busy (world (queued_drop os q' s2)) - {?f} = busy (world s) \<and> ?f \<notin> busy (world (queued_drop os q' s2))"
    using st b(1) free d slot_drop [OF assms(1) d fd] by (auto simp: queued_drop_def)
  then show ?thesis using free by (metis Diff_idemp Diff_insert_absorb insert_Diff_single)
qed

theorem queued_never_leaks_witness:
  "\<exists>q' s2. snd (world (queued_drop stub_os q' s2)) = {} \<and> q_done q' \<and>
     (\<exists>q s1. rs_post stub_os (Message [1, 2, 3, 4, 5, 6, 7, 8])
        \<lparr>ss_raw = \<lparr>sess_dev = \<lparr>dev_id = 0\<rparr>, sess_fd = 3, sess_flags = 0\<rparr>, ss_opts = options_new\<rparr> stub_mach
        = (Inr q, s1) \<and> snd (world s1) = {3})"
proof -
  let ?x = "\<lparr>ss_raw = \<lparr>sess_dev = \<lparr>dev_id = 0\<rparr>, sess_fd = 3, sess_flags = 0\<rparr>, ss_opts = options_new\<rparr>"
  let ?q = "\<lparr>q_sess = ?x, q_done = False\<rparr>"
  let ?m = "Message [1, 2, 3, 4, 5, 6, 7, 8]"
  obtain s1 where p: "rs_post stub_os ?m ?x stub_mach = (Inr ?q, s1)" and b: "snd (world s1) = {3}"
    by (simp add: rs_post_def queued_post_def tt_smc_post_def stub_defs stub_smc_def)
  obtain r q' s2 where w: "queued_try_wait stub_os ?q s1 = (r, q', s2)" by (metis prod_cases3)
  have d: "q_done q'"
    using w b by (auto simp: queued_try_wait_def tt_smc_poll_def settle_def stub_defs stub_smc_def Let_def)
  have "(queued_step stub_os)\<^sup>*\<^sup>* (?q, s1) (q', s2)"
    by (rule r_into_rtranclp, rule step_try_wait [OF w])
  from queued_never_leaks [OF stub_smc_slot p this] d p b show ?thesis
    by (intro exI [of _ q'] exI [of _ s2]) (auto simp: stub_mach_def)
qed

section \<open>Calls\<close>

lemma call_requests:
  assumes "keeps_time os now"
  shows "\<exists>rc rsp s'. tt_smc_call os (Some ss) (Some m) (Some r0) timeout s = Some (rc, rsp, s') \<and>
    extends s s' \<and> opened (since s s') = [] \<and> closed (since s s') = [] \<and>
    (\<exists>ps. ioctls (since s s') \<in> {[], (sess_fd ss, IoSmc SMC_POST m) # ps} \<and>
       set ps \<subseteq> {(sess_fd ss, IoSmc SMC_POLL zero_msg), (sess_fd ss, IoSmc SMC_ABANDON zero_msg)})"
proof -
  obtain rc s1 where p: "tt_smc_post os (Some ss) (Some m) s = (rc, s1)" by (metis prod.exhaust)
  obtain rc2 rsp2 s2 where w: "tt_smc_wait os (Some ss) (Some r0) timeout s1 = Some (rc2, rsp2, s2)"
    and o: "only_polls ss s1 s2"
    using smc_wait_total [OF assms, of ss r0 timeout s1] by blast
  obtain rc3 s3 where d: "tt_smc_drop os (Some ss) s2 = (rc3, s3)" by (metis prod.exhaust)
  have e1: "extends s s1" "opened (since s s1) = []" "closed (since s s1) = []"
    "ioctls (since s s1) = (if sess_fd ss < 0 then [] else [(sess_fd ss, IoSmc SMC_POST m)])"
    "sess_fd ss < 0 \<Longrightarrow> rc = TT_ERR"
    using p by (auto simp: tt_smc_post_def since_eq extendsI split: prod.splits if_splits dest!: call_trace)
  have e3: "extends s2 s3" "opened (since s2 s3) = []" "closed (since s2 s3) = []"
    "set (ioctls (since s2 s3)) \<subseteq> {(sess_fd ss, IoSmc SMC_ABANDON zero_msg)}"
    using d by (auto simp: tt_smc_drop_def since_eq extendsI split: prod.splits if_splits dest!: call_trace)
  have e2: "extends s1 s2" "opened (since s1 s2) = []" "closed (since s1 s2) = []"
    "set (ioctls (since s1 s2)) \<subseteq> {(sess_fd ss, IoSmc SMC_POLL zero_msg)}"
    using o by (auto simp: only_polls_def)
  note t2 = trace_trans [OF e1(1) e2(1)]
  note t3 = trace_trans [OF t2(1) e3(1)]
  consider "rc \<noteq> TT_OK" | "rc = TT_OK" "rc2 = TT_OK" | "rc = TT_OK" "rc2 \<noteq> TT_OK" by blast
  then show ?thesis
  proof cases
    case 1
    then have "tt_smc_call os (Some ss) (Some m) (Some r0) timeout s = Some (TT_ERR, Some r0, s1)"
      using p by (simp add: tt_smc_call_def)
    then show ?thesis using e1 by (auto intro!: exI [of _ "[]"])
  next
    case 2
    then have "tt_smc_call os (Some ss) (Some m) (Some r0) timeout s = Some (TT_OK, rsp2, s2)"
      using p w by (simp add: tt_smc_call_def)
    then show ?thesis using 2 e1 e2 t2 by (auto intro!: exI [of _ "ioctls (since s1 s2)"])
  next
    case 3
    then have "tt_smc_call os (Some ss) (Some m) (Some r0) timeout s
        = Some (TT_ERR, rsp2, s3\<lparr>errno := errno s2\<rparr>)"
      using p w d by (simp add: tt_smc_call_def Let_def)
    then show ?thesis
      using 3 e1 e2 e3 t2 t3 by (auto intro!: exI [of _ "ioctls (since s1 s2) @ ioctls (since s2 s3)"])
  qed
qed

text \<open>
  C30: a call returns, and sends its message at most once, on the session's own descriptor, whether the
  session is persistent or not: it never reopens, so a message that ran before a reset is not run twice.
\<close>

theorem rs_call_once:
  assumes "keeps_time os now"
  shows "\<exists>r s'. rs_call os req timeout sess s = Some (r, s') \<and>
    opened (since s s') = [] \<and> closed (since s s') = [] \<and>
    (\<exists>ps. ioctls (since s s') \<in> {[], (sess_fd (ss_raw sess), IoSmc SMC_POST (words req)) # ps} \<and>
       set ps \<subseteq> {sess_fd (ss_raw sess)} \<times> {IoSmc SMC_POLL zero_msg, IoSmc SMC_ABANDON zero_msg})"
proof -
  obtain rc rsp s' where c: "tt_smc_call os (Some (ss_raw sess)) (Some (words req)) (Some (replicate 8 0))
      (millis timeout) s = Some (rc, rsp, s')"
    and o: "opened (since s s') = []" "closed (since s s') = []"
    and i: "\<exists>ps. ioctls (since s s') \<in> {[], (sess_fd (ss_raw sess), IoSmc SMC_POST (words req)) # ps} \<and>
       set ps \<subseteq> {(sess_fd (ss_raw sess), IoSmc SMC_POLL zero_msg), (sess_fd (ss_raw sess), IoSmc SMC_ABANDON zero_msg)}"
    using call_requests [OF assms] by blast
  obtain ps where "ioctls (since s s') \<in> {[], (sess_fd (ss_raw sess), IoSmc SMC_POST (words req)) # ps}"
    "set ps \<subseteq> {sess_fd (ss_raw sess)} \<times> {IoSmc SMC_POLL zero_msg, IoSmc SMC_ABANDON zero_msg}"
    using i by auto
  then show ?thesis using c o by (auto simp: rs_call_def)
qed

theorem rs_call_once_witness:
  "rs_call stub_os (Message [1, 2, 3, 4, 5, 6, 7, 8]) None
     \<lparr>ss_raw = \<lparr>sess_dev = \<lparr>dev_id = 0\<rparr>, sess_fd = 3, sess_flags = 0\<rparr>,
      ss_opts = options_persistent True options_new\<rparr> stub_mach \<noteq> None"
  using rs_call_once [OF stub_keeps_time] by (metis option.distinct(1))

end
