(* ===== verification/RsPower.thy ===== *)
theory RsPower
  imports RsSession
begin

text \<open>
  \<open>src/bind/rs/src/dev/power.rs\<close>: power flags, sets of them, and the request for a power state.
\<close>

section \<open>Flags\<close>

datatype flag = MaxAiClk | MriscPhyWakeup | TensixEnable | L2CpuEnable

fun flag_raw :: "flag \<Rightarrow> u16" where
  "flag_raw MaxAiClk = TT_POWER_MAX_AI_CLK"
| "flag_raw MriscPhyWakeup = TT_POWER_MRISC_PHY_WAKEUP"
| "flag_raw TensixEnable = TT_POWER_TENSIX_ENABLE"
| "flag_raw L2CpuEnable = TT_POWER_L2CPU_ENABLE"

datatype flag_set = FlagSet (set_bits: u16)

definition flag_set_default :: flag_set where "flag_set_default = FlagSet 0"
definition flag_set_HI :: flag_set where "flag_set_HI = FlagSet (NOT 0)"
definition flag_set_LO :: flag_set where "flag_set_LO = FlagSet 0"

definition from_flag :: "flag \<Rightarrow> flag_set" where
  "from_flag f = FlagSet (flag_raw f)"

definition from_iter :: "flag list \<Rightarrow> flag_set" where
  "from_iter flags = FlagSet (foldl (\<lambda>acc f. acc OR flag_raw f) 0 flags)"

definition from_array :: "flag list \<Rightarrow> flag_set" where
  "from_array flags = from_iter flags"

section \<open>The request\<close>

definition power_op :: "'w os \<Rightarrow> flag_set \<Rightarrow> session \<Rightarrow> 'w mach \<Rightarrow> (unit result \<times> 'w mach) option" where
  "power_op os flags sess s =
     (let raw = set_bits flags in
      (case tt_power os (session_ptr sess) raw s of (rc, s1) \<Rightarrow> Some (check rc s1, s1)))"

definition rs_power :: "'w os \<Rightarrow> flag_set \<Rightarrow> session \<Rightarrow> 'w mach \<Rightarrow> (unit result \<times> session \<times> 'w mach) option" where
  "rs_power os flags sess s = perform os (power_op os flags) sess s"

lemma power_steady: "steady_op (power_op os flags)"
proof -
  have "extends s s' \<and> opened (since s s') = [] \<and> closed (since s s') = []"
    if "tt_power os (Some ss) raw s = (rc, s')" for ss raw s rc s'
    by (rule power.steady [OF that])
  then show ?thesis by (auto simp: steady_op_def power_op_def Let_def split: prod.splits)
qed

section \<open>What sets of flags promise\<close>

lemmas flag_bits = TT_POWER_MAX_AI_CLK_def TT_POWER_MRISC_PHY_WAKEUP_def TT_POWER_TENSIX_ENABLE_def
  TT_POWER_L2CPU_ENABLE_def

lemma bit_fold_flags:
  "bit (foldl (\<lambda>acc f. acc OR flag_raw f) a flags) i \<longleftrightarrow> bit a i \<or> (\<exists>f \<in> set flags. bit (flag_raw f) i)"
  by (induction flags arbitrary: a) (auto simp: bit_or_iff)

lemma bit_from_iter: "bit (set_bits (from_iter flags)) i \<longleftrightarrow> (\<exists>f \<in> set flags. bit (flag_raw f) i)"
  by (simp add: from_iter_def bit_fold_flags)

definition flag_index :: "flag \<Rightarrow> nat" where
  "flag_index f = (case f of MaxAiClk \<Rightarrow> 0 | MriscPhyWakeup \<Rightarrow> 1 | TensixEnable \<Rightarrow> 2 | L2CpuEnable \<Rightarrow> 3)"

lemma bit_flag_raw: "bit (flag_raw f) i \<longleftrightarrow> i = flag_index f"
proof -
  have "flag_raw f = push_bit (flag_index f) 1"
    by (cases f) (simp_all add: flag_bits flag_index_def push_bit_eq_mult)
  moreover have "flag_index f < 16" by (cases f) (simp_all add: flag_index_def)
  ultimately show ?thesis by (auto simp: bit_exp_iff possible_bit_def)
qed

lemma flag_index_inj: "flag_index f = flag_index g \<longleftrightarrow> f = g"
  by (cases f; cases g) (simp_all add: flag_index_def)

text \<open>
  A set built from flags contains a flag's bit exactly if the flag was given, and no other bit: the
  order and the repetitions do not matter, and two lists make the same set exactly if they
  have the same elements.
\<close>

theorem from_iter_is_set:
  "(bit (set_bits (from_iter flags)) (flag_index f) \<longleftrightarrow> f \<in> set flags) \<and>
   set_bits (from_iter flags) AND NOT 0xF = 0 \<and>
   (from_iter flags = from_iter flags' \<longleftrightarrow> set flags = set flags')"
proof -
  have mem: "bit (set_bits (from_iter fs)) (flag_index f) \<longleftrightarrow> f \<in> set fs" for fs f
    by (auto simp: bit_from_iter bit_flag_raw flag_index_inj)
  have hi: "\<not> bit (set_bits (from_iter flags)) i" if "4 \<le> i" for i
    using that by (auto simp: bit_from_iter bit_flag_raw flag_index_def split: flag.splits)
  have "(0xF :: u16) = mask 4" by (simp add: mask_numeral)
  then have lo: "bit (NOT 0xF :: u16) i \<Longrightarrow> 4 \<le> i" for i
    by (simp only: bit_not_iff bit_mask_iff) auto
  have "set_bits (from_iter flags) AND NOT 0xF = 0"
    using hi lo by (intro bit_eqI) (auto simp: bit_and_iff)
  moreover have "set flags = set flags'" if "from_iter flags = from_iter flags'"
    using mem that by (metis subsetI subset_antisym)
  moreover have "from_iter flags = from_iter flags'" if "set flags = set flags'"
    using that by (intro flag_set.expand bit_eqI) (simp add: bit_from_iter)
  ultimately show ?thesis using mem by blast
qed

text \<open>
  A successful request is one the driver accepted on the session the call leaves behind, last, with
  the whole set as the desired state: the four defined flags valid and exactly the given ones on.
\<close>

theorem rs_power_requests:
  assumes "rs_power os (from_array flags) sess s = Some (Inr u, sess', s')"
  shows "\<exists>s0 (p :: kmd_power_state). since s0 s' = [EvIoctl (sess_fd (ss_raw sess')) (IoPower p) 0] \<and> k_validity p = 4 \<and>
    (\<forall>f. bit (k_power_flags p) (flag_index f) \<longleftrightarrow> f \<in> set flags)"
proof -
  have mem: "bit (set_bits (from_iter flags)) (flag_index f) \<longleftrightarrow> f \<in> set flags" for f
    by (auto simp: bit_from_iter bit_flag_raw flag_index_inj)
  obtain s0 where "power_op os (from_array flags) sess' s0 = Some (Inr u, s')"
    by (rule perform_ok [OF assms [unfolded rs_power_def]])
  then have p: "tt_power os (Some (ss_raw sess')) (set_bits (from_array flags)) s0 = (TT_OK, s')"
    by (cases "tt_power os (Some (ss_raw sess')) (set_bits (from_array flags)) s0") (simp add: power_op_def)
  then have "0 \<le> sess_fd (ss_raw sess')" using power.ok_open [OF p] by simp
  then have "since s0 s' = [EvIoctl (sess_fd (ss_raw sess')) (IoPower
      \<lparr>k_argsz = 40, k_flags = 0, k_reserved0 = 0, k_validity = 4, k_power_flags = set_bits (from_array flags)\<rparr>) 0]"
    using tt_power_asks [OF _ p] by auto
  then show ?thesis using mem
    by (intro exI [of _ s0] exI [of _ "\<lparr>k_argsz = 40, k_flags = 0, k_reserved0 = 0, k_validity = 4,
          k_power_flags = set_bits (from_array flags)\<rparr>"]) (simp add: from_array_def)
qed

theorem rs_power_requests_witness:
  "\<exists>p :: kmd_power_state. bit (k_power_flags p) 0 \<and> bit (k_power_flags p) 2 \<and> \<not> bit (k_power_flags p) 3"
proof -
  let ?x = "\<lparr>ss_raw = \<lparr>sess_dev = \<lparr>dev_id = 0\<rparr>, sess_fd = 3, sess_flags = 0\<rparr>, ss_opts = options_new\<rparr>"
  obtain s' where "tt_power stub_os (Some (ss_raw ?x)) (set_bits (from_array [MaxAiClk, TensixEnable])) stub_mach
      = (TT_OK, s')"
    by (simp add: tt_power_def stub_defs)
  then have p: "rs_power stub_os (from_array [MaxAiClk, TensixEnable]) ?x stub_mach = Some (Inr (), ?x, s')"
    by (simp add: rs_power_def power_op_def perform_def options_new_def)
  have "\<exists>p :: kmd_power_state. \<forall>f. bit (k_power_flags p) (flag_index f) \<longleftrightarrow> f \<in> set [MaxAiClk, TensixEnable]"
    using rs_power_requests [OF p] by (elim exE conjE) (rule exI)
  then obtain p :: kmd_power_state
    where "\<forall>f. bit (k_power_flags p) (flag_index f) \<longleftrightarrow> f \<in> set [MaxAiClk, TensixEnable]" ..
  from this [THEN spec, of MaxAiClk] this [THEN spec, of TensixEnable] this [THEN spec, of L2CpuEnable]
  show ?thesis by (intro exI [of _ p]) (simp add: flag_index_def)
qed

end
