(* ===== verification/RsTag.thy ===== *)
theory RsTag
  imports Main
begin

text \<open>
  The telemetry tags of \<open>src/bind/rs/src/dev/telem.rs\<close>, in their own theory because so large an
  enumeration takes a while to define. A tag's value is its index into the table (\<open>tag as usize\<close>).
\<close>

datatype (plugins only: size) tag =
    BoardIdHigh | BoardIdLow | AsicId | HarvestingState | UpdateTelemSpeed | Vcore | Tdp | Tdc
    | VddLimits | ThmLimitShutdown | AsicTemperature | VregTemperature | BoardTemperature
    | AiClk | AxiClk | SmcClk | L2CpuClk0 | L2CpuClk1 | L2CpuClk2 | L2CpuClk3 | EthLiveStatus
    | GddrStatus | GddrSpeed | EthFwVersion | GddrFwVersion | DmAppFwVersion | DmBlFwVersion
    | FlashBundleVersion | CmFwVersion | L2CpuFwVersion | FanSpeed | TimerHeartbeat
    | EnabledTensixCol | EnabledEth | EnabledGddr | EnabledL2Cpu | PcieUsage | InputCurrent
    | NocTranslation | FanRpm | Gddr01Temp | Gddr23Temp | Gddr45Temp | Gddr67Temp
    | Gddr01CorrErrs | Gddr23CorrErrs | Gddr45CorrErrs | Gddr67CorrErrs | GddrUncorrErrs
    | MaxGddrTemp | AsicLocation | BoardPowerLimit | InputPower | TdcLimitMax | ThmLimitThrottle
    | FwBuildDate | TtFlashVersion | EnabledTensixRow | ThermTripCount | AsicIdHigh | AsicIdLow
    | AiClkLimitMax | TdpLimitMax | AiClkArbMin | AiClkArbMax | EnabledMinArb | EnabledMaxArb

primrec tag_raw :: "tag \<Rightarrow> nat" where
  "tag_raw BoardIdHigh = 1"
| "tag_raw BoardIdLow = 2"
| "tag_raw AsicId = 3"
| "tag_raw HarvestingState = 4"
| "tag_raw UpdateTelemSpeed = 5"
| "tag_raw Vcore = 6"
| "tag_raw Tdp = 7"
| "tag_raw Tdc = 8"
| "tag_raw VddLimits = 9"
| "tag_raw ThmLimitShutdown = 10"
| "tag_raw AsicTemperature = 11"
| "tag_raw VregTemperature = 12"
| "tag_raw BoardTemperature = 13"
| "tag_raw AiClk = 14"
| "tag_raw AxiClk = 15"
| "tag_raw SmcClk = 16"
| "tag_raw L2CpuClk0 = 17"
| "tag_raw L2CpuClk1 = 18"
| "tag_raw L2CpuClk2 = 19"
| "tag_raw L2CpuClk3 = 20"
| "tag_raw EthLiveStatus = 21"
| "tag_raw GddrStatus = 22"
| "tag_raw GddrSpeed = 23"
| "tag_raw EthFwVersion = 24"
| "tag_raw GddrFwVersion = 25"
| "tag_raw DmAppFwVersion = 26"
| "tag_raw DmBlFwVersion = 27"
| "tag_raw FlashBundleVersion = 28"
| "tag_raw CmFwVersion = 29"
| "tag_raw L2CpuFwVersion = 30"
| "tag_raw FanSpeed = 31"
| "tag_raw TimerHeartbeat = 32"
| "tag_raw EnabledTensixCol = 34"
| "tag_raw EnabledEth = 35"
| "tag_raw EnabledGddr = 36"
| "tag_raw EnabledL2Cpu = 37"
| "tag_raw PcieUsage = 38"
| "tag_raw InputCurrent = 39"
| "tag_raw NocTranslation = 40"
| "tag_raw FanRpm = 41"
| "tag_raw Gddr01Temp = 42"
| "tag_raw Gddr23Temp = 43"
| "tag_raw Gddr45Temp = 44"
| "tag_raw Gddr67Temp = 45"
| "tag_raw Gddr01CorrErrs = 46"
| "tag_raw Gddr23CorrErrs = 47"
| "tag_raw Gddr45CorrErrs = 48"
| "tag_raw Gddr67CorrErrs = 49"
| "tag_raw GddrUncorrErrs = 50"
| "tag_raw MaxGddrTemp = 51"
| "tag_raw AsicLocation = 52"
| "tag_raw BoardPowerLimit = 53"
| "tag_raw InputPower = 54"
| "tag_raw TdcLimitMax = 55"
| "tag_raw ThmLimitThrottle = 56"
| "tag_raw FwBuildDate = 57"
| "tag_raw TtFlashVersion = 58"
| "tag_raw EnabledTensixRow = 59"
| "tag_raw ThermTripCount = 60"
| "tag_raw AsicIdHigh = 61"
| "tag_raw AsicIdLow = 62"
| "tag_raw AiClkLimitMax = 63"
| "tag_raw TdpLimitMax = 64"
| "tag_raw AiClkArbMin = 65"
| "tag_raw AiClkArbMax = 66"
| "tag_raw EnabledMinArb = 67"
| "tag_raw EnabledMaxArb = 68"

definition all_tags :: "tag list" where
  "all_tags =
     [BoardIdHigh, BoardIdLow, AsicId, HarvestingState, UpdateTelemSpeed, Vcore, Tdp, Tdc,
      VddLimits, ThmLimitShutdown, AsicTemperature, VregTemperature, BoardTemperature, AiClk,
      AxiClk, SmcClk, L2CpuClk0, L2CpuClk1, L2CpuClk2, L2CpuClk3, EthLiveStatus, GddrStatus,
      GddrSpeed, EthFwVersion, GddrFwVersion, DmAppFwVersion, DmBlFwVersion,
      FlashBundleVersion, CmFwVersion, L2CpuFwVersion, FanSpeed, TimerHeartbeat,
      EnabledTensixCol, EnabledEth, EnabledGddr, EnabledL2Cpu, PcieUsage, InputCurrent,
      NocTranslation, FanRpm, Gddr01Temp, Gddr23Temp, Gddr45Temp, Gddr67Temp, Gddr01CorrErrs,
      Gddr23CorrErrs, Gddr45CorrErrs, Gddr67CorrErrs, GddrUncorrErrs, MaxGddrTemp,
      AsicLocation, BoardPowerLimit, InputPower, TdcLimitMax, ThmLimitThrottle, FwBuildDate,
      TtFlashVersion, EnabledTensixRow, ThermTripCount, AsicIdHigh, AsicIdLow, AiClkLimitMax,
      TdpLimitMax, AiClkArbMin, AiClkArbMax, EnabledMinArb, EnabledMaxArb]"

lemma in_all_tags: "t \<in> set all_tags"
  by (cases t) (simp_all add: all_tags_def)

lemma tag_values: "map tag_raw all_tags = filter (\<lambda>n. n \<noteq> 33) [1..<69]"
  by (simp add: all_tags_def upt_rec)

lemma tag_raw_range: "tag_raw t \<in> {1..<69} - {33}"
proof -
  have "tag_raw t \<in> set (map tag_raw all_tags)" using in_all_tags by simp
  then show ?thesis unfolding tag_values by auto
qed

lemma tag_raw_bound: "tag_raw t < 69"
  using tag_raw_range [of t] by simp

lemma tag_raw_inj: "tag_raw t = tag_raw u \<longleftrightarrow> t = u"
proof
  have "distinct (map tag_raw all_tags)" unfolding tag_values by simp
  then have "inj_on tag_raw (set all_tags)" by (simp add: distinct_map)
  then show "tag_raw t = tag_raw u \<Longrightarrow> t = u" using in_all_tags by (auto dest: inj_onD)
qed simp

lemma tag_raw_onto: "n \<in> {1..<69} - {33} \<Longrightarrow> \<exists>t. tag_raw t = n"
proof -
  assume "n \<in> {1..<69} - {33}"
  then have "n \<in> set (map tag_raw all_tags)" unfolding tag_values by auto
  then show ?thesis by auto
qed

end
