(* ===== verification/RsTelem.thy ===== *)
theory RsTelem
  imports RsSession RsTag Telem
begin

text \<open>
  \<open>src/bind/rs/src/dev/telem.rs\<close>: the snapshot that tags index, and its reading.
\<close>

section \<open>Snapshots\<close>

datatype telemetry = Telemetry (telem_table: "u32 list")

definition telem_get :: "telemetry \<Rightarrow> tag \<Rightarrow> u32 option" where
  "telem_get t tag =
     (if tag_raw tag < length (telem_table t) then Some (telem_table t ! tag_raw tag) else None)"

text \<open>Indexing panics out of range.\<close>

definition telem_index :: "telemetry \<Rightarrow> tag \<Rightarrow> u32 option" where
  "telem_index t tag =
     (if tag_raw tag < length (telem_table t) then Some (telem_table t ! tag_raw tag) else None)"

definition telem_op :: "'w os \<Rightarrow> session \<Rightarrow> 'w mach \<Rightarrow> (telemetry result \<times> 'w mach) option" where
  "telem_op os sess s =
     (case tt_telemetry os (session_ptr sess) (Some (replicate TT_TELEMETRY_LEN 0)) s of
        None \<Rightarrow> None
      | Some p \<Rightarrow> (case checked p of (r, s1) \<Rightarrow> Some (map_sum id Telemetry r, s1)))"

definition rs_telemetry :: "'w os \<Rightarrow> session \<Rightarrow> 'w mach \<Rightarrow> (telemetry result \<times> session \<times> 'w mach) option" where
  "rs_telemetry os sess s = perform os (telem_op os) sess s"

section \<open>The table keeps its size\<close>

definition sized :: "('a, 'w) guarded \<Rightarrow> bool" where
  "sized m \<longleftrightarrow> (\<forall>t s r t' s'. m (t, s) = (r, t', s') \<longrightarrow> length t = TT_TELEMETRY_LEN \<longrightarrow> length t' = TT_TELEMETRY_LEN)"

lemma sized_simps [simp]: "sized (gret x)" "sized (gfail e)" "sized (gload os a)" "sized (gword os b i)"
  by (auto simp: sized_def gret_def gfail_def gload_def gword_def split: prod.splits option.splits trap_action.splits)

lemma sized_gtable: "(\<And>t. length t = TT_TELEMETRY_LEN \<Longrightarrow> length (f t) = TT_TELEMETRY_LEN) \<Longrightarrow> sized (gtable f)"
  by (auto simp: sized_def gtable_def)

lemma sized_gbind:
  assumes "sized m" "\<And>x. sized (k x)"
  shows "sized (gbind m k)"
  unfolding sized_def
proof (intro allI impI)
  fix t s r t' s'
  assume run: "gbind m k (t, s) = (r, t', s')" and l: "length t = TT_TELEMETRY_LEN"
  obtain r1 t1 s1 where m: "m (t, s) = (r1, t1, s1)" by (metis prod_cases3)
  then have l1: "length t1 = TT_TELEMETRY_LEN" using assms(1) l unfolding sized_def by blast
  show "length t' = TT_TELEMETRY_LEN"
  proof (cases r1)
    case (Val x)
    then have "k x (t1, s1) = (r, t', s')" using run m by (simp add: gbind_def)
    then show ?thesis using assms(2) [of x] l1 unfolding sized_def by blast
  qed (use run m l1 in \<open>auto simp: gbind_def\<close>)
qed

lemma sized_build_map: "sized (build_map os tbl idx n offs)"
  by (induction n arbitrary: idx offs) (auto simp: Let_def intro!: sized_gbind)

lemma sized_read_tags: "sized (read_tags os data offs tags)"
  by (induction tags) (auto intro!: sized_gbind sized_gtable)

lemma sized_attempts: "sized (attempts os data offs n)"
  by (induction n) (auto intro!: sized_gbind sized_gtable sized_read_tags)

lemma sized_snapshot: "sized (snapshot os tbl data)"
  by (auto simp: snapshot_def Let_def intro!: sized_gbind sized_build_map sized_attempts split: option.split)

lemma cleanup_err: "telem_cleanup os ss tlb table s = (rc, tb, s') \<Longrightarrow> rc = TT_ERR"
  by (auto simp: telem_cleanup_def Let_def split: prod.splits)

lemma telem_csm_sized:
  assumes "telem_csm os ss tlb ptags pdata x y table s = Some (TT_OK, Some t, s')"
    "length table = TT_TELEMETRY_LEN"
  shows "length t = TT_TELEMETRY_LEN"
proof -
  have keep: "snapshot os tbl data (table, u) = (g, tb, v) \<Longrightarrow> length tb = TT_TELEMETRY_LEN" for tbl data u g tb v
    using sized_snapshot assms(2) unfolding sized_def by blast
  show ?thesis
    using assms(1)
    by (auto simp: telem_csm_def Let_def split: prod.splits if_splits gres.splits dest!: cleanup_err dest: keep)
qed

lemma tt_telemetry_sized:
  assumes "tt_telemetry os (Some ss) (Some t0) s = Some (TT_OK, Some t, s')"
  shows "length t = TT_TELEMETRY_LEN"
proof -
  have pre: "sized (gbind (gload os a) (\<lambda>x. gbind (gload os b) (\<lambda>y. gret (x, y))))" for a b
    by (intro sized_gbind sized_simps)
  have keep: "length tb = TT_TELEMETRY_LEN"
    if "gbind (gload os a) (\<lambda>x. gbind (gload os b) (\<lambda>y. gret (x, y))) (replicate TT_TELEMETRY_LEN 0, u) = (g, tb, v)"
    for a b u g tb v
    using pre that unfolding sized_def by (metis length_replicate)
  show ?thesis
    using assms
    by (auto simp: tt_telemetry_def Let_def split: prod.splits if_splits option.splits gres.splits
        dest!: cleanup_err keep dest: telem_csm_sized)
qed

section \<open>What telemetry promises\<close>

lemma telem_op_total:
  assumes "mapping_calls os" "window_calls os"
  shows "telem_op os sess s \<noteq> None"
  using tt_telemetry_settled [OF assms, of s "ss_raw sess" "replicate TT_TELEMETRY_LEN 0"]
  by (auto simp: telem_op_def settled_def split: option.splits prod.splits)

lemma telem_op_steady:
  assumes "mapping_calls os" "window_calls os"
  shows "steady_op (telem_op os)"
  unfolding steady_op_def
proof (intro allI impI)
  fix x :: session and s r s'
  assume "telem_op os x s = Some (r, s')"
  then obtain rc tb where "tt_telemetry os (Some (ss_raw x)) (Some (replicate TT_TELEMETRY_LEN 0)) s = Some (rc, tb, s')"
    by (auto simp: telem_op_def checked_def split: option.splits prod.splits)
  then show "extends s s' \<and> mset (opened (since s s')) = mset (closed (since s s'))"
    using tt_telemetry_settled [OF assms, of s "ss_raw x" "replicate TT_TELEMETRY_LEN 0"]
    by (auto simp: settled_def owes_def)
qed

lemma telem_op_sized:
  assumes "telem_op os sess s = Some (Inr t, s')"
  shows "length (telem_table t) = TT_TELEMETRY_LEN"
proof -
  obtain rc tb where run: "tt_telemetry os (Some (ss_raw sess)) (Some (replicate TT_TELEMETRY_LEN 0)) s
      = Some (rc, tb, s')" and t: "rc = TT_OK" "t = Telemetry (the tb)"
    using assms
    by (auto simp: telem_op_def checked_def map_sum_def split: option.splits prod.splits sum.splits)
  have "tb \<noteq> None"
    using run t(1)
    by (auto simp: tt_telemetry_def telem_csm_def Let_def split: prod.splits if_splits option.splits gres.splits
        dest!: cleanup_err)
  then show ?thesis using tt_telemetry_sized run t by fastforce
qed

text \<open>
  Reading telemetry returns, on persistent sessions too, and indexing the snapshot it yields by a tag
  never panics: every tag has a slot of its own in the table, and only the two slots the
  firmware's numbering reserves have no tag.
\<close>

theorem rs_telemetry_total:
  assumes "mapping_calls os" "window_calls os"
  shows "\<exists>r sess' s'. rs_telemetry os sess s = Some (r, sess', s') \<and>
    (\<forall>t. r = Inr t \<longrightarrow>
      (\<forall>tag. telem_index t tag = Some (telem_table t ! tag_raw tag) \<and> telem_get t tag = telem_index t tag) \<and>
      (\<forall>n < length (telem_table t). n \<notin> {0, 33} \<longrightarrow> (\<exists>!tag. tag_raw tag = n)))"
proof -
  obtain r sess' s' where run: "rs_telemetry os sess s = Some (r, sess', s')"
    using perform_total [of "telem_op os" os sess s] telem_op_total [OF assms]
    unfolding rs_telemetry_def by (metis prod_cases3)
  have "length (telem_table t) = 69" if "r = Inr t" for t
    using perform_ok [OF run [unfolded rs_telemetry_def that]] telem_op_sized
    by (metis TT_TELEMETRY_LEN_def)
  moreover have "\<exists>!tag. tag_raw tag = n" if "n < 69" "n \<notin> {0, 33}" for n
    using that tag_raw_onto [of n] tag_raw_inj by fastforce
  ultimately show ?thesis
    using run tag_raw_bound by (auto simp: telem_index_def telem_get_def)
qed

theorem rs_telemetry_total_witness:
  "rs_telemetry stub_os \<lparr>ss_raw = \<lparr>sess_dev = \<lparr>dev_id = 0\<rparr>, sess_fd = 3, sess_flags = 0\<rparr>,
      ss_opts = options_persistent True options_new\<rparr> stub_mach \<noteq> None"
  using rs_telemetry_total [OF stub_window_calls(2,1)] by (metis option.distinct(1))

end
