(* ===== verification/Version.thy ===== *)
theory Version
  imports PowerState
begin

text \<open>
  \<open>src/ver.c\<close>: the kernel driver's version, asked of the driver through the first device found, and
  a device's firmware version, parsed from its sysfs attribute.
\<close>

section \<open>Operations\<close>

record tt_version =
  ver_major :: u64
  ver_minor :: u64
  ver_patch :: u64
  ver_pre :: string
  ver_build :: string

text \<open>\<open>sizeof(query.out)\<close> of \<open>struct tenstorrent_get_driver_info\<close>.\<close>

definition driver_info_out_size :: u32 where
  "driver_info_out_size = 12"

text \<open>\<open>junk\<close> is the uninitialised descriptor the scan may fill.\<close>

definition tt_kmd_version ::
  "'w os \<Rightarrow> tt_device \<Rightarrow> tt_version option \<Rightarrow> 'w mach \<Rightarrow> int \<times> tt_version option \<times> 'w mach" where
  "tt_kmd_version os junk version s =
     (case version of None \<Rightarrow> out version (tt_fail EINVAL s) | Some _ \<Rightarrow>
      (case tt_dev_scan os 1 [junk] s of (found, buf, s1) \<Rightarrow>
        if found < 0 then (TT_ERR, version, s1)
        else if found = 0 then out version (tt_fail ENODEV s1)
        else let dev = hd buf in
        (case tt_open os (Some dev) (Some \<lparr>sess_dev = dev, sess_fd = - 1, sess_flags = 0\<rparr>) 0 s1 of (rc, sess, s2) \<Rightarrow>
          if rc < 0 then (TT_ERR, version, s2)
          else (case k_driver_info os (sess_fd (the sess)) driver_info_out_size s2 of ((res, q), s3) \<Rightarrow>
            let err = errno s3 in
            (case tt_close os sess s3 of (_, _, s4) \<Rightarrow>
              if res \<noteq> 0 then out version (tt_fail_io err s4)
              else (TT_OK, Some \<lparr>ver_major = ucast (k_version_major q), ver_minor = ucast (k_version_minor q),
                     ver_patch = ucast (k_version_patch q), ver_pre = [], ver_build = []\<rparr>, s4))))))"

definition fw_path :: "tt_device \<Rightarrow> string" where
  "fw_path d = take 63 (''/sys/class/tenstorrent/tenstorrent!'' @ show_dec (unat (dev_id d)) @ ''/tt_fw_bundle_ver'')"

text \<open>The parse of the attribute's text, a C string: it ends at its first NUL.\<close>

definition parse_fw :: "string \<Rightarrow> tt_version option" where
  "parse_fw buf =
     (case sscanf [ScanU64, Lit CHR ''.'', ScanU64, Lit CHR ''.'', ScanU64, Lit CHR ''.'', ScanU64]
             (takeWhile (\<lambda>c. c \<noteq> CHR 0x00) buf) of
        [major, minor, patch, rc] \<Rightarrow>
          Some \<lparr>ver_major = of_nat major, ver_minor = of_nat minor, ver_patch = of_nat patch,
            ver_pre = (if rc > 0 then take 31 (''rc.'' @ show_dec rc) else []), ver_build = []\<rparr>
      | _ \<Rightarrow> None)"

definition tt_fw_version ::
  "'w os \<Rightarrow> tt_session option \<Rightarrow> tt_version option \<Rightarrow> 'w mach \<Rightarrow> int \<times> tt_version option \<times> 'w mach" where
  "tt_fw_version os sess version s =
     (case sess of None \<Rightarrow> out version (tt_fail EINVAL s) | Some ss \<Rightarrow>
      case version of None \<Rightarrow> out version (tt_fail EINVAL s) | Some _ \<Rightarrow>
      if sess_fd ss < 0 then out version (tt_fail ENOTCONN s)
      else (case k_open os (fw_path (sess_dev ss)) O_RDONLY s of (f, s1) \<Rightarrow>
        if f < 0 then (TT_ERR, version, s1)
        else (case k_read os f 31 s1 of (r, s2) \<Rightarrow>
          let err = (if r = None then errno s2 else EIO) in
          (case k_close os f s2 of (_, s3) \<Rightarrow>
            case r of None \<Rightarrow> out version (tt_fail err s3)
            | Some buf \<Rightarrow>
                if buf = [] then out version (tt_fail err s3)
                else (case parse_fw buf of None \<Rightarrow> out version (tt_fail EIO s3)
                      | Some v \<Rightarrow> (TT_OK, Some v, s3))))))"

section \<open>What the version queries promise\<close>

text \<open>The sysfs path always fits its buffer, so the truncation of \<open>snprintf\<close> never bites.\<close>

lemma fw_path_whole:
  "fw_path d = ''/sys/class/tenstorrent/tenstorrent!'' @ show_dec (unat (dev_id d)) @ ''/tt_fw_bundle_ver''"
proof -
  have "unat (dev_id d) < 2 ^ 32"
    using unsigned_less [of "dev_id d"] by simp
  then have "unat (dev_id d) < 10 ^ 10" by simp
  then have "length (show_dec (unat (dev_id d))) \<le> 10"
    unfolding show_dec_def by (rule show_base_length [rotated 2]) simp_all
  then show ?thesis by (simp add: fw_path_def)
qed

lemma dec_no_nul: "c \<in> set (show_dec n) \<Longrightarrow> c \<noteq> CHR 0x00"
proof -
  assume "c \<in> set (show_dec n)"
  then obtain d where d: "c = digit d" "d < 10"
    using show_base_digits [of 10 c n] by (auto simp: show_dec_def)
  then have "digit_val 10 c = Some d" by simp
  moreover have "digit_val 10 CHR 0x00 = None" by (simp add: digit_val_def Let_def)
  ultimately show "c \<noteq> CHR 0x00" by auto
qed

text \<open>The text of a four-part version, as the driver's attribute prints it.\<close>

definition fw_text :: "nat \<Rightarrow> nat \<Rightarrow> nat \<Rightarrow> nat \<Rightarrow> string \<Rightarrow> string" where
  "fw_text a b c rc rest =
     show_dec a @ ''.'' @ show_dec b @ ''.'' @ show_dec c @ ''.'' @ show_dec rc @ rest"

lemma rc_fits: "rc < 2 ^ 64 \<Longrightarrow> take 31 (''rc.'' @ show_dec rc) = ''rc.'' @ show_dec rc"
proof -
  assume "rc < 2 ^ 64"
  then have "rc < 10 ^ 20" by simp
  then have "length (show_dec rc) \<le> 20"
    unfolding show_dec_def by (rule show_base_length [rotated 2]) simp_all
  then show ?thesis by simp
qed

lemma parse_fw_of_text:
  assumes "a < 2 ^ 64" "b < 2 ^ 64" "c < 2 ^ 64" "rc < 2 ^ 64" "rest = [] \<or> rest = [CHR 0x0A]"
  shows "parse_fw (fw_text a b c rc rest) =
    Some \<lparr>ver_major = of_nat a, ver_minor = of_nat b, ver_patch = of_nat c,
      ver_pre = (if rc = 0 then [] else ''rc.'' @ show_dec rc), ver_build = []\<rparr>"
proof -
  have n: "takeWhile (\<lambda>c. c \<noteq> CHR 0x00) (fw_text a b c rc rest) = fw_text a b c rc rest"
    using assms(5) dec_no_nul by (subst takeWhile_eq_all_conv) (auto simp: fw_text_def)
  have r: "stops 10 rest" using assms(5) by auto
  show ?thesis
    unfolding parse_fw_def n unfolding fw_text_def
    using assms(1-4) r rc_fits [OF assms(4)]
    by (simp add: scan_u64_show_dec)
qed

text \<open>
  Parsing a firmware version reads back the four numbers an attribute prints, with or without a
  final newline: the first three are the version, and a release candidate becomes the
  pre-release identifier \<open>rc.N\<close>, never truncated.
\<close>

theorem parse_fw_text:
  assumes "a < 2 ^ 64" "b < 2 ^ 64" "c < 2 ^ 64" "rc < 2 ^ 64" "rest = [] \<or> rest = [CHR 0x0A]"
  shows "parse_fw (fw_text a b c rc rest) =
    Some \<lparr>ver_major = of_nat a, ver_minor = of_nat b, ver_patch = of_nat c,
      ver_pre = (if rc = 0 then [] else ''rc.'' @ show_dec rc), ver_build = []\<rparr>"
  by (rule parse_fw_of_text [OF assms])

theorem parse_fw_text_witness:
  "parse_fw ''19.4.2.1'' =
     Some \<lparr>ver_major = 19, ver_minor = 4, ver_patch = 2, ver_pre = ''rc.1'', ver_build = []\<rparr>"
proof -
  have "show_dec 19 = ''19''" "show_dec 4 = ''4''" "show_dec 2 = ''2''" "show_dec 1 = ''1''"
    by code_simp+
  then show ?thesis
    using parse_fw_text [of 19 4 2 1 "[]"] by (simp add: fw_text_def)
qed

text \<open>
  Whatever the outcome, the firmware version query closes the attribute it opened and touches the
  device itself not at all; it succeeds exactly when the attribute opens, reads a non-empty
  text and that text parses, and reports \<open>EIO\<close> for an empty or malformed text.
\<close>

theorem tt_fw_version_outcome:
  assumes "0 \<le> sess_fd ss" "k_open os (fw_path (sess_dev ss)) O_RDONLY s = (f, s1)" "k_read os f 31 s1 = (r, s2)"
    "tt_fw_version os (Some ss) (Some v0) s = (rc, v, s')"
  shows "opened (since s s') = closed (since s s') \<and> ioctls (since s s') = [] \<and>
    (if f < 0 then rc = TT_ERR \<and> v = Some v0 \<and> errno s' = errno s1
     else case r of
       None \<Rightarrow> rc = TT_ERR \<and> v = Some v0 \<and> errno s' = errno s2
     | Some text \<Rightarrow> (case (if text = [] then None else parse_fw text) of
         None \<Rightarrow> rc = TT_ERR \<and> v = Some v0 \<and> errno s' = EIO
       | Some w \<Rightarrow> rc = TT_OK \<and> v = Some w))"
  using assms call_trace [OF assms(2)] call_trace [OF assms(3)]
  by (auto simp: tt_fw_version_def Let_def since_eq split: prod.splits if_splits option.splits
      dest!: call_trace)

theorem tt_fw_version_outcome_witness:
  "fst (tt_fw_version stub_os (Some \<lparr>sess_dev = \<lparr>dev_id = 0\<rparr>, sess_fd = 5, sess_flags = 0\<rparr>)
     (Some \<lparr>ver_major = 0, ver_minor = 0, ver_patch = 0, ver_pre = [], ver_build = []\<rparr>) stub_mach) = TT_OK"
proof -
  let ?ss = "\<lparr>sess_dev = \<lparr>dev_id = 0\<rparr>, sess_fd = 5, sess_flags = 0\<rparr>"
  let ?v = "\<lparr>ver_major = 0, ver_minor = 0, ver_patch = 0, ver_pre = [], ver_build = []\<rparr>"
  obtain s1 where o: "k_open stub_os (fw_path (sess_dev ?ss)) O_RDONLY stub_mach = (3, s1)"
    by (simp add: stub_defs)
  obtain s2 where r: "k_read stub_os 3 31 s1 = (Some ''19.4.2.0'', s2)"
    by (simp add: stub_os_def ret0_def call_def)
  obtain rc v s' where f: "tt_fw_version stub_os (Some ?ss) (Some ?v) stub_mach = (rc, v, s')"
    by (metis prod_cases3)
  have "parse_fw ''19.4.2.0'' \<noteq> None"
    by (simp add: parse_fw_def scan_u64_def read_sign_def is_space_def starts_digit_def digit_val_def
        ulong_val_def)
  then show ?thesis
    using tt_fw_version_outcome [OF _ o r f] f by auto
qed

text \<open>
  The driver version query reports \<open>ENODEV\<close> when no device is listed; otherwise it opens the
  first device listed, asks once, and closes it again, whatever the answer; the error it
  reports is the query's, not the cleanup's.
\<close>

theorem tt_kmd_version_outcome:
  assumes "k_opendir os ''/dev/tenstorrent'' s = (Some es, s0)"
    "tt_kmd_version os junk (Some v0) s = (rc, v, s')"
  shows "opened (since s s') = closed (since s s') \<and>
    (case listed es of
       [] \<Rightarrow> rc = TT_ERR \<and> errno s' = ENODEV \<and> v = Some v0 \<and> opened (since s s') = []
     | d # _ \<Rightarrow>
         (opened (since s s') = [] \<and> rc = TT_ERR \<and> errno s' \<in> {EAGAIN, ENODEV} \<and> v = Some v0) \<or>
         (\<exists>f. opened (since s s') = [f] \<and> ioctls (since s s') = [(f, IoDriverInfo driver_info_out_size)] \<and>
            (\<exists>fl. EvOpen (dev_path d) fl f \<in> set (since s s')) \<and>
            (rc = TT_OK \<or> rc = TT_ERR \<and> errno s' \<noteq> ENODEV \<and> v = Some v0)))"
proof -
  obtain s1 where sc: "tt_dev_scan os 1 [junk] s =
      (int (length (listed es)), take 1 (listed es) @ drop (length (listed es)) [junk], s1)"
    using tt_dev_scan_some [OF assms(1), of "[junk]" 1] by auto
  note sct = tt_dev_scan_trace [OF sc]
  show ?thesis
  proof (cases "listed es")
    case Nil
    then show ?thesis using assms(2) sc sct by (auto simp: tt_kmd_version_def)
  next
    case (Cons d ds)
    obtain ro sess s2 where o: "tt_open os (Some d) (Some \<lparr>sess_dev = d, sess_fd = - 1, sess_flags = 0\<rparr>) 0 s1
        = (ro, sess, s2)"
      by (metis prod_cases3)
    note ot = tt_open_trace [OF o]
    note t2 = trace_trans [OF sct(1) ot(1)]
    show ?thesis
    proof (cases "ro = TT_OK")
      case False
      then have ro: "ro = TT_ERR" using tt_open_rc [OF o] by blast
      have "errno s2 \<in> {EAGAIN, ENODEV}"
        using o ro by (auto simp: tt_open_def split: prod.splits if_splits)
      then show ?thesis using assms(2) sc sct o ro ot t2 Cons by (simp add: tt_kmd_version_def)
    next
      case True
      obtain f where f: "0 \<le> f" "sess = Some \<lparr>sess_dev = d, sess_fd = f, sess_flags = 0\<rparr>"
        and tr: "trace s2 = trace s1 @ [EvOpen (dev_path d) (open_flags 0) f]"
        using tt_open_ok [OF o [unfolded True]] by auto
      obtain res q s3 where i: "k_driver_info os f driver_info_out_size s2 = ((res, q), s3)"
        by (metis surj_pair)
      obtain c c' s4 where cl: "tt_close os sess s3 = (c, c', s4)" by (metis prod_cases3)
      have e3: "extends s2 s3" "since s2 s3 = [EvIoctl f (IoDriverInfo driver_info_out_size) res]"
        using call_trace [OF i] by (auto simp: since_eq extendsI)
      note ct = tt_close_trace [OF cl [unfolded f(2)]]
      note t3 = trace_trans [OF t2(1) e3(1)]
      note t4 = trace_trans [OF t3(1) ct(1)]
      have tr4: "since s s4 = since s s1 @ EvOpen (dev_path d) (open_flags 0) f # since s2 s4"
        using since_trans [OF sct(1) extends_trans [OF ot(1) extends_trans [OF e3(1) ct(1)]]]
          since_trans [OF ot(1) extends_trans [OF e3(1) ct(1)]] tr by (simp add: since_eq)
      have "s' = s4 \<or> (\<exists>e. s' = s4\<lparr>errno := e\<rparr> \<and> e \<noteq> ENODEV)"
        "rc = TT_OK \<or> rc = TT_ERR \<and> errno s' \<noteq> ENODEV \<and> v = Some v0"
        using assms(2) sc o True f(2) i cl Cons
        by (auto simp: tt_kmd_version_def Let_def split: if_splits)
      then show ?thesis
        using Cons t2 t3 t4 e3 sct ot ct f tr4 True
        by (auto intro!: disjI2 exI [of _ f] exI [of _ "open_flags 0"])
    qed
  qed
qed

theorem tt_kmd_version_outcome_witness:
  "fst (tt_kmd_version stub_os \<lparr>dev_id = 0\<rparr>
     (Some \<lparr>ver_major = 0, ver_minor = 0, ver_patch = 0, ver_pre = [], ver_build = []\<rparr>) stub_mach) = TT_ERR"
proof -
  let ?v = "\<lparr>ver_major = 0, ver_minor = 0, ver_patch = 0, ver_pre = [], ver_build = []\<rparr>"
  obtain s0 where o: "k_opendir stub_os ''/dev/tenstorrent'' stub_mach = (Some [], s0)"
    by (simp add: stub_defs)
  obtain rc v s' where k: "tt_kmd_version stub_os \<lparr>dev_id = 0\<rparr> (Some ?v) stub_mach = (rc, v, s')"
    by (metis prod_cases3)
  show ?thesis using tt_kmd_version_outcome [OF o k] k by simp
qed

end
