(* ===== verification/RsVersion.thy ===== *)
theory RsVersion
  imports RsSession Version
begin

text \<open>
  \<open>src/bind/rs/src/{ver,fw,kmd,lib}.rs\<close>: versions and architectures. The validation of pre-release and build
  identifiers is the \<open>semver\<close> crate's, a parameter: \<open>vp\<close> and \<open>vb\<close> say which texts
  \<open>Prerelease::new\<close> and \<open>BuildMetadata::new\<close> accept.
\<close>

section \<open>Conversion\<close>

record semver =
  sv_major :: u64
  sv_minor :: u64
  sv_patch :: u64
  sv_pre :: string
  sv_build :: string

text \<open>
  A text field of \<open>tt_version_t\<close> is a buffer of 32 bytes; the C library writes the text and a
  terminator over zeros.
\<close>

definition version_buf :: "string \<Rightarrow> string" where
  "version_buf t = t @ replicate (32 - length t) CHR 0x00"

text \<open>\<open>CStr::from_bytes_until_nul\<close>, or the empty text without a terminator.\<close>

definition cstr :: "string \<Rightarrow> string" where
  "cstr buf = (if CHR 0x00 \<in> set buf then takeWhile (\<lambda>c. c \<noteq> CHR 0x00) buf else [])"

definition from_raw :: "(string \<Rightarrow> bool) \<Rightarrow> (string \<Rightarrow> bool) \<Rightarrow> tt_version \<Rightarrow> semver" where
  "from_raw vp vb vers =
     (let pre = cstr (version_buf (ver_pre vers)); build = cstr (version_buf (ver_build vers)) in
      \<lparr>sv_major = ver_major vers, sv_minor = ver_minor vers, sv_patch = ver_patch vers,
       sv_pre = (if vp pre then pre else []), sv_build = (if vb build then build else [])\<rparr>)"

section \<open>Queries\<close>

definition uninit_version :: tt_version where
  "uninit_version = \<lparr>ver_major = 0, ver_minor = 0, ver_patch = 0, ver_pre = [], ver_build = []\<rparr>"

definition kmd_version ::
  "'w os \<Rightarrow> (string \<Rightarrow> bool) \<Rightarrow> (string \<Rightarrow> bool) \<Rightarrow> tt_device \<Rightarrow> 'w mach \<Rightarrow> semver result \<times> 'w mach" where
  "kmd_version os vp vb junk s =
     (case checked (tt_kmd_version os junk (Some uninit_version) s) of (r, s1) \<Rightarrow>
        (map_sum id (from_raw vp vb) r, s1))"

definition fw_op ::
  "'w os \<Rightarrow> (string \<Rightarrow> bool) \<Rightarrow> (string \<Rightarrow> bool) \<Rightarrow> session \<Rightarrow> 'w mach \<Rightarrow> (semver result \<times> 'w mach) option" where
  "fw_op os vp vb sess s =
     (case checked (tt_fw_version os (session_ptr sess) (Some uninit_version) s) of (r, s1) \<Rightarrow>
        Some (map_sum id (from_raw vp vb) r, s1))"

definition fw_version ::
  "'w os \<Rightarrow> (string \<Rightarrow> bool) \<Rightarrow> (string \<Rightarrow> bool) \<Rightarrow> session \<Rightarrow> 'w mach \<Rightarrow>
     (semver result \<times> session \<times> 'w mach) option" where
  "fw_version os vp vb dev s = perform os (fw_op os vp vb) dev s"

definition TTDAL_VERSION :: "nat \<times> nat \<times> nat" where
  "TTDAL_VERSION = (0, 1, 2)"

definition lib_version :: semver where
  "lib_version = (case TTDAL_VERSION of (a, b, c) \<Rightarrow>
     \<lparr>sv_major = of_nat a, sv_minor = of_nat b, sv_patch = of_nat c, sv_pre = [], sv_build = []\<rparr>)"

section \<open>Architectures\<close>

datatype arch = Grayskull | Wormhole | Blackhole

fun arch_raw :: "arch \<Rightarrow> u32" where
  "arch_raw Grayskull = 0xffa0"
| "arch_raw Wormhole = 0x401e"
| "arch_raw Blackhole = 0xb140"

section \<open>What the conversion promises\<close>

lemma cstr_buf: "CHR 0x00 \<notin> set t \<Longrightarrow> length t < 32 \<Longrightarrow> cstr (version_buf t) = t"
  by (auto simp: cstr_def version_buf_def takeWhile_append set_replicate_conv_if takeWhile_eq_all_conv
      intro!: takeWhile_eq_all_conv [THEN iffD2])

lemma rc_text: "rc < 2 ^ 64 \<Longrightarrow> cstr (version_buf (''rc.'' @ show_dec rc)) = ''rc.'' @ show_dec rc"
proof -
  assume "rc < 2 ^ 64"
  then have "length (''rc.'' @ show_dec rc) \<le> 31"
    using rc_fits [of rc] by (metis length_take min.cobounded2)
  then show ?thesis
    using dec_no_nul by (intro cstr_buf) auto
qed



lemma fw_steady: "steady_op (fw_op os vp vb)"
proof -
  have "extends s s' \<and> opened (since s s') = closed (since s s')"
    if "tt_fw_version os (Some ss) (Some v) s = (rc, w, s')" for ss v s rc w s'
    using that
    by (auto simp: tt_fw_version_def Let_def since_eq extendsI split: prod.splits if_splits option.splits
        dest!: call_trace)
  then show ?thesis
    by (auto simp: steady_op_def fw_op_def checked_def split: prod.splits)
qed

end
