(* ===== verification/RsLife.thy ===== *)
theory RsLife
  imports RsTlb RsSmc RsPower RsTelem RsVersion
begin

text \<open>
  The whole life of a Rust session, over every operation the binding offers on it. Ownership makes the drop
  its last event; what is between the opening and the drop is any sequence of the steps below.
\<close>

inductive session_step :: "'w os \<Rightarrow> session \<times> 'w mach \<Rightarrow> session \<times> 'w mach \<Rightarrow> bool" for os where
  do_info: "session_info os x s = Some (r, x', s') \<Longrightarrow> session_step os (x, s) (x', s')"
| do_power: "rs_power os flags x s = Some (r, x', s') \<Longrightarrow> session_step os (x, s) (x', s')"
| do_telemetry: "rs_telemetry os x s = Some (r, x', s') \<Longrightarrow> session_step os (x, s) (x', s')"
| do_fw: "fw_version os vp vb x s = Some (r, x', s') \<Longrightarrow> session_step os (x, s) (x', s')"
| do_alloc: "rs_alloc os sz mode x s = Some (r, x', s') \<Longrightarrow> session_step os (x, s) (x', s')"
| do_bind: "rs_bind os x t cfg s = (r, t', s') \<Longrightarrow> session_step os (x, s) (x, s')"
| do_free: "rs_free os x t s = (r, s') \<Longrightarrow> session_step os (x, s) (x, s')"
| do_call: "rs_call os req timeout x s = Some (r, s') \<Longrightarrow> session_step os (x, s) (x, s')"
| do_post: "rs_post os req x s = (r, s') \<Longrightarrow> session_step os (x, s) (x, s')"
| do_wait: "q_sess q = x \<Longrightarrow> queued_wait os timeout q s = Some (r, q', s') \<Longrightarrow> session_step os (x, s) (x, s')"
| do_try_wait: "q_sess q = x \<Longrightarrow> queued_try_wait os q s = (r, q', s') \<Longrightarrow> session_step os (x, s) (x, s')"
| do_drop: "q_sess q = x \<Longrightarrow> queued_drop os q s = s' \<Longrightarrow> session_step os (x, s) (x, s')"
| do_reopen: "reopen os x s = (r, x', s') \<Longrightarrow> session_step os (x, s) (x', s')"

inductive_cases session_stepE: "session_step os (x, s) (x', s')"

text \<open>What the proof relies on: closing works, mappings and windows behave, and time passes.\<close>

definition sane :: "'w os \<Rightarrow> ('w \<Rightarrow> nat) \<Rightarrow> bool" where
  "sane os now \<longleftrightarrow> closes os \<and> mapping_calls os \<and> window_calls os \<and> keeps_time os now"

lemma books_same: "extends s s' \<Longrightarrow> opened (since s s') = [] \<Longrightarrow> closed (since s s') = [] \<Longrightarrow> fd_books x s x s'"
  by (simp add: fd_books_def)

lemma info_steady:
  "steady_op (\<lambda>sess s. Some (checked (tt_dev_info os (session_ptr sess) (Some i) s)))"
proof -
  have "extends s s' \<and> opened (since s s') = [] \<and> closed (since s s') = []"
    if "tt_dev_info os (Some ss) (Some i) s = (rc, raw, s')" for ss s rc raw s'
    using dev_info.steady that by (metis fst_conv op3_eq snd_conv)
  then show ?thesis by (auto simp: steady_op_def checked_def split: prod.splits)
qed

lemma perform_steps:
  assumes "sane os now"
  shows "session_info os x s = Some (r1, x', s') \<Longrightarrow> fd_books x s x' s'"
    "rs_power os flags x s = Some (r2, x', s') \<Longrightarrow> fd_books x s x' s'"
    "rs_telemetry os x s = Some (r3, x', s') \<Longrightarrow> fd_books x s x' s'"
    "fw_version os vp vb x s = Some (r4, x', s') \<Longrightarrow> fd_books x s x' s'"
    "rs_alloc os sz mode x s = Some (r5, x', s') \<Longrightarrow> fd_books x s x' s'"
proof -
  have os: "closes os" "mapping_calls os" "window_calls os" using assms by (auto simp: sane_def)
  note books = perform_books [OF os(1)]
  show "session_info os x s = Some (r1, x', s') \<Longrightarrow> fd_books x s x' s'"
    unfolding session_info_def by (rule books [OF info_steady])
  show "rs_power os flags x s = Some (r2, x', s') \<Longrightarrow> fd_books x s x' s'"
    unfolding rs_power_def by (rule books [OF power_steady])
  show "rs_telemetry os x s = Some (r3, x', s') \<Longrightarrow> fd_books x s x' s'"
    unfolding rs_telemetry_def by (rule books [OF telem_op_steady [OF os(2,3)]])
  show "fw_version os vp vb x s = Some (r4, x', s') \<Longrightarrow> fd_books x s x' s'"
    unfolding fw_version_def by (rule books [OF fw_steady])
  show "rs_alloc os sz mode x s = Some (r5, x', s') \<Longrightarrow> fd_books x s x' s'"
    using books [OF alloc_steady] by (auto simp: rs_alloc_def split: option.splits prod.splits)
qed

lemma tlb_steps:
  "rs_bind os x t cfg s = (r1, t', s') \<Longrightarrow> fd_books x s x s'"
  "rs_free os x t s = (r2, s') \<Longrightarrow> fd_books x s x s'"
  by (auto simp: rs_bind_def rs_free_def Let_def split: prod.splits
      intro!: books_same dest: tt_tlb_bind_extends tt_tlb_free_extends)

lemma smc_steps:
  assumes "keeps_time os now"
  shows "rs_call os req timeout x s = Some (r1, s') \<Longrightarrow> fd_books x s x s'"
    "rs_post os req x s = (r2, s') \<Longrightarrow> fd_books x s x s'"
    "q_sess q = x \<Longrightarrow> queued_wait os timeout q s = Some (r3, q', s') \<Longrightarrow> fd_books x s x s'"
    "q_sess q = x \<Longrightarrow> queued_try_wait os q s = (r4, q', s') \<Longrightarrow> fd_books x s x s'"
    "q_sess q = x \<Longrightarrow> fd_books x s x (queued_drop os q s)"
proof -
  show "fd_books x s x s'" if "rs_call os req timeout x s = Some (r1, s')"
    using that call_requests [OF assms, of "ss_raw x" "words req" "replicate 8 0" "millis timeout" s]
    by (auto simp: rs_call_def intro: books_same)
  show "fd_books x s x s'" if "rs_post os req x s = (r2, s')"
  proof -
    obtain rc t where p: "tt_smc_post os (Some (ss_raw x)) (Some (words req)) s = (rc, t)" by (metis prod.exhaust)
    then have "t = s'" using that by (simp add: rs_post_def queued_post_def)
    with smc_post.steady [OF p] show ?thesis by (intro books_same) auto
  qed
  show "fd_books x s x s'" if "q_sess q = x" "queued_wait os timeout q s = Some (r3, q', s')"
  proof -
    obtain rc rsp t where w: "tt_smc_wait os (Some (ss_raw x)) (Some (replicate 8 0)) (millis timeout) s = Some (rc, rsp, t)"
      and o: "only_polls (ss_raw x) s t"
      using smc_wait_total [OF assms] by blast
    have "t = s'" using w that by (simp add: queued_wait_def Let_def)
    then show ?thesis using o by (intro books_same) (auto simp: only_polls_def)
  qed
  show "fd_books x s x s'" if "q_sess q = x" "queued_try_wait os q s = (r4, q', s')"
  proof -
    obtain rc rsp t where p: "tt_smc_poll os (Some (ss_raw x)) (Some (replicate 8 0)) s = (rc, rsp, t)"
      by (metis prod_cases3)
    then have "t = s'" using that by (simp add: queued_try_wait_def Let_def)
    with p have "extends s s' \<and> opened (since s s') = [] \<and> closed (since s s') = []"
      using smc_poll.steady by (metis fst_conv op3_eq snd_conv)
    then show ?thesis by (intro books_same) auto
  qed
  show "fd_books x s x (queued_drop os q s)" if "q_sess q = x"
  proof -
    obtain rc s1 where d: "tt_smc_drop os (Some (ss_raw x)) s = (rc, s1)" by (metis prod.exhaust)
    from smc_drop.steady [OF d] show ?thesis
      using d that by (auto simp: queued_drop_def intro: books_same)
  qed
qed

lemma step_books:
  assumes "session_step os (x, s) (x', s')" "sane os now"
  shows "fd_books x s x' s'"
proof -
  have os: "closes os" "keeps_time os now" using assms(2) by (auto simp: sane_def)
  show ?thesis
    using assms(1)
    by (rule session_stepE)
      (auto intro: perform_steps [OF assms(2)] tlb_steps smc_steps [OF os(2)] reopen_books [OF os(1)])
qed

interpretation life: history fd_books "sane os now" "session_step os" for os :: "'w os" and now
  by unfold_locales (rule step_books)



end
