(* ===== verification/PyErr.thy ===== *)
theory PyErr
  imports Device Stub
begin

text \<open>
  \<open>src/bind/py/src/err.rs\<close>, and what the Python binding uses of the interpreter. The exceptions
  themselves, the interpreter lock and \<open>strerror\<close> are code of pyo3, CPython and libc: a record of
  functions over the machine's world, a second parameter. Each may change \<open>errno\<close>, so the places where
  the binding reads \<open>errno\<close> matter in the model as they do in the code.
\<close>

section \<open>The interpreter\<close>

text \<open>
  \<open>py_strerror\<close> yields an errno's text, \<open>py_new_err\<close> builds a \<open>TTError\<close>; \<open>py_release\<close> and \<open>py_acquire\<close>
  are the two ends of \<open>Python::detach\<close>; \<open>py_try_attach\<close> says whether the interpreter is still running.
\<close>

record 'w py =
  py_strerror :: "errno_t \<Rightarrow> (string, 'w) sysc"
  py_new_err :: "errno_t \<Rightarrow> string \<Rightarrow> (unit, 'w) sysc"
  py_release :: "(unit, 'w) sysc"
  py_acquire :: "(unit, 'w) sysc"
  py_try_attach :: "(bool, 'w) sysc"

text \<open>A call of the interpreter's leaves no event of the library's.\<close>

definition effect :: "('r, 'w) sysc \<Rightarrow> 'w mach \<Rightarrow> 'r \<times> 'w mach" where
  "effect f s = (case f (errno s) (world s) of (r, e, w) \<Rightarrow> (r, s\<lparr>errno := e, world := w\<rparr>))"

text \<open>
  \<open>Python::detach\<close>: the closure runs without the interpreter lock. \<open>detach\<close> is for closures that may
  not return.
\<close>

definition detach1 :: "'w py \<Rightarrow> ('w mach \<Rightarrow> 'r \<times> 'w mach) \<Rightarrow> 'w mach \<Rightarrow> 'r \<times> 'w mach" where
  "detach1 py f s =
     (case effect (py_release py) s of (_, s1) \<Rightarrow>
        case f s1 of (r, s2) \<Rightarrow> (case effect (py_acquire py) s2 of (_, s3) \<Rightarrow> (r, s3)))"

definition detach :: "'w py \<Rightarrow> ('w mach \<Rightarrow> ('r \<times> 'w mach) option) \<Rightarrow> 'w mach \<Rightarrow> ('r \<times> 'w mach) option" where
  "detach py f s =
     (case effect (py_release py) s of (_, s1) \<Rightarrow>
        case f s1 of None \<Rightarrow> None
        | Some (r, s2) \<Rightarrow> (case effect (py_acquire py) s2 of (_, s3) \<Rightarrow> Some (r, s3)))"

section \<open>Errors\<close>

text \<open>
  The exceptions the binding raises. \<open>BorrowError\<close> is pyo3's, for an object that is mutably
  borrowed elsewhere; \<open>Panic\<close> is the exception a Rust panic surfaces as.
\<close>

datatype py_error =
    TTError errno_t string
  | ValueError string
  | IndexError string
  | RuntimeError string
  | BorrowError
  | Panic string

type_synonym 'a py_result = "py_error + 'a"

definition is_err :: "'a py_result \<Rightarrow> bool" where
  "is_err res \<longleftrightarrow> (case res of Inl _ \<Rightarrow> True | Inr _ \<Rightarrow> False)"

definition py_lost :: "'w mach \<Rightarrow> bool" where
  "py_lost s \<longleftrightarrow> errno s = ECONNRESET"

definition tt_error :: "'w py \<Rightarrow> errno_t \<Rightarrow> string \<Rightarrow> 'w mach \<Rightarrow> py_error \<times> 'w mach" where
  "tt_error py e msg s = (case effect (py_new_err py e msg) s of (_, s1) \<Rightarrow> (TTError e msg, s1))"

definition py_fail :: "'w py \<Rightarrow> errno_t \<Rightarrow> 'w mach \<Rightarrow> py_error \<times> 'w mach" where
  "py_fail py e s = (case effect (py_strerror py e) s of (msg, s1) \<Rightarrow> tt_error py e msg s1)"

definition py_check :: "'w py \<Rightarrow> int \<Rightarrow> 'w mach \<Rightarrow> unit py_result \<times> 'w mach" where
  "py_check py ret s =
     (if ret = 0 then (Inr (), s)
      else (let e = errno s in case py_fail py e s of (err, s1) \<Rightarrow> (Inl err, s1)))"

text \<open>A call with an out-parameter: the code checked with \<open>?\<close>, then the parameter's contents taken.\<close>

definition py_checked :: "'w py \<Rightarrow> int \<times> 'a option \<times> 'w mach \<Rightarrow> 'a py_result \<times> 'w mach" where
  "py_checked py p =
     (case p of (rc, x, s) \<Rightarrow> case py_check py rc s of (r, s1) \<Rightarrow> (map_sum id (\<lambda>_. the x) r, s1))"

text \<open>The verdict after a detached call: its code and the errno read before reattaching.\<close>

definition verdict :: "'w py \<Rightarrow> int \<Rightarrow> errno_t \<Rightarrow> 'a \<Rightarrow> 'w mach \<Rightarrow> 'a py_result \<times> 'w mach" where
  "verdict py rc e x s =
     (if rc \<noteq> 0 then (case py_fail py e s of (err, s1) \<Rightarrow> (Inl err, s1)) else (Inr x, s))"

section \<open>Facts\<close>

lemma effect_frame:
  assumes "effect f s = (r, s')"
  shows "trace s' = trace s" "armed_ptr s' = armed_ptr s" "armed_len s' = armed_len s"
    "prev_disp s' = prev_disp s"
  using assms by (auto simp: effect_def split: prod.splits)

lemma py_fail_frame:
  assumes "py_fail py e s = (err, s')"
  obtains msg where "err = TTError e msg" "trace s' = trace s"
  using assms by (auto simp: py_fail_def tt_error_def dest!: effect_frame(1) split: prod.splits)

lemma py_check_ok [simp]: "py_check py 0 s = (Inr (), s)"
  by (simp add: py_check_def)

lemma py_check_err:
  assumes "py_check py ret s = (r, s')"
  shows "trace s' = trace s" "r = Inr u \<longleftrightarrow> ret = 0" "ret \<noteq> 0 \<Longrightarrow> \<exists>msg. r = Inl (TTError (errno s) msg)"
  using assms by (auto simp: py_check_def Let_def elim: py_fail_frame split: if_splits prod.splits)

lemma py_checked_cases:
  assumes "py_checked py (rc, x, s) = (r, s')"
  obtains (ok) "rc = 0" "r = Inr (the x)" "s' = s"
    | (err) msg where "rc \<noteq> 0" "r = Inl (TTError (errno s) msg)" "trace s' = trace s"
  using assms
  by (auto simp: py_checked_def py_check_def Let_def elim: py_fail_frame split: if_splits prod.splits)

lemma verdict_cases:
  assumes "verdict py rc e x s = (r, s')"
  obtains (ok) "rc = 0" "r = Inr x" "s' = s"
    | (err) msg where "rc \<noteq> 0" "r = Inl (TTError e msg)" "trace s' = trace s"
  using assms by (auto simp: verdict_def elim: py_fail_frame split: if_splits prod.splits)

lemma detach_total: "(\<And>s. f s \<noteq> None) \<Longrightarrow> detach py f s \<noteq> None"
  by (metis (no_types, lifting) detach_def option.case_eq_if option.distinct(1) prod.case_eq_if)

text \<open>A detached call starts and ends on machines that differ from the outer ones in errno and world only.\<close>

lemma detach_run:
  assumes "detach py f s = Some (r, s')"
  obtains s1 s2 where "f s1 = Some (r, s2)" "trace s1 = trace s" "trace s' = trace s2"
  using assms
  by (auto simp: detach_def split: prod.splits option.splits dest!: effect_frame(1))

lemma detach1_run:
  assumes "detach1 py f s = (r, s')"
  obtains s1 s2 where "f s1 = (r, s2)" "trace s1 = trace s" "trace s' = trace s2"
  using assms
  by (auto simp: detach1_def split: prod.splits dest!: effect_frame(1))

section \<open>An interpreter that keeps to itself\<close>

text \<open>
  CPython saves and restores \<open>errno\<close> around taking its lock, building an exception only allocates, and
  none of it calls the driver: an interpreter for which this holds without exception is \<open>quiet\<close>.
\<close>

definition quiet_py :: "'w py \<Rightarrow> (errno_t \<Rightarrow> string) \<Rightarrow> bool" where
  "quiet_py py tx \<longleftrightarrow>
     (\<forall>n e w. py_strerror py n e w = (tx n, e, w)) \<and> (\<forall>n m e w. py_new_err py n m e w = ((), e, w)) \<and>
     (\<forall>e w. py_release py e w = ((), e, w)) \<and> (\<forall>e w. py_acquire py e w = ((), e, w)) \<and>
     (\<forall>e w. py_try_attach py e w = (fst (py_try_attach py e w), e, w))"

lemma quiet_simps:
  assumes "quiet_py py tx"
  shows "py_fail py n s = (TTError n (tx n), s)" "tt_error py n m s = (TTError n m, s)"
    "detach py f s = f s"
    "detach1 py g s = g s"
  using assms
  by (auto simp: quiet_py_def py_fail_def tt_error_def effect_def detach_def detach1_def split: option.splits prod.splits)

lemma quiet_attach:
  assumes "quiet_py py tx"
  shows "\<exists>b. effect (py_try_attach py) s = (b, s)"
proof -
  have "py_try_attach py (errno s) (world s) = (fst (py_try_attach py (errno s) (world s)), errno s, world s)"
    using assms by (simp add: quiet_py_def)
  then show ?thesis by (auto simp: effect_def split: prod.splits)
qed

definition stub_py :: "stub_world py" where
  "stub_py =
     \<lparr>py_strerror = (\<lambda>_. ret0 ''error''), py_new_err = (\<lambda>_ _. ret0 ()), py_release = ret0 (),
      py_acquire = ret0 (), py_try_attach = ret0 True\<rparr>"

lemma stub_quiet: "quiet_py stub_py (\<lambda>_. ''error'')"
  by (simp add: quiet_py_def stub_py_def ret0_def)

end
