(* ===== verification/PySession.thy ===== *)
theory PySession
  imports PyErr RsSession
begin

text \<open>
  \<open>src/bind/py/src/dev/mod.rs\<close>: devices, discovery and sessions of the Python binding. A method of a
  session returns the session's object as it leaves it. An \<open>option\<close> around a result is \<^const>\<open>None\<close>
  when the call does not return.
\<close>

section \<open>Devices\<close>

datatype py_device = PyDev (py_device_raw: tt_device)

text \<open>The scan loop at capacity \<open>cap\<close>.\<close>

partial_function (option) py_scan_loop ::
  "'w os \<Rightarrow> 'w py \<Rightarrow> nat \<Rightarrow> 'w mach \<Rightarrow> (py_device list py_result \<times> 'w mach) option" where
  "py_scan_loop os py cap s =
     (case tt_dev_scan os cap (replicate cap uninit_device) s of (found, buf, s1) \<Rightarrow>
       if found < 0 then (case py_check py (- 1) s1 of (r, s2) \<Rightarrow> Some (map_sum id (\<lambda>_. []) r, s2))
       else if nat found \<le> cap then Some (Inr (map PyDev (take (nat found) buf)), s1)
       else py_scan_loop os py (nat found * 2) s1)"

definition py_scan :: "'w os \<Rightarrow> 'w py \<Rightarrow> 'w mach \<Rightarrow> (py_device list py_result \<times> 'w mach) option" where
  "py_scan os py s = py_scan_loop os py 32 s"

definition py_from_path :: "'w os \<Rightarrow> 'w py \<Rightarrow> string \<Rightarrow> 'w mach \<Rightarrow> py_device py_result \<times> 'w mach" where
  "py_from_path os py path s =
     (case cstring path of
        None \<Rightarrow> (case tt_error py EINVAL ''invalid path'' s of (e, s1) \<Rightarrow> (Inl e, s1))
      | Some p \<Rightarrow> (case py_checked py (tt_dev_from_path os (Some p) (Some uninit_device) s) of
          (r, s1) \<Rightarrow> (map_sum id PyDev r, s1)))"

text \<open>\<open>junk\<close> is the C library's uninitialised scan buffer.\<close>

definition py_from_bdf ::
  "'w os \<Rightarrow> 'w py \<Rightarrow> tt_device list \<Rightarrow> string \<Rightarrow> 'w mach \<Rightarrow> (py_device py_result \<times> 'w mach) defined" where
  "py_from_bdf os py junk addr s =
     (case cstring addr of
        None \<Rightarrow> (case tt_error py EINVAL ''invalid address'' s of (e, s1) \<Rightarrow> Defined (Inl e, s1))
      | Some a \<Rightarrow> (case tt_dev_from_bdf os junk (Some a) (Some uninit_device) s of
          Undefined \<Rightarrow> Undefined
        | Defined p \<Rightarrow> (case py_checked py p of (r, s1) \<Rightarrow> Defined (map_sum id PyDev r, s1))))"

definition py_device_id :: "py_device \<Rightarrow> u32" where
  "py_device_id d = dev_id (py_device_raw d)"

definition py_device_repr :: "py_device \<Rightarrow> string" where
  "py_device_repr d = ''Device(id='' @ show_dec (unat (dev_id (py_device_raw d))) @ '')''"

section \<open>Sessions\<close>

record py_session =
  py_raw :: tt_session
  py_persist :: bool

definition py_open_flags :: "bool \<Rightarrow> bool \<Rightarrow> u16" where
  "py_open_flags exclusive nonblocking =
     (let f0 = 0 :: u32;
          f1 = (if exclusive then f0 OR ucast TT_OPEN_EXCL else f0);
          f2 = (if nonblocking then f1 OR ucast TT_OPEN_NONBLOCK else f1)
      in ucast f2)"

definition py_open ::
  "'w os \<Rightarrow> 'w py \<Rightarrow> py_device \<Rightarrow> bool \<Rightarrow> bool \<Rightarrow> bool \<Rightarrow> 'w mach \<Rightarrow> py_session py_result \<times> 'w mach" where
  "py_open os py dev exclusive nonblocking persistent s =
     (case detach1 py (\<lambda>s.
          case tt_open os (Some (py_device_raw dev))
              (Some \<lparr>sess_dev = uninit_device, sess_fd = 0, sess_flags = 0\<rparr>)
              (py_open_flags exclusive nonblocking) s of
            (rc, sess, s1) \<Rightarrow> ((rc, errno s1, sess), s1)) s of
        ((rc, e, sess), s1) \<Rightarrow> verdict py rc e \<lparr>py_raw = the sess, py_persist = persistent\<rparr> s1)"

definition is_closed :: "py_session \<Rightarrow> bool" where
  "is_closed sess \<longleftrightarrow> sess_fd (py_raw sess) < 0"

text \<open>\<open>raw\<close> is \<^const>\<open>py_raw\<close> and \<open>set_raw\<close> its update; the two pointers denote the handle.\<close>

abbreviation py_set_raw :: "tt_session \<Rightarrow> py_session \<Rightarrow> py_session" where
  "py_set_raw raw sess \<equiv> sess\<lparr>py_raw := raw\<rparr>"

abbreviation py_as_ptr :: "py_session \<Rightarrow> tt_session option" where
  "py_as_ptr sess \<equiv> Some (py_raw sess)"

definition py_close :: "'w os \<Rightarrow> 'w py \<Rightarrow> py_session \<Rightarrow> 'w mach \<Rightarrow> unit py_result \<times> py_session \<times> 'w mach" where
  "py_close os py sess s =
     (if \<not> is_closed sess then
        (case tt_close os (py_as_ptr sess) s of (rc, raw, s1) \<Rightarrow>
          case py_check py rc s1 of (r, s2) \<Rightarrow> (r, py_set_raw (the raw) sess, s2))
      else (Inr (), sess, s))"

definition py_session_enter :: "py_session \<Rightarrow> py_session" where
  "py_session_enter sess = sess"

definition py_session_exit :: "'w os \<Rightarrow> 'w py \<Rightarrow> py_session \<Rightarrow> 'w mach \<Rightarrow> bool \<times> py_session \<times> 'w mach" where
  "py_session_exit os py sess s = (case py_close os py sess s of (_, sess1, s1) \<Rightarrow> (False, sess1, s1))"

definition py_session_drop :: "'w os \<Rightarrow> 'w py \<Rightarrow> py_session \<Rightarrow> 'w mach \<Rightarrow> 'w mach" where
  "py_session_drop os py sess s = (case py_close os py sess s of (_, _, s1) \<Rightarrow> s1)"

text \<open>The copy reopened without the lock is adopted on failure too.\<close>

definition py_reopen ::
  "'w os \<Rightarrow> 'w py \<Rightarrow> py_session \<Rightarrow> 'w mach \<Rightarrow> unit py_result \<times> py_session \<times> 'w mach" where
  "py_reopen os py sess s =
     (case detach1 py (\<lambda>s. case tt_reopen os (py_as_ptr sess) s of
          (rc, raw, s1) \<Rightarrow> ((rc, errno s1, raw), s1)) s of
        ((rc, e, raw), s1) \<Rightarrow>
          let sess1 = sess\<lparr>py_raw := the raw\<rparr> in
          case verdict py rc e () s1 of (r, s2) \<Rightarrow> (r, sess1, s2))"

definition py_dev :: "py_session \<Rightarrow> py_device" where
  "py_dev sess = PyDev (sess_dev (py_raw sess))"

definition py_session_repr :: "py_session \<Rightarrow> string" where
  "py_session_repr sess =
     (if is_closed sess then ''Session(closed)''
      else ''Session(id='' @ show_dec (unat (dev_id (sess_dev (py_raw sess)))) @ '')'')"

section \<open>Running an operation\<close>

definition PY_RETRIES :: nat where
  "PY_RETRIES = 3"

text \<open>\<open>res.is_err() && lost()\<close>: \<open>errno\<close> is read when the test is made.\<close>

definition err_lost :: "'a py_result \<Rightarrow> 'w mach \<Rightarrow> bool" where
  "err_lost res s \<longleftrightarrow> is_err res \<and> py_lost s"

text \<open>The \<open>for\<close> loop with \<open>n\<close> iterations to go, and the verdict after it.\<close>

fun py_perform_loop ::
  "'w os \<Rightarrow> 'w py \<Rightarrow> nat \<Rightarrow> (py_session \<Rightarrow> 'w mach \<Rightarrow> ('a py_result \<times> 'w mach) option) \<Rightarrow> py_session \<Rightarrow>
     'a py_result \<Rightarrow> 'w mach \<Rightarrow> ('a py_result \<times> py_session \<times> 'w mach) option" where
  "py_perform_loop os py 0 op sess res s =
     (if err_lost res s then (case py_fail py ENODEV s of (e, s1) \<Rightarrow> Some (Inl e, sess, s1))
      else Some (res, sess, s))"
| "py_perform_loop os py (Suc n) op sess res s =
     (if \<not> err_lost res s then Some (res, sess, s)
      else (case py_reopen os py sess s of
          (Inl e, sess1, s1) \<Rightarrow> Some (Inl e, sess1, s1)
        | (Inr _, sess1, s1) \<Rightarrow>
            (case op sess1 s1 of None \<Rightarrow> None
             | Some (res1, s2) \<Rightarrow> py_perform_loop os py n op sess1 res1 s2)))"

definition py_perform ::
  "'w os \<Rightarrow> 'w py \<Rightarrow> (py_session \<Rightarrow> 'w mach \<Rightarrow> ('a py_result \<times> 'w mach) option) \<Rightarrow> py_session \<Rightarrow> 'w mach \<Rightarrow>
     ('a py_result \<times> py_session \<times> 'w mach) option" where
  "py_perform os py op sess s =
     (case op sess s of None \<Rightarrow> None
      | Some (res, s1) \<Rightarrow>
          if py_persist sess then py_perform_loop os py PY_RETRIES op sess res s1
          else Some (res, sess, s1))"

section \<open>Device information\<close>

datatype py_info = PyInfo (py_info_raw: tt_dev_info)

definition py_info_op :: "'w os \<Rightarrow> 'w py \<Rightarrow> py_session \<Rightarrow> 'w mach \<Rightarrow> (py_info py_result \<times> 'w mach) option" where
  "py_info_op os py sess s =
     (case py_checked py (tt_dev_info os (py_as_ptr sess)
        (Some (blank_info\<lparr>di_output_size_bytes := info_size\<rparr>)) s) of
        (r, s1) \<Rightarrow> Some (map_sum id PyInfo r, s1))"

definition py_session_info ::
  "'w os \<Rightarrow> 'w py \<Rightarrow> py_session \<Rightarrow> 'w mach \<Rightarrow> (py_info py_result \<times> py_session \<times> 'w mach) option" where
  "py_session_info os py sess s = py_perform os py (py_info_op os py) sess s"

definition py_vendor_id :: "py_info \<Rightarrow> u16" where
  "py_vendor_id i = di_vendor_id (py_info_raw i)"

definition py_info_device_id :: "py_info \<Rightarrow> u16" where
  "py_info_device_id i = di_device_id (py_info_raw i)"

definition py_subsystem_vendor_id :: "py_info \<Rightarrow> u16" where
  "py_subsystem_vendor_id i = di_subsystem_vendor_id (py_info_raw i)"

definition py_subsystem_id :: "py_info \<Rightarrow> u16" where
  "py_subsystem_id i = di_subsystem_id (py_info_raw i)"

definition py_bus_dev_fn :: "py_info \<Rightarrow> u16" where
  "py_bus_dev_fn i = di_bus_dev_fn (py_info_raw i)"

definition py_pci_domain :: "py_info \<Rightarrow> u16" where
  "py_pci_domain i = di_pci_domain (py_info_raw i)"

definition py_max_dma_buf_size_log2 :: "py_info \<Rightarrow> u16" where
  "py_max_dma_buf_size_log2 i = di_max_dma_buf_size_log2 (py_info_raw i)"

text \<open>The format \<open>{:#06x}\<close>.\<close>

definition hex_u16 :: "u16 \<Rightarrow> string" where
  "hex_u16 x = ''0x'' @ hex0 4 (unat x)"

definition py_info_repr :: "py_info \<Rightarrow> string" where
  "py_info_repr i = ''Info(vendor='' @ hex_u16 (di_vendor_id (py_info_raw i)) @ '', device='' @
     hex_u16 (di_device_id (py_info_raw i)) @ '')''"

section \<open>The retry interface\<close>

definition py_again ::
  "'w os \<Rightarrow> 'w py \<Rightarrow> py_session \<Rightarrow> 'w mach \<Rightarrow> 'a py_result option \<times> py_session \<times> 'w mach" where
  "py_again os py sess s =
     (case py_reopen os py sess s of
        (Inl e, sess1, s1) \<Rightarrow> (Some (Inl e), sess1, s1)
      | (Inr _, sess1, s1) \<Rightarrow> (None, sess1, s1))"

definition py_spent :: "'w py \<Rightarrow> 'w mach \<Rightarrow> 'a py_result \<times> 'w mach" where
  "py_spent py s = (case py_fail py ENODEV s of (e, s1) \<Rightarrow> (Inl e, s1))"

interpretation pyr: performing "py_perform_loop os py" err_lost "py_again os py" "py_spent py"
    "py_perform os py" py_persist PY_RETRIES
  for os :: "'w os" and py :: "'w py"
proof
  fix r :: "'a py_result" and m :: "'w mach" and n op s
  assume "\<not> err_lost r m"
  then show "py_perform_loop os py n op s r m = Some (r, s, m)" by (cases n) simp_all
next
  fix r r' :: "'a py_result" and m m' :: "'w mach" and op s
  assume "err_lost r m" "py_spent py m = (r', m')"
  then show "py_perform_loop os py 0 op s r m = Some (r', s, m')"
    by (auto simp: py_spent_def split: prod.splits)
next
  fix r e :: "'a py_result" and m m' :: "'w mach" and n op s s'
  assume "err_lost r m" "py_again os py s m = (Some e, s', m')"
  then show "py_perform_loop os py (Suc n) op s r m = Some (e, s', m')"
    by (auto simp: py_again_def split: prod.splits sum.splits)
next
  fix r :: "'a py_result" and m m' :: "'w mach" and n op s s'
  assume "err_lost r m" "py_again os py s m = (None, s', m')"
  then show "py_perform_loop os py (Suc n) op s r m =
      (case op s' m' of None \<Rightarrow> None | Some (r', m'') \<Rightarrow> py_perform_loop os py n op s' r' m'')"
    by (auto simp: py_again_def split: prod.splits sum.splits)
next
  fix op :: "py_session \<Rightarrow> 'w mach \<Rightarrow> ('a py_result \<times> 'w mach) option" and s m
  show "py_perform os py op s m = (case op s m of None \<Rightarrow> None
      | Some (r, m1) \<Rightarrow> if py_persist s then py_perform_loop os py PY_RETRIES op s r m1 else Some (r, s, m1))"
    by (rule py_perform_def)
qed

text \<open>A successful result is the operation's own.\<close>

lemma py_perform_ok:
  assumes "py_perform os py op x s = Some (Inr a, x', s')"
  obtains t where "op x' t = Some (Inr a, s')"
  by (rule pyr.perform_last [OF assms, of "\<lambda>r. \<not> is_err r"])
    (auto simp: is_err_def py_again_def py_spent_def split: prod.splits sum.splits)

section \<open>Agreement with the Rust binding\<close>

text \<open>
  Sessions, errors and operations of the two bindings that correspond; \<open>f\<close> converts what the operation
  yields. An operation's error is the errno it leaves.
\<close>

definition same_session :: "py_session \<Rightarrow> session \<Rightarrow> bool" where
  "same_session x y \<longleftrightarrow> py_raw x = ss_raw y \<and> py_persist x = oo_persist (ss_opts y)"

fun py_err :: "(errno_t \<Rightarrow> string) \<Rightarrow> error \<Rightarrow> py_error" where
  "py_err tx (Os e) = TTError e (tx e)"
| "py_err tx (Simple k) = TTError EINVAL (tx EINVAL)"

definition agree_result ::
  "(errno_t \<Rightarrow> string) \<Rightarrow> ('a \<Rightarrow> 'b) \<Rightarrow> ('b py_result \<times> 'w mach) option \<Rightarrow> ('a result \<times> 'w mach) option \<Rightarrow> bool" where
  "agree_result tx f p q \<longleftrightarrow>
     (case q of None \<Rightarrow> p = None
      | Some (r, s) \<Rightarrow> p = Some (map_sum (py_err tx) f r, s) \<and> (\<forall>e. r = Inl e \<longrightarrow> e = Os (errno s)))"

definition agree_op ::
  "(errno_t \<Rightarrow> string) \<Rightarrow> ('a \<Rightarrow> 'b) \<Rightarrow> (py_session \<Rightarrow> 'w mach \<Rightarrow> ('b py_result \<times> 'w mach) option) \<Rightarrow>
     (session \<Rightarrow> 'w mach \<Rightarrow> ('a result \<times> 'w mach) option) \<Rightarrow> bool" where
  "agree_op tx f pop rop \<longleftrightarrow> (\<forall>x y s. same_session x y \<longrightarrow> agree_result tx f (pop x s) (rop y s))"

definition agree_run ::
  "(errno_t \<Rightarrow> string) \<Rightarrow> ('a \<Rightarrow> 'b) \<Rightarrow> ('b py_result \<times> py_session \<times> 'w mach) option \<Rightarrow>
     ('a result \<times> session \<times> 'w mach) option \<Rightarrow> bool" where
  "agree_run tx f p q \<longleftrightarrow>
     (case q of None \<Rightarrow> p = None
      | Some (r, y, s) \<Rightarrow> \<exists>x. p = Some (map_sum (py_err tx) f r, x, s) \<and> same_session x y)"

lemma quiet_checked:
  assumes "quiet_py py tx"
  shows "py_checked py p = (case checked p of (r, s) \<Rightarrow> (map_sum (py_err tx) id r, s))"
    "checked p = (Inl e, s) \<Longrightarrow> e = Os (errno s)"
proof -
  obtain rc x t where p: "p = (rc, x, t)" by (metis prod_cases3)
  show "py_checked py p = (case checked p of (r, s) \<Rightarrow> (map_sum (py_err tx) id r, s))"
    using quiet_simps(1) [OF assms] p
    by (cases "rc = 0") (auto simp: py_checked_def py_check_def Let_def)
  show "checked p = (Inl e, s) \<Longrightarrow> e = Os (errno s)"
    using p by (cases "rc = 0") auto
qed

text \<open>The shape of an operation: a C call, checked, its result wrapped.\<close>

lemma agree_checked:
  assumes "quiet_py py tx" "p = q" "\<And>x. f (k x) = h x"
  shows "agree_result tx f
    (case py_checked py p of (r, s1) \<Rightarrow> Some (map_sum id h r, s1))
    (case checked q of (r, s1) \<Rightarrow> Some (map_sum id k r, s1))"
proof -
  obtain r s where c: "checked q = (r, s)" by (metis prod.exhaust)
  show ?thesis
    using quiet_checked(1) [OF assms(1), of q] quiet_checked(2) [OF assms(1), of q] c assms(2,3)
    by (cases r) (auto simp: agree_result_def)
qed

lemma agree_plain: "quiet_py py tx \<Longrightarrow> agree_result tx id (Some (py_checked py p)) (Some (checked p))"
  using agree_checked [OF _ refl, where k = id and h = id and f = id]
  by (simp add: sum.map_id0 case_prod_unfold)

lemma agree_reopen:
  assumes "quiet_py py tx" "same_session x y" "reopen os y s = (r, y', s')"
  shows "\<exists>x'. py_reopen os py x s = (map_sum (py_err tx) id r, x', s') \<and> same_session x' y' \<and>
    (\<forall>e. r = Inl e \<longrightarrow> e = Os (errno s'))"
proof -
  obtain rc raw where t: "tt_reopen os (Some (ss_raw y)) s = (rc, raw, s')"
    "r = check rc s'" "y' = y\<lparr>ss_raw := the raw\<rparr>"
    using assms(3) by (auto simp: reopen_def split: prod.splits)
  then show ?thesis
    using assms(2)
    by (cases "rc = 0") (auto simp: py_reopen_def verdict_def same_session_def quiet_simps [OF assms(1)])
qed

lemma agree_lost:
  assumes "\<forall>e. r = Inl e \<longrightarrow> e = Os (errno s)"
  shows "err_lost (map_sum (py_err tx) f r) s \<longleftrightarrow> is_err_lost r"
  using assms by (cases r) (auto simp: err_lost_def is_err_def py_lost_def is_err_lost_def)

lemma agree_loop:
  assumes "quiet_py py tx" "agree_op tx f pop rop" "same_session x y" "\<forall>e. r = Inl e \<longrightarrow> e = Os (errno s)"
  shows "agree_run tx f (py_perform_loop os py n pop x (map_sum (py_err tx) f r) s) (perform_loop os n rop y r s)"
  using assms(3,4)
proof (induction n arbitrary: x y r s)
  case 0
  then show ?case
    using agree_lost [OF 0(2), of tx f] quiet_simps(1) [OF assms(1)] by (auto simp: agree_run_def)
next
  case (Suc n)
  note lost = agree_lost [OF Suc.prems(2), of tx f]
  show ?case
  proof (cases "is_err_lost r")
    case False
    then show ?thesis using lost Suc.prems by (simp add: agree_run_def)
  next
    case True
    obtain ro y1 s1 where o: "reopen os y s = (ro, y1, s1)" by (metis prod_cases3)
    then obtain x1 where p: "py_reopen os py x s = (map_sum (py_err tx) id ro, x1, s1)" "same_session x1 y1"
      using agree_reopen [OF assms(1) Suc.prems(1) o] by blast
    show ?thesis
    proof (cases ro)
      case (Inl e)
      then show ?thesis using True lost o p by (simp add: agree_run_def)
    next
      case (Inr u)
      have ag: "agree_result tx f (pop x1 s1) (rop y1 s1)"
        using assms(2) p(2) by (simp add: agree_op_def)
      show ?thesis
      proof (cases "rop y1 s1")
        case None
        then show ?thesis using True lost o p Inr ag by (simp add: agree_run_def agree_result_def)
      next
        case (Some q)
        obtain r2 s2 where q: "q = (r2, s2)" by (metis prod.exhaust)
        then have pop: "pop x1 s1 = Some (map_sum (py_err tx) f r2, s2)" "\<forall>e. r2 = Inl e \<longrightarrow> e = Os (errno s2)"
          using ag Some by (auto simp: agree_result_def)
        show ?thesis
          using Suc.IH [OF p(2) pop(2)] True lost o p(1) Inr Some q pop(1) by simp
      qed
    qed
  qed
qed

text \<open>Performing corresponding operations runs the same calls, with the same result, to the same session.\<close>

lemma agree_perform:
  assumes "quiet_py py tx" "agree_op tx f pop rop" "same_session x y"
  shows "agree_run tx f (py_perform os py pop x s) (perform os rop y s)"
proof -
  have ag: "agree_result tx f (pop x s) (rop y s)"
    using assms(2,3) by (simp add: agree_op_def)
  show ?thesis
  proof (cases "rop y s")
    case None
    then show ?thesis using ag by (simp add: py_perform_def perform_def agree_run_def agree_result_def)
  next
    case (Some q)
    obtain r s1 where q: "q = (r, s1)" by (metis prod.exhaust)
    then have pop: "pop x s = Some (map_sum (py_err tx) f r, s1)" "\<forall>e. r = Inl e \<longrightarrow> e = Os (errno s1)"
      using ag Some by (auto simp: agree_result_def)
    show ?thesis
      using agree_loop [OF assms pop(2), of os 3] Some q pop(1) assms(3)
      by (simp add: py_perform_def perform_def PY_RETRIES_def RETRIES_def)
        (auto simp: same_session_def agree_run_def)
  qed
qed

lemma agree_info:
  assumes "quiet_py py tx" "same_session x y"
  shows "agree_run tx PyInfo (py_session_info os py x s) (session_info os y s)"
proof -
  have "agree_op tx PyInfo (py_info_op os py) (\<lambda>sess s. Some (checked (tt_dev_info os (session_ptr sess)
        (Some (blank_info\<lparr>di_output_size_bytes := info_size\<rparr>)) s)))"
    unfolding agree_op_def
  proof (intro allI impI)
    fix x :: py_session and y :: session and s
    assume "same_session x y"
    then show "agree_result tx PyInfo (py_info_op os py x s) (Some (checked (tt_dev_info os (session_ptr y)
        (Some (blank_info\<lparr>di_output_size_bytes := info_size\<rparr>)) s)))"
      using agree_checked [OF assms(1) refl, where k = id and h = PyInfo and f = PyInfo]
      by (simp add: py_info_op_def same_session_def sum.map_id0 case_prod_unfold)
  qed
  then show ?thesis
    unfolding py_session_info_def session_info_def by (rule agree_perform [OF assms(1) _ assms(2)])
qed
section \<open>What discovery promises\<close>

lemma agree_scan_loop:
  assumes "quiet_py py tx" "scan_loop os cap s = Some y"
  shows "py_scan_loop os py cap s = Some (map_sum (py_err tx) (map (\<lambda>d. PyDev (device_raw d))) (fst y), snd y)"
proof (rule scan_loop.raw_induct [where P = "\<lambda>os cap s y.
    py_scan_loop os py cap s = Some (map_sum (py_err tx) (map (\<lambda>d. PyDev (device_raw d))) (fst y), snd y)",
    OF _ assms(2)])
  fix f os cap s y
  assume IH: "\<And>os cap s y. f os cap s = Some y \<Longrightarrow>
      py_scan_loop os py cap s = Some (map_sum (py_err tx) (map (\<lambda>d. PyDev (device_raw d))) (fst y), snd y)"
    and run: "(case tt_dev_scan os cap (replicate cap uninit_device) s of (found, buf, s1) \<Rightarrow>
       if found < 0 then Some (Inl (last_error s1), s1)
       else if nat found \<le> cap then Some (Inr (map Dev (take (nat found) buf)), s1)
       else f os (nat found * 2) s1) = Some y"
  obtain found buf s1 where t: "tt_dev_scan os cap (replicate cap uninit_device) s = (found, buf, s1)"
    by (metis prod_cases3)
  from run t show "py_scan_loop os py cap s
      = Some (map_sum (py_err tx) (map (\<lambda>d. PyDev (device_raw d))) (fst y), snd y)"
    by (subst py_scan_loop.simps)
      (auto simp: last_error_def py_check_def Let_def comp_def quiet_simps [OF assms(1)] split: if_splits dest!: IH)
qed

text \<open>
  C25: a scan from Python returns under the same conditions as one from Rust, after the same calls, with
  the same devices in the same order or the same errno.
\<close>

theorem py_scan_agrees:
  assumes "quiet_py py tx"
    and "\<forall>s es s1. k_opendir os ''/dev/tenstorrent'' s = (Some es, s1) \<longrightarrow> length (listed es) \<le> N"
  shows "\<exists>r s'. scan os s = Some (r, s') \<and>
    py_scan os py s = Some (map_sum (py_err tx) (map (\<lambda>d. PyDev (device_raw d))) r, s')"
proof -
  obtain r s' where "scan_loop os 32 s = Some (r, s')"
    using scan_loop_returns [of os N 32 s] assms(2) by blast
  then show ?thesis
    using agree_scan_loop [OF assms(1), of os 32 s] by (simp add: scan_def py_scan_def)
qed

theorem py_scan_agrees_witness:
  "\<exists>r s'. py_scan (stub_os\<lparr>sys_opendir := (\<lambda>_. ret0 (Some (replicate 40 \<lparr>d_type = DT_CHR, d_name = ''0''\<rparr>)))\<rparr>)
     stub_py stub_mach = Some (r, s')"
proof -
  let ?es = "replicate 40 \<lparr>d_type = DT_CHR, d_name = ''0''\<rparr>"
  let ?os = "stub_os\<lparr>sys_opendir := (\<lambda>_. ret0 (Some ?es))\<rparr>"
  have "k_opendir ?os ''/dev/tenstorrent'' s = (dir, s1) \<longleftrightarrow>
      dir = Some ?es \<and> s1 = s\<lparr>trace := trace s @ [EvOpendir ''/dev/tenstorrent'']\<rparr>"
    for s :: "stub_world mach" and dir s1
    by (auto simp: call_def ret0_def)
  then have "\<forall>s es s1. k_opendir ?os ''/dev/tenstorrent'' s = (Some es, s1) \<longrightarrow> length (listed es) \<le> 40"
    by (simp add: listed_replicate)
  from py_scan_agrees [OF stub_quiet this, of stub_mach] show ?thesis by blast
qed

section \<open>Where errno is read\<close>

text \<open>
  The retry depends on what building the exception leaves in \<open>errno\<close>: under an interpreter that clears it,
  a persistent session hands a reset connection to its caller without a single retry.
\<close>

lemma py_lost_clobbered:
  assumes "py_persist x" "\<forall>n m e w. py_new_err py n m e w = ((), 0, w)"
    and "tt_dev_info os (py_as_ptr x) (Some (blank_info\<lparr>di_output_size_bytes := info_size\<rparr>)) s = (TT_ERR, i, s1)"
    and "errno s1 = ECONNRESET"
  shows "\<exists>msg s2. py_session_info os py x s = Some (Inl (TTError ECONNRESET msg), x, s2) \<and> trace s2 = trace s1"
proof -
  obtain msg s2 where f: "py_fail py ECONNRESET s1 = (TTError ECONNRESET msg, s2)" "trace s2 = trace s1"
    by (metis prod.exhaust py_fail_frame)
  have "errno s2 = 0"
    using f(1) assms(2) by (auto simp: py_fail_def tt_error_def effect_def split: prod.splits)
  then have "\<not> err_lost (Inl (TTError ECONNRESET msg) :: py_info py_result) s2"
    by (simp add: err_lost_def py_lost_def)
  then show ?thesis
    using f assms(1,3,4)
    by (simp add: py_session_info_def py_perform_def py_info_op_def py_checked_def py_check_def Let_def
        PY_RETRIES_def numeral_3_eq_3)
qed

section \<open>What closing promises\<close>

lemma py_close_run:
  assumes "py_close os py x s = (r, x', s')"
  shows "extends s s'" "opened (since s s') = []"
    "closed (since s s') = (if is_closed x then [] else [sess_fd (py_raw x)])"
    "r = Inr () \<Longrightarrow> is_closed x'" "is_err r \<Longrightarrow> \<not> is_closed x \<and> x' = x"
proof -
  have "extends s s' \<and> opened (since s s') = [] \<and>
    closed (since s s') = (if is_closed x then [] else [sess_fd (py_raw x)]) \<and>
    (r = Inr () \<longrightarrow> is_closed x') \<and> (is_err r \<longrightarrow> \<not> is_closed x \<and> x' = x)"
  proof (cases "is_closed x")
    case True
    then show ?thesis using assms by (auto simp: py_close_def is_err_def)
  next
    case False
    obtain rc raw s1 where c: "tt_close os (Some (py_raw x)) s = (rc, raw, s1)" by (metis prod_cases3)
    then have p: "py_check py rc s1 = (r, s')" "x' = x\<lparr>py_raw := the raw\<rparr>"
      using assms False by (auto simp: py_close_def split: prod.splits)
    note t = tt_close_trace [OF c]
    have same: "trace s' = trace s1" by (rule py_check_err(1) [OF p(1)])
    then have e: "extends s s'" "since s s' = since s s1"
      using t(1) by (auto simp: extends_def since_def)
    from c have "rc = 0 \<and> sess_fd (the raw) < 0 \<or> rc \<noteq> 0 \<and> raw = Some (py_raw x)"
      using False by (cases rule: tt_close_cases) (auto simp: is_closed_def)
    then show ?thesis
      using e t p py_check_err(2,3) [OF p(1)] False
      by (auto simp: is_closed_def is_err_def split: sum.splits)
  qed
  then show "extends s s'" "opened (since s s') = []"
    "closed (since s s') = (if is_closed x then [] else [sess_fd (py_raw x)])"
    "r = Inr () \<Longrightarrow> is_closed x'" "is_err r \<Longrightarrow> \<not> is_closed x \<and> x' = x" by blast+
qed

text \<open>
  C31: a session that is closed and then dropped, as by a \<open>with\<close> block, is closed exactly once if that close
  succeeds; if it fails the session still counts as open, and the drop passes the same descriptor to
  \<open>close\<close> a second time.
\<close>

theorem py_close_then_drop:
  assumes "py_close os py x s = (r, x', s1)"
  defines "s2 \<equiv> py_session_drop os py x' s1"
  shows "opened (since s s2) = [] \<and>
    closed (since s s2) = (if is_closed x then [] else if is_err r then [sess_fd (py_raw x), sess_fd (py_raw x)]
       else [sess_fd (py_raw x)])"
proof -
  obtain r2 x2 t where c: "py_close os py x' s1 = (r2, x2, t)" by (metis prod_cases3)
  then have d: "py_close os py x' s1 = (r2, x2, s2)" by (simp add: s2_def py_session_drop_def)
  note a = py_close_run [OF assms(1)] and b = py_close_run [OF d]
  note t = trace_trans [OF a(1) b(1)]
  show ?thesis
    using a b t by (cases r) (auto simp: is_err_def)
qed

theorem py_close_then_drop_witness:
  "\<exists>s2. closed (since stub_mach s2) = [3, 3] \<and>
     (\<exists>e x' s1. py_close (stub_os\<lparr>sys_close := (\<lambda>_. fails (- 1) EIO)\<rparr>) stub_py
        \<lparr>py_raw = \<lparr>sess_dev = \<lparr>dev_id = 0\<rparr>, sess_fd = 3, sess_flags = 0\<rparr>, py_persist = False\<rparr> stub_mach = (Inl e, x', s1))"
proof -
  let ?os = "stub_os\<lparr>sys_close := (\<lambda>_. fails (- 1) EIO)\<rparr>"
  let ?x = "\<lparr>py_raw = \<lparr>sess_dev = \<lparr>dev_id = 0\<rparr>, sess_fd = 3, sess_flags = 0\<rparr>, py_persist = False\<rparr>"
  obtain e x' s1 where c: "py_close ?os stub_py ?x stub_mach = (Inl e, x', s1)"
    by (simp add: py_close_def is_closed_def tt_close_def py_check_def quiet_simps [OF stub_quiet] stub_defs)
  from py_close_then_drop [OF c] have "closed (since stub_mach (py_session_drop ?os stub_py x' s1)) = [3, 3]"
    by (simp add: is_closed_def is_err_def)
  then show ?thesis using c by blast
qed

end
