(* ===== verification/PyTlb.thy ===== *)
theory PyTlb
  imports PySession RsTlb
begin

text \<open>
  \<open>src/bind/py/src/dev/tlb.rs\<close>: windows of the Python binding. A \<open>Tlb\<close> keeps a reference to its session's
  object and a \<open>Window\<close> one to its \<open>Tlb\<close>'s, so a method takes the object as it is at the call,
  \<^const>\<open>None\<close> when it is mutably borrowed elsewhere and borrowing it fails. An \<open>option\<close> around the
  result of an access is \<^const>\<open>None\<close> when the access raises \<open>SIGBUS\<close>.
\<close>

section \<open>Data\<close>

datatype py_size = PyMb1 | PyMb2 | PyMb16 | PyGb4

fun py_size_raw :: "py_size \<Rightarrow> u64" where
  "py_size_raw PyMb1 = TT_TLB_1MB"
| "py_size_raw PyMb2 = TT_TLB_2MB"
| "py_size_raw PyMb16 = TT_TLB_16MB"
| "py_size_raw PyGb4 = TT_TLB_4GB"

datatype py_caching = PyUncached | PyWriteCombined

fun py_caching_raw :: "py_caching \<Rightarrow> u32" where
  "py_caching_raw PyUncached = TT_TLB_UC"
| "py_caching_raw PyWriteCombined = TT_TLB_WC"

record py_config =
  pc_addr :: u64
  pc_x_end :: u8
  pc_y_end :: u8
  pc_x_start :: u8
  pc_y_start :: u8
  pc_noc :: u8
  pc_mcast :: bool
  pc_linked :: bool
  pc_static_vc :: u8

text \<open>The signature's defaults: an argument left out is \<^const>\<open>None\<close>.\<close>

definition py_config_new ::
  "u64 \<Rightarrow> u8 \<Rightarrow> u8 \<Rightarrow> u8 option \<Rightarrow> u8 option \<Rightarrow> u8 option \<Rightarrow> bool option \<Rightarrow> bool option \<Rightarrow> u8 option \<Rightarrow> py_config" where
  "py_config_new addr x_end y_end x_start y_start noc mcast linked static_vc =
     (let arg = (\<lambda>d x. case x of None \<Rightarrow> d | Some v \<Rightarrow> v); flag = (\<lambda>x. case x of None \<Rightarrow> False | Some v \<Rightarrow> v) in
      \<lparr>pc_addr = addr, pc_x_end = x_end, pc_y_end = y_end, pc_x_start = arg 0 x_start,
       pc_y_start = arg 0 y_start, pc_noc = arg 0 noc, pc_mcast = flag mcast, pc_linked = flag linked,
       pc_static_vc = arg 0 static_vc\<rparr>)"

definition py_config_repr :: "py_config \<Rightarrow> string" where
  "py_config_repr c = ''Config(addr=0x'' @ hex0 16 (unat (pc_addr c)) @ '', x_end='' @ show_dec (unat (pc_x_end c)) @
     '', y_end='' @ show_dec (unat (pc_y_end c)) @ '', noc='' @ show_dec (unat (pc_noc c)) @ '')''"

record py_tlb =
  pt_raw :: tt_tlb
  pt_freed :: bool

section \<open>Windows of a session\<close>

definition py_alloc_op ::
  "'w os \<Rightarrow> 'w py \<Rightarrow> py_size \<Rightarrow> py_caching \<Rightarrow> py_session \<Rightarrow> 'w mach \<Rightarrow> (tt_tlb py_result \<times> 'w mach) option" where
  "py_alloc_op os py sz mode sess s =
     Some (py_checked py (tt_tlb_alloc os (py_as_ptr sess) (py_size_raw sz) (py_caching_raw mode) (Some uninit_tlb) s))"

definition py_alloc ::
  "'w os \<Rightarrow> 'w py \<Rightarrow> py_size \<Rightarrow> py_caching \<Rightarrow> py_session \<Rightarrow> 'w mach \<Rightarrow>
     (py_tlb py_result \<times> py_session \<times> 'w mach) option" where
  "py_alloc os py sz mode sess s =
     (case py_perform os py (py_alloc_op os py sz mode) sess s of None \<Rightarrow> None
      | Some (r, sess1, s1) \<Rightarrow> Some (map_sum id (\<lambda>raw. \<lparr>pt_raw = raw, pt_freed = False\<rparr>) r, sess1, s1))"

definition py_tlb_free ::
  "'w os \<Rightarrow> 'w py \<Rightarrow> py_session option \<Rightarrow> py_tlb \<Rightarrow> 'w mach \<Rightarrow> unit py_result \<times> py_tlb \<times> 'w mach" where
  "py_tlb_free os py sess t s =
     (if \<not> pt_freed t then
        (case sess of None \<Rightarrow> (Inl BorrowError, t, s)
         | Some x \<Rightarrow>
            let t1 = t\<lparr>pt_freed := True\<rparr> in
            case tt_tlb_free os (py_as_ptr x) (Some (pt_raw t1)) s of (rc, raw, s1) \<Rightarrow>
            case py_check py rc s1 of (r, s2) \<Rightarrow> (r, t1\<lparr>pt_raw := the raw\<rparr>, s2))
      else (Inr (), t, s))"

definition py_tlb_enter :: "py_tlb \<Rightarrow> py_tlb" where
  "py_tlb_enter t = t"

definition py_tlb_exit ::
  "'w os \<Rightarrow> 'w py \<Rightarrow> py_session option \<Rightarrow> py_tlb \<Rightarrow> 'w mach \<Rightarrow> bool \<times> py_tlb \<times> 'w mach" where
  "py_tlb_exit os py sess t s = (case py_tlb_free os py sess t s of (_, t1, s1) \<Rightarrow> (False, t1, s1))"

definition py_tlb_drop :: "'w os \<Rightarrow> 'w py \<Rightarrow> py_session option \<Rightarrow> py_tlb \<Rightarrow> 'w mach \<Rightarrow> 'w mach" where
  "py_tlb_drop os py sess t s =
     (case effect (py_try_attach py) s of (up, s1) \<Rightarrow>
        if up then (case py_tlb_free os py sess t s1 of (_, _, s2) \<Rightarrow> s2) else s1)"

text \<open>The borrow ends before the call; the pointer to the session's handle stays.\<close>

definition py_bind ::
  "'w os \<Rightarrow> 'w py \<Rightarrow> py_session option \<Rightarrow> py_tlb \<Rightarrow> py_config \<Rightarrow> 'w mach \<Rightarrow> unit py_result \<times> py_tlb \<times> 'w mach" where
  "py_bind os py sess t cfg s =
     (if pt_freed t then (Inl (RuntimeError ''TLB has been freed''), t, s)
      else case sess of None \<Rightarrow> (Inl BorrowError, t, s)
      | Some x \<Rightarrow>
        let raw = \<lparr>cfg_addr = pc_addr cfg, cfg_x_end = pc_x_end cfg, cfg_y_end = pc_y_end cfg,
                   cfg_x_start = pc_x_start cfg, cfg_y_start = pc_y_start cfg, cfg_noc = pc_noc cfg,
                   cfg_mcast = pc_mcast cfg, cfg_linked = pc_linked cfg, cfg_static_vc = pc_static_vc cfg\<rparr> in
        case tt_tlb_bind os (py_as_ptr x) (Some (pt_raw t)) (Some raw) s of (rc, traw, s1) \<Rightarrow>
        case py_check py rc s1 of (r, s2) \<Rightarrow> (r, t\<lparr>pt_raw := the traw\<rparr>, s2))"

definition py_tlb_repr :: "py_tlb \<Rightarrow> string" where
  "py_tlb_repr t =
     (if pt_freed t then ''Tlb(freed)'' else ''Tlb(id='' @ show_dec (unat (tlb_id (pt_raw t))) @ '')'')"

section \<open>Accesses through a window\<close>

text \<open>A window is its \<open>Tlb\<close>'s object; \<open>borrow\<close> panics when that is mutably borrowed.\<close>

definition borrow :: "py_tlb option \<Rightarrow> (py_tlb \<Rightarrow> 'w mach \<Rightarrow> ('a py_result \<times> 'w mach) option) \<Rightarrow> 'w mach \<Rightarrow>
    ('a py_result \<times> 'w mach) option" where
  "borrow w k s = (case w of None \<Rightarrow> Some (Inl (Panic ''Already mutably borrowed''), s) | Some t \<Rightarrow> k t s)"

definition window_enter :: "py_tlb option \<Rightarrow> py_tlb option" where
  "window_enter w = w"

definition window_exit :: "py_tlb option \<Rightarrow> bool" where
  "window_exit w = False"

definition py_window_size :: "py_tlb option \<Rightarrow> 'w mach \<Rightarrow> (u64 py_result \<times> 'w mach) option" where
  "py_window_size w = borrow w (\<lambda>t s. Some (Inr (tlb_len (pt_raw t)), s))"

definition checked_add :: "u64 \<Rightarrow> u64 \<Rightarrow> u64 option" where
  "checked_add a b = (if unat a + unat b < 2 ^ 64 then Some (a + b) else None)"

definition is_none_or :: "('a \<Rightarrow> bool) \<Rightarrow> 'a option \<Rightarrow> bool" where
  "is_none_or P x \<longleftrightarrow> (case x of None \<Rightarrow> True | Some v \<Rightarrow> P v)"

definition loaded :: "u64 option \<times> 'w mach \<Rightarrow> ('a::len word py_result \<times> 'w mach) option" where
  "loaded p = (case p of (None, _) \<Rightarrow> None | (Some v, s) \<Rightarrow> Some (Inr (ucast v), s))"

definition stored :: "bool \<times> 'w mach \<Rightarrow> (unit py_result \<times> 'w mach) option" where
  "stored p = (case p of (ok, s) \<Rightarrow> if ok then Some (Inr (), s) else None)"

definition read_u8 :: "'w os \<Rightarrow> py_tlb option \<Rightarrow> u64 \<Rightarrow> 'w mach \<Rightarrow> (u8 py_result \<times> 'w mach) option" where
  "read_u8 os w offset = borrow w (\<lambda>t s.
     if tlb_len (pt_raw t) \<le> offset then Some (Inl (IndexError ''offset out of bounds''), s)
     else loaded (k_load os (tlb_ptr (pt_raw t) + offset) 1 s))"

definition read_u32 :: "'w os \<Rightarrow> py_tlb option \<Rightarrow> u64 \<Rightarrow> 'w mach \<Rightarrow> (u32 py_result \<times> 'w mach) option" where
  "read_u32 os w offset = borrow w (\<lambda>t s.
     if offset mod 4 \<noteq> 0 then Some (Inl (ValueError ''offset must be 4-byte aligned''), s)
     else if is_none_or (\<lambda>end. tlb_len (pt_raw t) < end) (checked_add offset 4)
     then Some (Inl (IndexError ''offset out of bounds''), s)
     else loaded (k_load os (tlb_ptr (pt_raw t) + offset) 4 s))"

definition read_u64 :: "'w os \<Rightarrow> py_tlb option \<Rightarrow> u64 \<Rightarrow> 'w mach \<Rightarrow> (u64 py_result \<times> 'w mach) option" where
  "read_u64 os w offset = borrow w (\<lambda>t s.
     if offset mod 8 \<noteq> 0 then Some (Inl (ValueError ''offset must be 8-byte aligned''), s)
     else if is_none_or (\<lambda>end. tlb_len (pt_raw t) < end) (checked_add offset 8)
     then Some (Inl (IndexError ''offset out of bounds''), s)
     else loaded (k_load os (tlb_ptr (pt_raw t) + offset) 8 s))"

definition write_u8 :: "'w os \<Rightarrow> py_tlb option \<Rightarrow> u64 \<Rightarrow> u8 \<Rightarrow> 'w mach \<Rightarrow> (unit py_result \<times> 'w mach) option" where
  "write_u8 os w offset value = borrow w (\<lambda>t s.
     if tlb_len (pt_raw t) \<le> offset then Some (Inl (IndexError ''offset out of bounds''), s)
     else stored (k_store os (tlb_ptr (pt_raw t) + offset) 1 (ucast value) s))"

definition write_u32 :: "'w os \<Rightarrow> py_tlb option \<Rightarrow> u64 \<Rightarrow> u32 \<Rightarrow> 'w mach \<Rightarrow> (unit py_result \<times> 'w mach) option" where
  "write_u32 os w offset value = borrow w (\<lambda>t s.
     if offset mod 4 \<noteq> 0 then Some (Inl (ValueError ''offset must be 4-byte aligned''), s)
     else if is_none_or (\<lambda>end. tlb_len (pt_raw t) < end) (checked_add offset 4)
     then Some (Inl (IndexError ''offset out of bounds''), s)
     else stored (k_store os (tlb_ptr (pt_raw t) + offset) 4 (ucast value) s))"

definition write_u64 :: "'w os \<Rightarrow> py_tlb option \<Rightarrow> u64 \<Rightarrow> u64 \<Rightarrow> 'w mach \<Rightarrow> (unit py_result \<times> 'w mach) option" where
  "write_u64 os w offset value = borrow w (\<lambda>t s.
     if offset mod 8 \<noteq> 0 then Some (Inl (ValueError ''offset must be 8-byte aligned''), s)
     else if is_none_or (\<lambda>end. tlb_len (pt_raw t) < end) (checked_add offset 8)
     then Some (Inl (IndexError ''offset out of bounds''), s)
     else stored (k_store os (tlb_ptr (pt_raw t) + offset) 8 value s))"

definition window_repr :: string where
  "window_repr = ''Window''"

section \<open>What an access promises\<close>

text \<open>The check of an access of \<open>n\<close> bytes over the natural numbers: which error, if any.\<close>

definition access_error :: "nat \<Rightarrow> u64 \<Rightarrow> u64 \<Rightarrow> py_error option" where
  "access_error n offset len =
     (if \<not> n dvd unat offset then Some (ValueError (''offset must be '' @ show_dec n @ ''-byte aligned''))
      else if unat len < unat offset + n then Some (IndexError ''offset out of bounds'')
      else None)"

definition guarded_access :: "nat \<Rightarrow> u64 \<Rightarrow> py_tlb \<Rightarrow> 'w mach \<Rightarrow> ('a py_result \<times> 'w mach) option \<Rightarrow> ('a py_result \<times> 'w mach) option" where
  "guarded_access n offset t s k =
     (case access_error n offset (tlb_len (pt_raw t)) of Some e \<Rightarrow> Some (Inl e, s) | None \<Rightarrow> k)"

lemma checked_add_over:
  "is_none_or (\<lambda>end. len < end) (checked_add offset n) \<longleftrightarrow> unat len < unat offset + unat n"
proof (cases "unat offset + unat n < 2 ^ 64")
  case True
  then have "unat (offset + n) = unat offset + unat n" by (simp add: unat_word_ariths(1))
  then show ?thesis using True by (simp add: checked_add_def is_none_or_def word_less_nat_alt)
next
  case False
  have "unat len < 2 ^ 64" using unsigned_less [of len] by simp
  then show ?thesis using False by (simp add: checked_add_def is_none_or_def)
qed

lemma aligned: "offset mod 4 \<noteq> 0 \<longleftrightarrow> \<not> 4 dvd unat offset" "offset mod 8 \<noteq> 0 \<longleftrightarrow> \<not> 8 dvd unat offset"
  for offset :: u64
  by (simp_all add: unat_eq_0 [symmetric] unat_mod dvd_eq_mod_eq_0)

lemma access_errors:
  "access_error 1 offset len = (if len \<le> offset then Some (IndexError ''offset out of bounds'') else None)"
  "access_error 4 offset len =
     (if offset mod 4 \<noteq> 0 then Some (ValueError ''offset must be 4-byte aligned'')
      else if is_none_or (\<lambda>end. len < end) (checked_add offset 4) then Some (IndexError ''offset out of bounds'')
      else None)"
  "access_error 8 offset len =
     (if offset mod 8 \<noteq> 0 then Some (ValueError ''offset must be 8-byte aligned'')
      else if is_none_or (\<lambda>end. len < end) (checked_add offset 8) then Some (IndexError ''offset out of bounds'')
      else None)"
proof -
  have "show_dec 4 = ''4''" "show_dec 8 = ''8''" by code_simp+
  then show
    "access_error 1 offset len = (if len \<le> offset then Some (IndexError ''offset out of bounds'') else None)"
    "access_error 4 offset len =
       (if offset mod 4 \<noteq> 0 then Some (ValueError ''offset must be 4-byte aligned'')
        else if is_none_or (\<lambda>end. len < end) (checked_add offset 4) then Some (IndexError ''offset out of bounds'')
        else None)"
    "access_error 8 offset len =
       (if offset mod 8 \<noteq> 0 then Some (ValueError ''offset must be 8-byte aligned'')
        else if is_none_or (\<lambda>end. len < end) (checked_add offset 8) then Some (IndexError ''offset out of bounds'')
        else None)"
    by (simp_all add: access_error_def checked_add_over aligned word_le_nat_alt)
qed

text \<open>
  C15: an access through a window, of any of the three widths, is checked as over the natural numbers,
  offsets near the end of the address space included: a misaligned offset is a \<open>ValueError\<close>, an access
  that does not lie wholly inside the window an \<open>IndexError\<close>, both before any memory is touched; every
  other is exactly one access of that width at the window's pointer plus the offset.
\<close>

theorem py_window_checks:
  "read_u8 os (Some t) offset s =
      guarded_access 1 offset t s (loaded (k_load os (tlb_ptr (pt_raw t) + offset) 1 s)) \<and>
    read_u32 os (Some t) offset s =
      guarded_access 4 offset t s (loaded (k_load os (tlb_ptr (pt_raw t) + offset) 4 s)) \<and>
    read_u64 os (Some t) offset s =
      guarded_access 8 offset t s (loaded (k_load os (tlb_ptr (pt_raw t) + offset) 8 s)) \<and>
    write_u8 os (Some t) offset a s =
      guarded_access 1 offset t s (stored (k_store os (tlb_ptr (pt_raw t) + offset) 1 (ucast a) s)) \<and>
    write_u32 os (Some t) offset b s =
      guarded_access 4 offset t s (stored (k_store os (tlb_ptr (pt_raw t) + offset) 4 (ucast b) s)) \<and>
    write_u64 os (Some t) offset c s =
      guarded_access 8 offset t s (stored (k_store os (tlb_ptr (pt_raw t) + offset) 8 c s))"
  unfolding guarded_access_def access_errors
  by (simp add: read_u8_def read_u32_def read_u64_def write_u8_def write_u32_def write_u64_def borrow_def)

section \<open>The life of a window\<close>

text \<open>The Rust session and window with the same contents, for the lemmas of that binding.\<close>

abbreviation rust :: "py_session \<Rightarrow> session" where
  "rust x \<equiv> \<lparr>ss_raw = py_raw x, ss_opts = options_new\<rparr>"

lemma py_tlb_free_run:
  assumes "py_tlb_free os py (Some x) t s = (r, t', s')" "\<not> pt_freed t" "mapping_calls os"
  shows "pt_freed t'" "tlb_ptr (pt_raw t') = 0" "tlb_len (pt_raw t') = tlb_len (pt_raw t)"
    "extends s s'" "ioctls (since s s') = (if sess_fd (py_raw x) < 0 then []
       else [(sess_fd (py_raw x), IoFreeTlb (tlb_id (pt_raw t)))])"
    "mapped (since s s') = []" "mset (unmapped (since s s')) = held (pt_raw t)"
proof -
  obtain rc raw s1 where f: "tt_tlb_free os (Some (py_raw x)) (Some (pt_raw t)) s = (rc, raw, s1)"
    by (metis prod_cases3)
  then have p: "py_check py rc s1 = (r, s')" "t' = t\<lparr>pt_freed := True, pt_raw := the raw\<rparr>"
    using assms(1,2) by (auto simp: py_tlb_free_def Let_def split: prod.splits)
  have "trace s' = trace s1" by (rule py_check_err(1) [OF p(1)])
  with f assms(3) have "tlb_ptr (the raw) = 0 \<and> tlb_len (the raw) = tlb_len (pt_raw t) \<and> extends s s' \<and>
      ioctls (since s s') = (if sess_fd (py_raw x) < 0 then []
        else [(sess_fd (py_raw x), IoFreeTlb (tlb_id (pt_raw t)))]) \<and>
      mapped (since s s') = [] \<and> mset (unmapped (since s s')) = held (pt_raw t)"
    by (cases rule: tt_tlb_free_cases) (auto simp: since_eq extendsI held_def)
  then show "pt_freed t'" "tlb_ptr (pt_raw t') = 0" "tlb_len (pt_raw t') = tlb_len (pt_raw t)"
    "extends s s'" "ioctls (since s s') = (if sess_fd (py_raw x) < 0 then []
       else [(sess_fd (py_raw x), IoFreeTlb (tlb_id (pt_raw t)))])"
    "mapped (since s s') = []" "mset (unmapped (since s s')) = held (pt_raw t)"
    using p(2) by simp_all
qed



text \<open>
  What a program can do with a \<open>Tlb\<close> while its session is open, whatever the state of the session's
  borrow at each step; \<open>with\<close> blocks included.
\<close>

definition open_sess :: "fd \<Rightarrow> py_session option \<Rightarrow> bool" where
  "open_sess f sess \<longleftrightarrow> 0 \<le> f \<and> (\<forall>x. sess = Some x \<longrightarrow> sess_fd (py_raw x) = f)"

inductive py_tlb_step :: "'w os \<Rightarrow> 'w py \<Rightarrow> fd \<Rightarrow> py_tlb \<times> 'w mach \<Rightarrow> py_tlb \<times> 'w mach \<Rightarrow> bool"
  for os py f where
  step_bind: "open_sess f sess \<Longrightarrow> py_bind os py sess t cfg s = (r, t', s') \<Longrightarrow> py_tlb_step os py f (t, s) (t', s')"
| step_free: "open_sess f sess \<Longrightarrow> py_tlb_free os py sess t s = (r, t', s') \<Longrightarrow> py_tlb_step os py f (t, s) (t', s')"
| step_exit: "open_sess f sess \<Longrightarrow> py_tlb_exit os py sess t s = (b, t', s') \<Longrightarrow> py_tlb_step os py f (t, s) (t', s')"

inductive_cases py_tlb_stepE: "py_tlb_step os py f (t, s) (t', s')"

text \<open>
  The books of a \<open>Tlb\<close> the driver gave the id \<open>i\<close>: it asked for one free of that id, on the session's
  descriptor, last of all, if it is freed, and for none otherwise; it holds every mapping it made.
\<close>

definition py_books :: "fd \<Rightarrow> u32 \<Rightarrow> 'w mach \<Rightarrow> py_tlb \<Rightarrow> 'w mach \<Rightarrow> bool" where
  "py_books f i s t s' \<longleftrightarrow> extends s s' \<and>
     (\<exists>is. ioctls (since s s') = is @ (if pt_freed t then [(f, IoFreeTlb i)] else []) \<and>
        (\<forall>p \<in> set is. \<exists>c. p = (f, IoConfigTlb i c))) \<and>
     (if pt_freed t then tlb_ptr (pt_raw t) = 0 else tlb_id (pt_raw t) = i) \<and>
     mset (mapped (since s s')) = mset (unmapped (since s s')) + held (pt_raw t)"

lemma py_bind_run:
  assumes "py_bind os py (Some x) t cfg s = (r, t', s')" "\<not> pt_freed t" "mapping_calls os"
  shows "extends s s'" "\<not> pt_freed t'" "tlb_id (pt_raw t') = tlb_id (pt_raw t)"
    "\<forall>p \<in> set (ioctls (since s s')). \<exists>c. p = (sess_fd (py_raw x), IoConfigTlb (tlb_id (pt_raw t)) c)"
    "mset (mapped (since s s')) + held (pt_raw t) = mset (unmapped (since s s')) + held (pt_raw t')"
proof -
  obtain rc traw s1 c where b: "tt_tlb_bind os (Some (py_raw x)) (Some (pt_raw t)) (Some c) s = (rc, traw, s1)"
    and p: "py_check py rc s1 = (r, s')" "t' = t\<lparr>pt_raw := the traw\<rparr>"
    using assms(1,2) by (auto simp: py_bind_def Let_def split: prod.splits)
  obtain rr where "rs_bind os (rust x) (RsTlb (pt_raw t)) c s = (rr, RsTlb (pt_raw t'), s1)"
    using b p(2) by (auto simp: rs_bind_def Let_def)
  note st = rs_bind_step [OF assms(3) this]
  have "trace s' = trace s1" by (rule py_check_err(1) [OF p(1)])
  then have e: "extends s s' \<longleftrightarrow> extends s s1" "since s s' = since s s1"
    by (simp_all add: extends_def since_def)
  show "extends s s'" "\<not> pt_freed t'" "tlb_id (pt_raw t') = tlb_id (pt_raw t)"
    "\<forall>p \<in> set (ioctls (since s s')). \<exists>c. p = (sess_fd (py_raw x), IoConfigTlb (tlb_id (pt_raw t)) c)"
    "mset (mapped (since s s')) + held (pt_raw t) = mset (unmapped (since s s')) + held (pt_raw t')"
    using st e p(2) assms(2) by auto
qed

lemma py_books_refl: "\<not> pt_freed t \<Longrightarrow> tlb_ptr (pt_raw t) = 0 \<Longrightarrow> py_books f (tlb_id (pt_raw t)) s t s"
  by (simp add: py_books_def held_def)

lemma py_books_free:
  assumes "py_books f i s0 t s" "open_sess f sess" "py_tlb_free os py sess t s = (r, t', s')" "mapping_calls os"
  shows "py_books f i s0 t' s'"
proof (cases "pt_freed t \<or> sess = None")
  case True
  then show ?thesis using assms(1,3) by (auto simp: py_tlb_free_def split: option.splits if_splits)
next
  case False
  then obtain x where x: "sess = Some x" "\<not> pt_freed t" by auto
  note fr = py_tlb_free_run [OF assms(3) [unfolded x(1)] x(2) assms(4)]
  have fd: "sess_fd (py_raw x) = f" "0 \<le> f" using assms(2) x(1) by (auto simp: open_sess_def)
  have e: "extends s0 s" using assms(1) by (simp add: py_books_def)
  show ?thesis
    using assms(1) fr fd x(2) since_trans [OF e fr(4)] extends_trans [OF e fr(4)]
    by (auto simp: py_books_def held_def split: if_splits)
qed

lemma py_books_step:
  assumes "py_tlb_step os py f (t, s) (t', s')" "py_books f i s0 t s" "mapping_calls os"
  shows "py_books f i s0 t' s'"
proof -
  consider (bind) sess cfg r where "open_sess f sess" "py_bind os py sess t cfg s = (r, t', s')"
    | (free) sess r where "open_sess f sess" "py_tlb_free os py sess t s = (r, t', s')"
    | (exit) sess b where "open_sess f sess" "py_tlb_exit os py sess t s = (b, t', s')"
    using assms(1) by (auto elim: py_tlb_stepE)
  then show ?thesis
  proof cases
    case free
    then show ?thesis using py_books_free [OF assms(2)] assms(3) by blast
  next
    case exit
    then obtain r where "py_tlb_free os py sess t s = (r, t', s')"
      by (auto simp: py_tlb_exit_def split: prod.splits)
    then show ?thesis using py_books_free [OF assms(2) exit(1)] assms(3) by blast
  next
    case bind
    show ?thesis
    proof (cases "pt_freed t \<or> sess = None")
      case True
      then show ?thesis using assms(2) bind by (auto simp: py_bind_def split: option.splits if_splits)
    next
      case False
      then obtain x where x: "sess = Some x" "\<not> pt_freed t" by auto
      note br = py_bind_run [OF bind(2) [unfolded x(1)] x(2) assms(3)]
      have fd: "sess_fd (py_raw x) = f" using bind(1) x(1) by (auto simp: open_sess_def)
      have e: "extends s0 s" using assms(2) by (simp add: py_books_def)
      have acc: "mset (mapped (since s0 s')) = mset (unmapped (since s0 s')) + held (pt_raw t')"
        using assms(2) br(5) since_trans [OF e br(1)] by (simp add: py_books_def ac_simps)
      show ?thesis
        using assms(2) br(1-4) fd x(2) since_trans [OF e br(1)] extends_trans [OF e br(1)] acc
        by (auto simp: py_books_def)
    qed
  qed
qed

lemma py_books_steps:
  "(py_tlb_step os py f)\<^sup>*\<^sup>* (t, s) (t', s') \<Longrightarrow> py_books f i s0 t s \<Longrightarrow> mapping_calls os \<Longrightarrow> py_books f i s0 t' s'"
  by (induction rule: rtranclp_induct2) (auto intro: py_books_step)

lemma py_tlb_frees:
  assumes "mapping_calls os" "\<not> pt_freed t0" "tlb_ptr (pt_raw t0) = 0"
    and "(py_tlb_step os py f)\<^sup>*\<^sup>* (t0, s0) (t, s)"
  shows "\<exists>is. ioctls (since s0 s) = is @ (if pt_freed t then [(f, IoFreeTlb (tlb_id (pt_raw t0)))] else []) \<and>
      (\<forall>p \<in> set is. \<exists>c. p = (f, IoConfigTlb (tlb_id (pt_raw t0)) c))"
    and "pt_freed t \<Longrightarrow> mset (mapped (since s0 s)) = mset (unmapped (since s0 s))"
    and "open_sess f (Some x) \<Longrightarrow> fst (py_try_attach py (errno s) (world s)) \<Longrightarrow>
      \<exists>is. ioctls (since s0 (py_tlb_drop os py (Some x) t s)) = is @ [(f, IoFreeTlb (tlb_id (pt_raw t0)))] \<and>
        (\<forall>p \<in> set is. \<exists>c. p = (f, IoConfigTlb (tlb_id (pt_raw t0)) c))"
proof -
  have b: "py_books f (tlb_id (pt_raw t0)) s0 t s"
    by (rule py_books_steps [OF assms(4) py_books_refl [OF assms(2,3)] assms(1)])
  then show "\<exists>is. ioctls (since s0 s) = is @ (if pt_freed t then [(f, IoFreeTlb (tlb_id (pt_raw t0)))] else []) \<and>
      (\<forall>p \<in> set is. \<exists>c. p = (f, IoConfigTlb (tlb_id (pt_raw t0)) c))"
    by (simp add: py_books_def)
  show "mset (mapped (since s0 s)) = mset (unmapped (since s0 s))" if "pt_freed t"
    using b that by (simp add: py_books_def held_def)
  assume x: "open_sess f (Some x)" and up: "fst (py_try_attach py (errno s) (world s))"
  obtain s1 where a: "effect (py_try_attach py) s = (True, s1)"
    using up by (cases "py_try_attach py (errno s) (world s)") (auto simp: effect_def)
  obtain r t' s' where fr: "py_tlb_free os py (Some x) t s1 = (r, t', s')" by (metis prod_cases3)
  then have d: "py_tlb_drop os py (Some x) t s = s'" using a by (simp add: py_tlb_drop_def)
  have "trace s1 = trace s" by (rule effect_frame(1) [OF a])
  then have "py_books f (tlb_id (pt_raw t0)) s0 t s1" using b by (simp add: py_books_def extends_def since_def)
  then have "py_books f (tlb_id (pt_raw t0)) s0 t' s'" by (rule py_books_free [OF _ x fr assms(1)])
  moreover have "pt_freed t'"
    using fr by (cases "pt_freed t") (auto simp: py_tlb_free_def Let_def split: prod.splits)
  ultimately show "\<exists>is. ioctls (since s0 (py_tlb_drop os py (Some x) t s))
      = is @ [(f, IoFreeTlb (tlb_id (pt_raw t0)))] \<and> (\<forall>p \<in> set is. \<exists>c. p = (f, IoConfigTlb (tlb_id (pt_raw t0)) c))"
    by (simp add: py_books_def d)
qed

text \<open>
  C14: however a program uses a \<open>Tlb\<close> of an open session, binding and freeing it in any order and number,
  by hand or through \<open>with\<close> blocks, and whether or not the session could be borrowed each time, the
  driver is asked to free its id at most once, after everything else; once the \<open>Tlb\<close> counts as freed that
  request has been made, every mapping is gone, and nothing touches the driver again. A drop at the end
  makes it count as freed, unless the session is still borrowed or the interpreter gone.
\<close>

theorem py_tlb_frees_once:
  assumes "mapping_calls os" "\<not> pt_freed t0" "tlb_ptr (pt_raw t0) = 0"
    and "(py_tlb_step os py f)\<^sup>*\<^sup>* (t0, s0) (t, s)"
  shows "(\<exists>is. ioctls (since s0 s) = is @ (if pt_freed t then [(f, IoFreeTlb (tlb_id (pt_raw t0)))] else []) \<and>
      (\<forall>p \<in> set is. \<exists>c. p = (f, IoConfigTlb (tlb_id (pt_raw t0)) c))) \<and>
    (pt_freed t \<longrightarrow> mset (mapped (since s0 s)) = mset (unmapped (since s0 s))) \<and>
    (open_sess f (Some x) \<and> fst (py_try_attach py (errno s) (world s)) \<longrightarrow>
      (\<exists>is. ioctls (since s0 (py_tlb_drop os py (Some x) t s)) = is @ [(f, IoFreeTlb (tlb_id (pt_raw t0)))] \<and>
        (\<forall>p \<in> set is. \<exists>c. p = (f, IoConfigTlb (tlb_id (pt_raw t0)) c))))"
  using py_tlb_frees [OF assms] by simp

theorem py_tlb_frees_once_witness:
  "\<exists>s t. pt_freed t \<and> (py_tlb_step stub_os stub_py 3)\<^sup>*\<^sup>*
     (\<lparr>pt_raw = \<lparr>tlb_id = 7, tlb_ptr = 0, tlb_idx = 0, tlb_len = TT_TLB_2MB\<rparr>, pt_freed = False\<rparr>, stub_mach) (t, s) \<and>
     (\<exists>is. ioctls (since stub_mach s) = is @ [(3, IoFreeTlb 7)])"
proof -
  let ?x = "\<lparr>py_raw = \<lparr>sess_dev = \<lparr>dev_id = 0\<rparr>, sess_fd = 3, sess_flags = 0\<rparr>, py_persist = False\<rparr>"
  let ?t = "\<lparr>pt_raw = \<lparr>tlb_id = 7, tlb_ptr = 0, tlb_idx = 0, tlb_len = TT_TLB_2MB\<rparr>, pt_freed = False\<rparr>"
  obtain r t s where f: "py_tlb_free stub_os stub_py (Some ?x) ?t stub_mach = (r, t, s)" by (metis prod_cases3)
  have m: "mapping_calls stub_os" by (simp add: mapping_calls_def stub_os_def ret0_def)
  have st: "(py_tlb_step stub_os stub_py 3)\<^sup>*\<^sup>* (?t, stub_mach) (t, s)"
    by (rule r_into_rtranclp, rule step_free [OF _ f]) (simp add: open_sess_def)
  have fr: "pt_freed t" using py_tlb_free_run(1) [OF f _ m] by simp
  from conjunct1 [OF py_tlb_frees_once [OF m _ _ st]] fr st show ?thesis by auto
qed

section \<open>Agreement with the Rust binding\<close>

fun rust_size :: "py_size \<Rightarrow> tlb_size" where
  "rust_size PyMb1 = Mb1" | "rust_size PyMb2 = Mb2" | "rust_size PyMb16 = Mb16" | "rust_size PyGb4 = Gb4"

fun rust_caching :: "py_caching \<Rightarrow> caching" where
  "rust_caching PyUncached = Uncached" | "rust_caching PyWriteCombined = WriteCombined"

lemma agree_alloc:
  assumes "quiet_py py tx" "same_session x y"
  shows "agree_run tx (\<lambda>t. \<lparr>pt_raw = tlb_raw t, pt_freed = False\<rparr>) (py_alloc os py sz mode x s)
    (rs_alloc os (rust_size sz) (rust_caching mode) y s)"
proof -
  have raw: "size_raw (rust_size sz) = py_size_raw sz" "caching_raw (rust_caching mode) = py_caching_raw mode"
    by (cases sz; simp) (cases mode; simp)
  have "agree_op tx id (py_alloc_op os py sz mode) (\<lambda>sess s. Some (checked (tt_tlb_alloc os (session_ptr sess)
        (size_raw (rust_size sz)) (caching_raw (rust_caching mode)) (Some uninit_tlb) s)))"
    by (simp add: agree_op_def py_alloc_op_def same_session_def raw agree_plain [OF assms(1)])
  from agree_perform [OF assms(1) this assms(2), of os s] show ?thesis
    by (auto simp: py_alloc_def rs_alloc_def agree_run_def map_sum.compositionality comp_def
        split: option.splits prod.splits)
qed

end
