(* ===== verification/F64.thy ===== *)
theory F64
  imports Complex_Main Prelude "HOL-Library.Log_Nat"
begin

text \<open>
  The double-precision arithmetic that timeouts go through in the Python binding: values of \<open>f64\<close> as
  rationals and the exceptional values (a zero's sign makes no difference to these operations), the
  correctly rounded product, and Rust's \<open>round\<close>, \<open>min\<close> and \<open>as u32\<close>.
\<close>

section \<open>Values and rounding\<close>

datatype f64 = Fin rat | PosInf | NegInf | NaN

text \<open>The binary exponent of a positive rational: \<open>2\<^bsup>expo q\<^esup> \<le> q < 2\<^bsup>expo q + 1\<^esup>\<close>.\<close>

definition expo :: "rat \<Rightarrow> int" where
  "expo q = (case quotient_of q of (n, d) \<Rightarrow>
     let e = bitlen n - bitlen d in if 2 powi e \<le> q then e else e - 1)"

text \<open>The distance of neighbouring doubles about a value, no smaller than the least subnormal.\<close>

definition ulp :: "rat \<Rightarrow> rat" where
  "ulp q = 2 powi (max (expo q - 52) (- 1074))"

definition nearest_even :: "rat \<Rightarrow> int" where
  "nearest_even m =
     (let f = \<lfloor>m\<rfloor>; r = m - of_int f in
      if r < 1 / 2 then f else if 1 / 2 < r then f + 1 else if even f then f else f + 1)"

definition f64_pos :: "rat \<Rightarrow> rat" where
  "f64_pos q = of_int (nearest_even (q / ulp q)) * ulp q"

text \<open>The double nearest to a rational; from \<open>2\<^bsup>1024\<^esup>\<close> on it is infinite.\<close>

definition f64_of :: "rat \<Rightarrow> f64" where
  "f64_of q =
     (if q = 0 then Fin 0
      else let v = f64_pos \<bar>q\<bar> in
        if v < 2 ^ 1024 then Fin (if q < 0 then - v else v) else if q < 0 then NegInf else PosInf)"

section \<open>Operations\<close>

text \<open>\<open>x * c\<close> for a positive finite constant \<open>c\<close>.\<close>

fun f64_scale :: "f64 \<Rightarrow> rat \<Rightarrow> f64" where
  "f64_scale (Fin q) c = f64_of (q * c)"
| "f64_scale x c = x"

definition is_finite :: "f64 \<Rightarrow> bool" where
  "is_finite x \<longleftrightarrow> (case x of Fin _ \<Rightarrow> True | _ \<Rightarrow> False)"

text \<open>\<open>x < 0.0\<close>.\<close>

definition f64_neg :: "f64 \<Rightarrow> bool" where
  "f64_neg x \<longleftrightarrow> (case x of Fin q \<Rightarrow> q < 0 | NegInf \<Rightarrow> True | _ \<Rightarrow> False)"

text \<open>Half-way cases away from zero.\<close>

fun f64_round :: "f64 \<Rightarrow> f64" where
  "f64_round (Fin q) = Fin (of_int (if q < 0 then - \<lfloor>1 / 2 - q\<rfloor> else \<lfloor>q + 1 / 2\<rfloor>))"
| "f64_round x = x"

text \<open>\<open>x.min(c)\<close> for a finite \<open>c\<close>: a \<open>NaN\<close> yields the other operand.\<close>

fun f64_min :: "f64 \<Rightarrow> rat \<Rightarrow> f64" where
  "f64_min (Fin q) c = Fin (min q c)"
| "f64_min NegInf c = NegInf"
| "f64_min x c = Fin c"

text \<open>\<open>x as u32\<close>: towards zero, saturating.\<close>

fun f64_as_u32 :: "f64 \<Rightarrow> u32" where
  "f64_as_u32 (Fin q) = (if q \<le> 0 then 0 else of_int (min \<lfloor>q\<rfloor> (2 ^ 32 - 1)))"
| "f64_as_u32 PosInf = 0xFFFFFFFF"
| "f64_as_u32 x = 0"

section \<open>How far rounding can be off\<close>

lemma bitlen_rat:
  assumes "0 < n"
  shows "2 powi (bitlen n - 1) \<le> (of_int n :: rat)" "(of_int n :: rat) < 2 powi bitlen n"
proof -
  have b: "2 ^ nat (bitlen n - 1) \<le> n \<and> n < 2 ^ nat (bitlen n)" by (rule bitlen_bounds [OF assms])
  have p: "1 \<le> bitlen n" using assms bitlen_eq_zero_iff [of n] bitlen_nonneg [of n] by linarith
  have "(2 :: rat) powi (bitlen n - 1) = of_int (2 ^ nat (bitlen n - 1))" "(2 :: rat) powi bitlen n = of_int (2 ^ nat (bitlen n))"
    using p by (simp_all add: power_int_def)
  then show "2 powi (bitlen n - 1) \<le> (of_int n :: rat)" "(of_int n :: rat) < 2 powi bitlen n"
    using b by (metis of_int_le_iff) (metis b of_int_less_iff \<open>(2 :: rat) powi bitlen n = of_int (2 ^ nat (bitlen n))\<close>)
qed

lemma expo_upper:
  assumes "0 < q"
  shows "2 powi expo q \<le> q"
proof -
  obtain n d where nd: "quotient_of q = (n, d)" by (metis prod.exhaust)
  then have d: "0 < d" and q: "q = of_int n / of_int d"
    by (simp_all add: quotient_of_denom_pos quotient_of_div)
  then have n: "0 < n" using assms by (simp add: zero_less_divide_iff)
  let ?e = "bitlen n - bitlen d"
  have "2 powi (?e - 1) = (2 :: rat) powi (bitlen n - 1) / 2 powi bitlen d"
    by (simp add: power_int_diff [symmetric] algebra_simps)
  also have "\<dots> \<le> of_int n / of_int d"
    using bitlen_rat [OF n] bitlen_rat [OF d] d n
    by (intro frac_le) (auto simp: less_imp_le)
  finally show ?thesis using nd q by (auto simp: expo_def Let_def)
qed

lemma nearest_even_close: "\<bar>of_int (nearest_even m) - m\<bar> \<le> 1 / 2"
  using floor_correct [of m] of_int_floor_le [of m] by (auto simp: nearest_even_def Let_def abs_le_iff)

lemma ulp_pos [simp]: "0 < ulp q"
  by (simp add: ulp_def)

lemma f64_pos_nonneg:
  assumes "0 < q"
  shows "0 \<le> f64_pos q"
proof -
  have "0 \<le> q / ulp q" using assms less_imp_le [OF ulp_pos] by (intro divide_nonneg_nonneg) auto
  then have "0 \<le> nearest_even (q / ulp q)" by (auto simp: nearest_even_def Let_def)
  then show ?thesis unfolding f64_pos_def by (intro mult_nonneg_nonneg less_imp_le [OF ulp_pos]) simp
qed

definition tiny :: rat where
  "tiny = 2 powi (- 1074)"

lemma tiny_bounds: "0 < tiny" "tiny \<le> 1 / 2 ^ 30"
proof -
  show "0 < tiny" unfolding tiny_def by (rule zero_less_power_int) simp
  have "tiny \<le> 2 powi (- 30)" unfolding tiny_def by (rule power_int_increasing) simp_all
  also have "(2 :: rat) powi (- 30) = 1 / 2 ^ 30" by (simp add: power_int_minus)
  finally show "tiny \<le> 1 / 2 ^ 30" .
qed

lemma ulp_bound:
  assumes "0 < q"
  shows "ulp q \<le> q / 2 ^ 52 + tiny"
proof -
  have "(2 :: rat) powi (expo q - 52) = 2 powi expo q / 2 ^ 52" by (simp add: power_int_diff)
  also have "\<dots> \<le> q / 2 ^ 52" using expo_upper [OF assms] by (rule divide_right_mono) simp
  finally have a: "2 powi (expo q - 52) \<le> q / 2 ^ 52" .
  have q0: "0 \<le> q / 2 ^ 52" using assms by simp
  show ?thesis
  proof (cases "expo q - 52 \<le> - 1074")
    case True
    then have "ulp q = tiny" unfolding ulp_def tiny_def by (simp only: max_absorb2)
    then show ?thesis using q0 by linarith
  next
    case False
    then have "ulp q = 2 powi (expo q - 52)" unfolding ulp_def by (simp only: max_absorb1 not_le less_imp_le)
    then show ?thesis using a tiny_bounds(1) by linarith
  qed
qed

lemma f64_pos_close:
  assumes "0 < q"
  shows "\<bar>f64_pos q - q\<bar> \<le> q / 2 ^ 53 + tiny"
proof -
  let ?u = "ulp q" and ?d = "of_int (nearest_even (q / ulp q)) - q / ulp q"
  have u: "0 < ?u" by (rule ulp_pos)
  have "f64_pos q - q = ?d * ?u"
    using less_imp_neq [OF u] by (simp add: f64_pos_def algebra_simps)
  then have "\<bar>f64_pos q - q\<bar> = \<bar>?d\<bar> * ?u"
    using less_imp_le [OF u] by (simp only: abs_mult abs_of_nonneg)
  also have "\<dots> \<le> 1 / 2 * ?u"
    using nearest_even_close [of "q / ?u"] less_imp_le [OF u] by (rule mult_right_mono)
  also have "\<dots> \<le> 1 / 2 * (q / 2 ^ 52 + tiny)"
    using ulp_bound [OF assms] by (rule mult_left_mono) simp
  also have "\<dots> \<le> q / 2 ^ 53 + tiny"
    using tiny_bounds(1) by simp
  finally show ?thesis .
qed

end
