(* ===== verification/PySmc.thy ===== *)
theory PySmc
  imports PySession Smc F64
begin

text \<open>
  \<open>src/bind/py/src/dev/smc.rs\<close>: messages to the management controller from Python. A \<open>Queued\<close> keeps a
  reference to its session's object, which its methods borrow as it is at the call; \<^const>\<open>None\<close> stands
  for a session that is mutably borrowed elsewhere, as it is while another thread reopens it.
\<close>

section \<open>Messages\<close>

datatype py_message = PyMessage (py_words: "u32 list")

text \<open>The loop that copies the words over the zeroed array, from index \<open>i\<close> on.\<close>

fun copy_words :: "nat \<Rightarrow> u32 list \<Rightarrow> u32 list \<Rightarrow> u32 list" where
  "copy_words i [] raw = raw"
| "copy_words i (w # ws) raw = copy_words (i + 1) ws (raw[i := w])"

definition too_long :: py_error where
  "too_long = ValueError ''message must have at most 8 elements''"

definition py_message_new :: "u32 list option \<Rightarrow> py_message py_result" where
  "py_message_new message =
     (case message of None \<Rightarrow> Inr (PyMessage (replicate 8 0))
      | Some ws \<Rightarrow> if 8 < length ws then Inl too_long else Inr (PyMessage (copy_words 0 ws (replicate 8 0))))"

definition py_message_get :: "py_message \<Rightarrow> u32 list" where
  "py_message_get m = py_words m"

definition py_message_set :: "py_message \<Rightarrow> u32 list \<Rightarrow> unit py_result \<times> py_message" where
  "py_message_set m ws =
     (if 8 < length ws then (Inl too_long, m) else (Inr (), PyMessage (copy_words 0 ws (replicate 8 0))))"

fun commas :: "string list \<Rightarrow> string" where
  "commas [] = []"
| "commas [x] = x"
| "commas (x # xs) = x @ '', '' @ commas xs"

definition py_message_repr :: "py_message \<Rightarrow> string" where
  "py_message_repr m = ''Message(message=['' @ commas (map (\<lambda>w. show_dec (unat w)) (py_words m)) @ ''])''"

section \<open>Queued messages\<close>

datatype py_queued = PyQueued (pq_done: bool)

definition py_discard :: "'w os \<Rightarrow> py_session option \<Rightarrow> py_queued \<Rightarrow> 'w mach \<Rightarrow> py_queued \<times> 'w mach" where
  "py_discard os sess q s =
     (if pq_done q then (q, s)
      else (PyQueued True, case sess of None \<Rightarrow> s | Some x \<Rightarrow> snd (tt_smc_drop os (py_as_ptr x) s)))"

text \<open>The destructor; the method \<open>drop\<close> below is \<open>discard\<close>.\<close>

definition py_queued_dealloc :: "'w os \<Rightarrow> 'w py \<Rightarrow> py_session option \<Rightarrow> py_queued \<Rightarrow> 'w mach \<Rightarrow> 'w mach" where
  "py_queued_dealloc os py sess q s =
     (case effect (py_try_attach py) s of (up, s1) \<Rightarrow> if up then snd (py_discard os sess q s1) else s1)"

definition py_poll ::
  "'w os \<Rightarrow> 'w py \<Rightarrow> py_session option \<Rightarrow> py_queued \<Rightarrow> 'w mach \<Rightarrow> py_message option py_result \<times> py_queued \<times> 'w mach" where
  "py_poll os py sess q s =
     (case sess of None \<Rightarrow> (Inl BorrowError, q, s)
      | Some x \<Rightarrow>
        (case tt_smc_poll os (py_as_ptr x) (Some (replicate 8 0)) s of (rc, rsp, s1) \<Rightarrow>
          if rc \<noteq> 0 then
            (let e = errno s1 in
             if e = EAGAIN then (Inr None, q, s1)
             else (case py_fail py e s1 of (err, s2) \<Rightarrow> (Inl err, PyQueued True, s2)))
          else (Inr (Some (PyMessage (the rsp))), PyQueued True, s1)))"

definition py_queued_drop :: "'w os \<Rightarrow> py_session option \<Rightarrow> py_queued \<Rightarrow> 'w mach \<Rightarrow> py_queued \<times> 'w mach" where
  "py_queued_drop os sess q s = py_discard os sess q s"

definition py_queued_enter :: "py_queued \<Rightarrow> py_queued" where
  "py_queued_enter q = q"

definition py_queued_exit :: "'w os \<Rightarrow> py_session option \<Rightarrow> py_queued \<Rightarrow> 'w mach \<Rightarrow> bool \<times> py_queued \<times> 'w mach" where
  "py_queued_exit os sess q s = (case py_discard os sess q s of (q1, s1) \<Rightarrow> (False, q1, s1))"

definition py_queued_repr :: "py_queued \<Rightarrow> string" where
  "py_queued_repr q = ''Queued(done='' @ (if pq_done q then ''true'' else ''false'') @ '')''"

section \<open>Calls\<close>

definition py_millis :: "f64 option \<Rightarrow> u32 py_result" where
  "py_millis timeout =
     (case timeout of None \<Rightarrow> Inr 0
      | Some secs \<Rightarrow>
          if \<not> is_finite secs \<or> f64_neg secs
          then Inl (ValueError ''timeout must be a non-negative number of seconds'')
          else Inr (f64_as_u32 (f64_min (f64_round (f64_scale secs 1000)) (2 ^ 32 - 1))))"

definition py_call ::
  "'w os \<Rightarrow> 'w py \<Rightarrow> py_session \<Rightarrow> py_message \<Rightarrow> f64 option \<Rightarrow> 'w mach \<Rightarrow> (py_message py_result \<times> 'w mach) option" where
  "py_call os py sess req timeout s =
     (case py_millis timeout of Inl e \<Rightarrow> Some (Inl e, s)
      | Inr ms \<Rightarrow>
        (case detach py (\<lambda>s.
            case tt_smc_call os (py_as_ptr sess) (Some (py_words req)) (Some (replicate 8 0)) ms s of None \<Rightarrow> None
            | Some (rc, rsp, s1) \<Rightarrow> Some ((rc, errno s1, rsp), s1)) s of
          None \<Rightarrow> None
        | Some ((rc, e, rsp), s1) \<Rightarrow> Some (verdict py rc e (PyMessage (the rsp)) s1)))"

definition py_post ::
  "'w os \<Rightarrow> 'w py \<Rightarrow> py_session option \<Rightarrow> py_message \<Rightarrow> 'w mach \<Rightarrow> py_queued py_result \<times> 'w mach" where
  "py_post os py sess req s =
     (case sess of None \<Rightarrow> (Inl BorrowError, s)
      | Some x \<Rightarrow>
        (case tt_smc_post os (py_as_ptr x) (Some (py_words req)) s of (rc, s1) \<Rightarrow>
         case py_check py rc s1 of (r, s2) \<Rightarrow> (map_sum id (\<lambda>_. PyQueued False) r, s2)))"

section \<open>What messages and timeouts promise\<close>

lemma fill_append: "length pre = i \<Longrightarrow> length ws \<le> length rest \<Longrightarrow>
  copy_words i ws (pre @ rest) = pre @ ws @ drop (length ws) rest"
proof (induction i ws "pre @ rest" arbitrary: pre rest rule: copy_words.induct)
  case (2 i w ws)
  then obtain r rest' where r: "rest = r # rest'" by (cases rest) auto
  then have "(pre @ rest)[i := w] = (pre @ [w]) @ rest'" using 2(2) by (simp add: list_update_append)
  then show ?case using 2(1) [of "pre @ [w]" rest'] 2(2,3) r by simp
qed simp

text \<open>
  A message built from Python is its words padded with zeros to eight, whatever the object held
  before, and more than eight words are refused with the object unchanged.
\<close>

lemma py_message_padded:
  "length ws \<le> 8 \<Longrightarrow> py_message_new (Some ws) = Inr (PyMessage (ws @ replicate (8 - length ws) 0)) \<and>
     py_message_set m ws = (Inr (), PyMessage (ws @ replicate (8 - length ws) 0))"
  "8 < length ws \<Longrightarrow> py_message_new (Some ws) = Inl too_long \<and> py_message_set m ws = (Inl too_long, m)"
  using fill_append [of "[]" 0 ws "replicate 8 0"]
  by (auto simp: py_message_new_def py_message_set_def)

lemma py_message_example:
  "py_message_new (Some [1, 2]) = Inr (PyMessage [1, 2, 0, 0, 0, 0, 0, 0])"
  using py_message_padded(1) [of "[1, 2]"] by (simp add: numeral_eq_Suc)

lemma as_u32_min:
  assumes "0 \<le> z"
  shows "f64_as_u32 (f64_min (Fin (of_int z)) (2 ^ 32 - 1)) = of_int (min z (2 ^ 32 - 1))"
proof -
  have "min (of_int z) (2 ^ 32 - 1) = (of_int (min z (2 ^ 32 - 1)) :: rat)"
    unfolding of_int_min by simp
  then have "f64_min (Fin (of_int z)) (2 ^ 32 - 1) = Fin (of_int (min z (2 ^ 32 - 1)))"
    by (simp only: f64_min.simps)
  then show ?thesis using assms by (auto simp: min_def)
qed

lemma millis_finite:
  assumes "0 \<le> t"
  shows "\<exists>v. 0 \<le> v \<and> \<bar>v - 1000 * t\<bar> \<le> 1000 * t / 2 ^ 53 + tiny \<and>
    py_millis (Some (Fin t)) = Inr (of_int (min \<lfloor>v + 1 / 2\<rfloor> (2 ^ 32 - 1)))"
proof (cases "t = 0")
  case True
  have "\<lfloor>1 / 2 :: rat\<rfloor> = 0" by (simp add: floor_eq_iff)
  then show ?thesis
    using True tiny_bounds(1)
    by (intro exI [of _ 0]) (simp add: py_millis_def is_finite_def f64_neg_def f64_of_def)
next
  case False
  then have t: "0 < t * 1000" using assms by simp
  let ?v = "f64_pos (t * 1000)"
  have close: "\<bar>?v - 1000 * t\<bar> \<le> 1000 * t / 2 ^ 53 + tiny"
    using f64_pos_close [OF t] by (simp add: mult.commute)
  have v: "0 \<le> ?v" by (rule f64_pos_nonneg [OF t])
  have "py_millis (Some (Fin t)) = Inr (of_int (min \<lfloor>?v + 1 / 2\<rfloor> (2 ^ 32 - 1)))"
  proof (cases "?v < 2 ^ 1024")
    case True
    then have "f64_round (f64_scale (Fin t) 1000) = Fin (of_int \<lfloor>?v + 1 / 2\<rfloor>)"
      using v t by (simp only: f64_scale.simps f64_of_def Let_def) (simp add: not_less [symmetric])
    then show ?thesis
      using assms v as_u32_min [of "\<lfloor>?v + 1 / 2\<rfloor>"] by (simp add: py_millis_def is_finite_def f64_neg_def)
  next
    case False
    then have "f64_round (f64_scale (Fin t) 1000) = PosInf"
      using t by (simp only: f64_scale.simps f64_of_def Let_def) simp
    moreover have "2 ^ 32 - 1 \<le> ?v + 1 / 2" using False by simp
    ultimately show ?thesis
      using assms by (simp add: py_millis_def is_finite_def f64_neg_def le_floor_iff min_absorb2)
  qed
  then show ?thesis using close v by blast
qed

lemma unat_of_min:
  fixes v :: rat
  assumes "0 \<le> v"
  shows "(of_nat (unat (of_int (min \<lfloor>v + 1 / 2\<rfloor> (2 ^ 32 - 1)) :: u32)) :: rat)
    = of_int (min \<lfloor>v + 1 / 2\<rfloor> (2 ^ 32 - 1))"
proof -
  let ?m = "min \<lfloor>v + 1 / 2\<rfloor> (2 ^ 32 - 1)"
  have m: "0 \<le> ?m" "?m < 2 ^ 32" using assms by simp_all
  then have "unat (of_int ?m :: u32) = nat ?m"
    by (simp add: unsigned_of_int take_bit_int_eq_self)
  then show ?thesis using m(1) by (simp only: of_nat_nat)
qed

lemma py_millis_cases:
  "py_millis None = Inr 0"
  "(\<exists>e. py_millis (Some x) = Inl e) \<longleftrightarrow> x \<in> {PosInf, NegInf, NaN} \<or> (\<exists>t < 0. x = Fin t)"
  "0 \<le> t \<Longrightarrow> \<exists>ms. py_millis (Some (Fin t)) = Inr ms \<and>
     (if 1000 * t < 2 ^ 32 - 1 then \<bar>of_nat (unat ms) - 1000 * t\<bar> \<le> 1 / 2 + 1 / 2 ^ 20 else ms = 0xFFFFFFFF) \<and>
     (t < 4 / 10000 \<longrightarrow> ms = 0)"
proof -
  show "py_millis None = Inr 0" by (simp add: py_millis_def)
  show "(\<exists>e. py_millis (Some x) = Inl e) \<longleftrightarrow> x \<in> {PosInf, NegInf, NaN} \<or> (\<exists>t < 0. x = Fin t)"
    by (cases x) (auto simp: py_millis_def is_finite_def f64_neg_def)
  assume t: "0 \<le> t"
  obtain v where v: "0 \<le> v" "\<bar>v - 1000 * t\<bar> \<le> 1000 * t / 2 ^ 53 + tiny"
    and m: "py_millis (Some (Fin t)) = Inr (of_int (min \<lfloor>v + 1 / 2\<rfloor> (2 ^ 32 - 1)))"
    using millis_finite [OF t] by blast
  let ?ms = "of_int (min \<lfloor>v + 1 / 2\<rfloor> (2 ^ 32 - 1)) :: u32"
  have fl: "of_int \<lfloor>v + 1 / 2\<rfloor> \<le> v + 1 / 2" "v + 1 / 2 < of_int \<lfloor>v + 1 / 2\<rfloor> + 1"
    using floor_correct [of "v + 1 / 2"] by auto
  note tiny = tiny_bounds(2)
  have a: "if 1000 * t < 2 ^ 32 - 1 then \<bar>of_nat (unat ?ms) - 1000 * t\<bar> \<le> 1 / 2 + 1 / 2 ^ 20 else ?ms = 0xFFFFFFFF"
  proof (cases "1000 * t < 2 ^ 32 - 1")
    case True
    then have "1000 * t / 2 ^ 53 \<le> 2 ^ 32 / 2 ^ 53" by (intro divide_right_mono) simp_all
    also have "\<dots> = 1 / 2 ^ 21" by simp
    finally have d: "\<bar>v - 1000 * t\<bar> \<le> 1 / 2 ^ 21 + 1 / 2 ^ 30" using v(2) tiny by linarith
    then have "v - 1000 * t \<le> 1 / 2" by (rule order.trans [OF abs_ge_self order.trans]) simp
    then have "v + 1 / 2 < 2 ^ 32" using True by linarith
    then have "\<lfloor>v + 1 / 2\<rfloor> < 2 ^ 32" by (simp add: floor_less_iff)
    then have "min \<lfloor>v + 1 / 2\<rfloor> (2 ^ 32 - 1) = \<lfloor>v + 1 / 2\<rfloor>" by simp
    then have "of_nat (unat ?ms) = (of_int \<lfloor>v + 1 / 2\<rfloor> :: rat)" using unat_of_min [OF v(1)] by simp
    moreover have "\<bar>of_int \<lfloor>v + 1 / 2\<rfloor> - v\<bar> \<le> 1 / 2" using fl by linarith
    ultimately have "\<bar>of_nat (unat ?ms) - 1000 * t\<bar> \<le> 1 / 2 + (1 / 2 ^ 21 + 1 / 2 ^ 30)" using d by linarith
    also have "\<dots> \<le> 1 / 2 + 1 / 2 ^ 20" by simp
    finally show ?thesis using True by simp
  next
    case False
    define x where "x = 1000 * t"
    have x: "2 ^ 32 - 1 \<le> x" using False by (simp add: x_def)
    have "x / 2 ^ 53 \<le> x - (2 ^ 32 - 1) + 1 / 4" using x by simp
    moreover have "x - v \<le> x / 2 ^ 53 + tiny" using v(2) unfolding x_def by linarith
    moreover have "tiny \<le> 1 / 4" using tiny by (rule order.trans) simp
    ultimately have "2 ^ 32 - 1 \<le> v + 1 / 2" by linarith
    then have "2 ^ 32 - 1 \<le> \<lfloor>v + 1 / 2\<rfloor>" by (simp add: le_floor_iff)
    then have "min \<lfloor>v + 1 / 2\<rfloor> (2 ^ 32 - 1) = 2 ^ 32 - 1" by simp
    then show ?thesis using False by simp
  qed
  have b: "?ms = 0" if "t < 4 / 10000"
  proof -
    have "1000 * t / 2 ^ 53 \<le> 1 / 2 ^ 53" using that by (intro divide_right_mono) simp_all
    moreover have "(1 / 2 ^ 53 :: rat) + 1 / 2 ^ 30 \<le> 1 / 100" by simp
    ultimately have "v + 1 / 2 < 1" using that v(2) tiny by linarith
    then have "\<lfloor>v + 1 / 2\<rfloor> = 0" using v(1) by (simp add: floor_eq_iff)
    then show ?thesis by simp
  qed
  show "\<exists>ms. py_millis (Some (Fin t)) = Inr ms \<and>
     (if 1000 * t < 2 ^ 32 - 1 then \<bar>of_nat (unat ms) - 1000 * t\<bar> \<le> 1 / 2 + 1 / 2 ^ 20 else ms = 0xFFFFFFFF) \<and>
     (t < 4 / 10000 \<longrightarrow> ms = 0)"
    using m a b by blast
qed

text \<open>
  C24: a timeout in seconds is refused exactly when it is negative, infinite or not a number. Any other
  reaches the C library as the nearest whole number of milliseconds, up to the rounding of one product of
  doubles, saturated at the width; one under four tenths of a millisecond becomes \<open>0\<close>, which the library
  takes, as it does an absent one, for its default of a second.
\<close>

theorem py_millis_outcome:
  "py_millis None = Inr 0 \<and>
   ((\<exists>e. py_millis (Some x) = Inl e) \<longleftrightarrow> x \<in> {PosInf, NegInf, NaN} \<or> (\<exists>t < 0. x = Fin t)) \<and>
   (0 \<le> t \<longrightarrow> (\<exists>ms. py_millis (Some (Fin t)) = Inr ms \<and>
     (if 1000 * t < 2 ^ 32 - 1 then \<bar>of_nat (unat ms) - 1000 * t\<bar> \<le> 1 / 2 + 1 / 2 ^ 20 else ms = 0xFFFFFFFF) \<and>
     (t < 4 / 10000 \<longrightarrow> ms = 0)))"
  by (intro conjI impI) (rule py_millis_cases, rule py_millis_cases, erule py_millis_cases(3))

theorem py_millis_outcome_witness:
  "\<exists>ms. py_millis (Some (Fin (5 / 2))) = Inr ms \<and> \<bar>of_nat (unat ms) - 2500\<bar> \<le> (1 / 2 + 1 / 2 ^ 20 :: rat)"
  using py_millis_outcome [of NaN "5 / 2"] by auto

section \<open>The life of a queued message\<close>

text \<open>
  What a program can do with a \<open>Queued\<close> whose session stays on the descriptor \<open>f\<close>: poll it whether or not
  the session can be borrowed, and discard it, by method or \<open>with\<close> block, while it can.
\<close>

inductive py_queued_step :: "'w os \<Rightarrow> 'w py \<Rightarrow> fd \<Rightarrow> py_queued \<times> 'w mach \<Rightarrow> py_queued \<times> 'w mach \<Rightarrow> bool"
  for os py f where
  poll_busy: "py_poll os py None q s = (r, q', s') \<Longrightarrow> py_queued_step os py f (q, s) (q', s')"
| poll_ready: "sess_fd (py_raw x) = f \<Longrightarrow> py_poll os py (Some x) q s = (r, q', s') \<Longrightarrow>
    py_queued_step os py f (q, s) (q', s')"
| drop_ready: "sess_fd (py_raw x) = f \<Longrightarrow> py_queued_drop os (Some x) q s = (q', s') \<Longrightarrow>
    py_queued_step os py f (q, s) (q', s')"
| exit_ready: "sess_fd (py_raw x) = f \<Longrightarrow> py_queued_exit os (Some x) q s = (b, q', s') \<Longrightarrow>
    py_queued_step os py f (q, s) (q', s')"

inductive_cases py_queued_stepE: "py_queued_step os py f (q, s) (q', s')"

text \<open>No other descriptor's slot has changed since \<open>B\<close>, and once the message is done its own is free.\<close>

definition slot_books :: "('w \<Rightarrow> fd set) \<Rightarrow> fd \<Rightarrow> fd set \<Rightarrow> py_queued \<Rightarrow> 'w mach \<Rightarrow> bool" where
  "slot_books busy f B q s \<longleftrightarrow> busy (world s) - {f} = B - {f} \<and> (pq_done q \<longrightarrow> f \<notin> busy (world s))"

lemma slot_poll_books:
  assumes "py_poll os py (Some x) q s = (r, q', s')" "sess_fd (py_raw x) = f" "0 \<le> f"
    "slot_books busy f B q s" "smc_slot os busy" "quiet_py py tx"
  shows "slot_books busy f B q' s'"
proof -
  obtain rc rsp s1 where p: "tt_smc_poll os (Some (py_raw x)) (Some (replicate 8 0)) s = (rc, rsp, s1)"
    by (metis prod_cases3)
  note b = slot_poll [OF assms(5) p]
  show ?thesis
    using assms(1-4) p b
    by (cases "rc = 0"; cases "errno s1 = EAGAIN")
      (auto simp: py_poll_def Let_def slot_books_def quiet_simps [OF assms(6)])
qed

lemma slot_discard_books:
  assumes "py_discard os (Some x) q s = (q', s')" "sess_fd (py_raw x) = f" "0 \<le> f"
    "slot_books busy f B q s" "smc_slot os busy"
  shows "slot_books busy f B q' s' \<and> pq_done q'"
proof (cases "pq_done q")
  case True
  then show ?thesis using assms(1,4) by (simp add: py_discard_def)
next
  case False
  obtain rc s1 where d: "tt_smc_drop os (Some (py_raw x)) s = (rc, s1)" by (metis prod.exhaust)
  have r: "q' = PyQueued True" "s' = s1" using assms(1) False d by (simp_all add: py_discard_def)
  have "busy (world s1) = busy (world s) - {f}"
    using slot_drop [OF assms(5) d] assms(2,3) by simp
  moreover have "busy (world s) - {f} = B - {f}" using assms(4) by (simp add: slot_books_def)
  ultimately have "busy (world s1) = B - {f}" by simp
  then show ?thesis using r by (simp add: slot_books_def)
qed

lemma queued_step_books:
  assumes "py_queued_step os py f (q, s) (q', s')" "0 \<le> f" "slot_books busy f B q s" "smc_slot os busy" "quiet_py py tx"
  shows "slot_books busy f B q' s'"
proof -
  consider (busy) r where "py_poll os py None q s = (r, q', s')"
    | (poll) x r where "sess_fd (py_raw x) = f" "py_poll os py (Some x) q s = (r, q', s')"
    | (discard) x where "sess_fd (py_raw x) = f" "py_discard os (Some x) q s = (q', s')"
    using assms(1) by (auto simp: py_queued_drop_def py_queued_exit_def elim!: py_queued_stepE split: prod.splits)
  then show ?thesis
  proof cases
    case busy
    then show ?thesis using assms(3) by (simp add: py_poll_def)
  next
    case poll
    show ?thesis by (rule slot_poll_books [OF poll(2,1) assms(2-5)])
  next
    case discard
    show ?thesis using slot_discard_books [OF discard(2,1) assms(2-4)] by blast
  qed
qed

lemma queued_steps_books:
  assumes "(py_queued_step os py f)\<^sup>*\<^sup>* (q, s) (q', s')" "0 \<le> f" "slot_books busy f B q s" "smc_slot os busy" "quiet_py py tx"
  shows "slot_books busy f B q' s'"
  using assms(1,3)
proof (induction rule: rtranclp_induct2)
  case (step q1 s1 q2 s2)
  from step.IH [OF step.prems] show ?case by (rule queued_step_books [OF step.hyps(2) assms(2) _ assms(4,5)])
qed



text \<open>
  C32: discarding a message abandons whatever is outstanding on the descriptor its session has by then. If
  the session cannot be borrowed at that moment the handle counts as done all the same and nothing is
  abandoned, so no later drop frees the slot either; and if the session was reopened since the post, the
  message abandoned is another's.
\<close>

theorem py_discard_effect:
  assumes "smc_slot os busy" "py_discard os sess q s = (q', s')" "\<forall>x. sess = Some x \<longrightarrow> \<not> is_closed x"
  shows "pq_done q' \<and> busy (world s') = busy (world s) -
      (case sess of Some x \<Rightarrow> if pq_done q then {} else {sess_fd (py_raw x)} | None \<Rightarrow> {}) \<and>
    py_discard os later q' u = (q', u)"
proof -
  have d: "pq_done q' \<and> busy (world s') = busy (world s) -
      (case sess of Some x \<Rightarrow> if pq_done q then {} else {sess_fd (py_raw x)} | None \<Rightarrow> {})"
  proof (cases "pq_done q \<or> sess = None")
    case True
    then show ?thesis using assms(2) by (auto simp: py_discard_def split: option.splits if_splits)
  next
    case False
    then obtain x where x: "sess = Some x" "\<not> pq_done q" by auto
    obtain rc s1 where d: "tt_smc_drop os (Some (py_raw x)) s = (rc, s1)" by (metis prod.exhaust)
    then have r: "q' = PyQueued True" "s' = s1" using assms(2) x by (simp_all add: py_discard_def)
    have "0 \<le> sess_fd (py_raw x)" using assms(3) x(1) by (simp add: is_closed_def not_less)
    from slot_drop [OF assms(1) d this] r x show ?thesis by simp
  qed
  then show ?thesis by (simp add: py_discard_def)
qed

theorem py_discard_effect_witness:
  "\<exists>q' s'. py_discard stub_os None (PyQueued False) (stub_mach\<lparr>world := (0, {3})\<rparr>) = (q', s') \<and>
     pq_done q' \<and> snd (world s') = {3} \<and> py_discard stub_os (Some \<lparr>py_raw = \<lparr>sess_dev = \<lparr>dev_id = 0\<rparr>, sess_fd = 3, sess_flags = 0\<rparr>, py_persist = False\<rparr>) q' s' = (q', s')"
proof -
  obtain q' s' where d: "py_discard stub_os None (PyQueued False) (stub_mach\<lparr>world := (0, {3})\<rparr>) = (q', s')"
    by (metis prod.exhaust)
  from py_discard_effect [OF stub_smc_slot d] d show ?thesis
    by (auto simp: py_discard_def)
qed

end
