(* ===== verification/PyPower.thy ===== *)
theory PyPower
  imports PySession RsPower
begin

text \<open>\<open>src/bind/py/src/dev/power.rs\<close>: power flags and the request for a power state from Python.\<close>

datatype py_flag = PyFlag (py_bits: u16)

definition PyMaxAiClk :: py_flag where "PyMaxAiClk = PyFlag TT_POWER_MAX_AI_CLK"
definition PyMriscPhyWakeup :: py_flag where "PyMriscPhyWakeup = PyFlag TT_POWER_MRISC_PHY_WAKEUP"
definition PyTensixEnable :: py_flag where "PyTensixEnable = PyFlag TT_POWER_TENSIX_ENABLE"
definition PyL2CpuEnable :: py_flag where "PyL2CpuEnable = PyFlag TT_POWER_L2CPU_ENABLE"
definition PyHI :: py_flag where "PyHI = PyFlag (NOT 0)"
definition PyLO :: py_flag where "PyLO = PyFlag 0"

definition py_or :: "py_flag \<Rightarrow> py_flag \<Rightarrow> py_flag" where
  "py_or a b = PyFlag (py_bits a OR py_bits b)"

definition py_ror :: "py_flag \<Rightarrow> py_flag \<Rightarrow> py_flag" where
  "py_ror a b = PyFlag (py_bits a OR py_bits b)"

definition py_flag_int :: "py_flag \<Rightarrow> u16" where
  "py_flag_int f = py_bits f"

definition py_flag_repr :: "py_flag \<Rightarrow> string" where
  "py_flag_repr f = ''Flag('' @ hex_u16 (py_bits f) @ '')''"

definition py_power_op :: "'w os \<Rightarrow> 'w py \<Rightarrow> py_flag \<Rightarrow> py_session \<Rightarrow> 'w mach \<Rightarrow> (unit py_result \<times> 'w mach) option" where
  "py_power_op os py flags sess s =
     (case tt_power os (py_as_ptr sess) (py_bits flags) s of (rc, s1) \<Rightarrow> Some (py_check py rc s1))"

definition py_power ::
  "'w os \<Rightarrow> 'w py \<Rightarrow> py_flag \<Rightarrow> py_session \<Rightarrow> 'w mach \<Rightarrow> (unit py_result \<times> py_session \<times> 'w mach) option" where
  "py_power os py flags sess s = py_perform os py (py_power_op os py flags) sess s"

section \<open>Agreement with the Rust binding\<close>

lemma agree_power:
  assumes "quiet_py py tx" "same_session x y"
  shows "agree_run tx id (py_power os py flags x s) (rs_power os (FlagSet (py_bits flags)) y s)"
  unfolding py_power_def rs_power_def
proof (rule agree_perform [OF assms(1) _ assms(2)])
  show "agree_op tx id (py_power_op os py flags) (power_op os (FlagSet (py_bits flags)))"
    unfolding agree_op_def
  proof (intro allI impI)
    fix x :: py_session and y :: session and s
    assume same: "same_session x y"
    obtain rc s1 where "tt_power os (session_ptr y) (py_bits flags) s = (rc, s1)" by (metis prod.exhaust)
    then show "agree_result tx id (py_power_op os py flags x s) (power_op os (FlagSet (py_bits flags)) y s)"
      using same
      by (cases "rc = 0") (auto simp: py_power_op_def power_op_def same_session_def agree_result_def py_check_def
          Let_def quiet_simps [OF assms(1)])
  qed
qed

text \<open>The flags a program combines with \<open>|\<close> are the set the Rust binding builds from the same flags.\<close>

fun py_flag_of :: "flag \<Rightarrow> py_flag" where
  "py_flag_of MaxAiClk = PyMaxAiClk"
| "py_flag_of MriscPhyWakeup = PyMriscPhyWakeup"
| "py_flag_of TensixEnable = PyTensixEnable"
| "py_flag_of L2CpuEnable = PyL2CpuEnable"

lemma py_bits_of: "py_bits (py_flag_of f) = flag_raw f"
  by (cases f) (simp_all add: PyMaxAiClk_def PyMriscPhyWakeup_def PyTensixEnable_def PyL2CpuEnable_def)

lemma py_or_set: "py_bits (foldl py_or PyLO (map py_flag_of fs)) = set_bits (from_iter fs)"
proof -
  have "py_bits (foldl py_or a (map py_flag_of fs)) = foldl (\<lambda>acc f. acc OR flag_raw f) (py_bits a) fs" for a
    by (induction fs arbitrary: a) (simp_all add: py_or_def py_bits_of)
  then show ?thesis by (simp add: from_iter_def PyLO_def)
qed

end
