(* ===== verification/PyTag.thy ===== *)
theory PyTag
  imports RsTag
begin

text \<open>
  The telemetry tags of \<open>src/bind/py/src/dev/telem.rs\<close>, whose values the interpreter sees as integers
  (\<open>eq_int\<close>), and the tags of the Rust binding that bear the same names.
\<close>

datatype (plugins only: size) py_tag =
    PyBoardIdHigh | PyBoardIdLow | PyAsicId | PyHarvestingState | PyUpdateTelemSpeed | PyVcore
    | PyTdp | PyTdc | PyVddLimits | PyThmLimitShutdown | PyAsicTemperature | PyVregTemperature
    | PyBoardTemperature | PyAiClk | PyAxiClk | PySmcClk | PyL2CpuClk0 | PyL2CpuClk1
    | PyL2CpuClk2 | PyL2CpuClk3 | PyEthLiveStatus | PyGddrStatus | PyGddrSpeed | PyEthFwVersion
    | PyGddrFwVersion | PyDmAppFwVersion | PyDmBlFwVersion | PyFlashBundleVersion
    | PyCmFwVersion | PyL2CpuFwVersion | PyFanSpeed | PyTimerHeartbeat | PyEnabledTensixCol
    | PyEnabledEth | PyEnabledGddr | PyEnabledL2Cpu | PyPcieUsage | PyInputCurrent
    | PyNocTranslation | PyFanRpm | PyGddr01Temp | PyGddr23Temp | PyGddr45Temp | PyGddr67Temp
    | PyGddr01CorrErrs | PyGddr23CorrErrs | PyGddr45CorrErrs | PyGddr67CorrErrs
    | PyGddrUncorrErrs | PyMaxGddrTemp | PyAsicLocation | PyBoardPowerLimit | PyInputPower
    | PyTdcLimitMax | PyThmLimitThrottle | PyFwBuildDate | PyTtFlashVersion | PyEnabledTensixRow
    | PyThermTripCount | PyAsicIdHigh | PyAsicIdLow | PyAiClkLimitMax | PyTdpLimitMax
    | PyAiClkArbMin | PyAiClkArbMax | PyEnabledMinArb | PyEnabledMaxArb

primrec py_tag_raw :: "py_tag \<Rightarrow> nat" where
  "py_tag_raw PyBoardIdHigh = 1"
| "py_tag_raw PyBoardIdLow = 2"
| "py_tag_raw PyAsicId = 3"
| "py_tag_raw PyHarvestingState = 4"
| "py_tag_raw PyUpdateTelemSpeed = 5"
| "py_tag_raw PyVcore = 6"
| "py_tag_raw PyTdp = 7"
| "py_tag_raw PyTdc = 8"
| "py_tag_raw PyVddLimits = 9"
| "py_tag_raw PyThmLimitShutdown = 10"
| "py_tag_raw PyAsicTemperature = 11"
| "py_tag_raw PyVregTemperature = 12"
| "py_tag_raw PyBoardTemperature = 13"
| "py_tag_raw PyAiClk = 14"
| "py_tag_raw PyAxiClk = 15"
| "py_tag_raw PySmcClk = 16"
| "py_tag_raw PyL2CpuClk0 = 17"
| "py_tag_raw PyL2CpuClk1 = 18"
| "py_tag_raw PyL2CpuClk2 = 19"
| "py_tag_raw PyL2CpuClk3 = 20"
| "py_tag_raw PyEthLiveStatus = 21"
| "py_tag_raw PyGddrStatus = 22"
| "py_tag_raw PyGddrSpeed = 23"
| "py_tag_raw PyEthFwVersion = 24"
| "py_tag_raw PyGddrFwVersion = 25"
| "py_tag_raw PyDmAppFwVersion = 26"
| "py_tag_raw PyDmBlFwVersion = 27"
| "py_tag_raw PyFlashBundleVersion = 28"
| "py_tag_raw PyCmFwVersion = 29"
| "py_tag_raw PyL2CpuFwVersion = 30"
| "py_tag_raw PyFanSpeed = 31"
| "py_tag_raw PyTimerHeartbeat = 32"
| "py_tag_raw PyEnabledTensixCol = 34"
| "py_tag_raw PyEnabledEth = 35"
| "py_tag_raw PyEnabledGddr = 36"
| "py_tag_raw PyEnabledL2Cpu = 37"
| "py_tag_raw PyPcieUsage = 38"
| "py_tag_raw PyInputCurrent = 39"
| "py_tag_raw PyNocTranslation = 40"
| "py_tag_raw PyFanRpm = 41"
| "py_tag_raw PyGddr01Temp = 42"
| "py_tag_raw PyGddr23Temp = 43"
| "py_tag_raw PyGddr45Temp = 44"
| "py_tag_raw PyGddr67Temp = 45"
| "py_tag_raw PyGddr01CorrErrs = 46"
| "py_tag_raw PyGddr23CorrErrs = 47"
| "py_tag_raw PyGddr45CorrErrs = 48"
| "py_tag_raw PyGddr67CorrErrs = 49"
| "py_tag_raw PyGddrUncorrErrs = 50"
| "py_tag_raw PyMaxGddrTemp = 51"
| "py_tag_raw PyAsicLocation = 52"
| "py_tag_raw PyBoardPowerLimit = 53"
| "py_tag_raw PyInputPower = 54"
| "py_tag_raw PyTdcLimitMax = 55"
| "py_tag_raw PyThmLimitThrottle = 56"
| "py_tag_raw PyFwBuildDate = 57"
| "py_tag_raw PyTtFlashVersion = 58"
| "py_tag_raw PyEnabledTensixRow = 59"
| "py_tag_raw PyThermTripCount = 60"
| "py_tag_raw PyAsicIdHigh = 61"
| "py_tag_raw PyAsicIdLow = 62"
| "py_tag_raw PyAiClkLimitMax = 63"
| "py_tag_raw PyTdpLimitMax = 64"
| "py_tag_raw PyAiClkArbMin = 65"
| "py_tag_raw PyAiClkArbMax = 66"
| "py_tag_raw PyEnabledMinArb = 67"
| "py_tag_raw PyEnabledMaxArb = 68"

primrec rust_tag :: "py_tag \<Rightarrow> tag" where
  "rust_tag PyBoardIdHigh = BoardIdHigh"
| "rust_tag PyBoardIdLow = BoardIdLow"
| "rust_tag PyAsicId = AsicId"
| "rust_tag PyHarvestingState = HarvestingState"
| "rust_tag PyUpdateTelemSpeed = UpdateTelemSpeed"
| "rust_tag PyVcore = Vcore"
| "rust_tag PyTdp = Tdp"
| "rust_tag PyTdc = Tdc"
| "rust_tag PyVddLimits = VddLimits"
| "rust_tag PyThmLimitShutdown = ThmLimitShutdown"
| "rust_tag PyAsicTemperature = AsicTemperature"
| "rust_tag PyVregTemperature = VregTemperature"
| "rust_tag PyBoardTemperature = BoardTemperature"
| "rust_tag PyAiClk = AiClk"
| "rust_tag PyAxiClk = AxiClk"
| "rust_tag PySmcClk = SmcClk"
| "rust_tag PyL2CpuClk0 = L2CpuClk0"
| "rust_tag PyL2CpuClk1 = L2CpuClk1"
| "rust_tag PyL2CpuClk2 = L2CpuClk2"
| "rust_tag PyL2CpuClk3 = L2CpuClk3"
| "rust_tag PyEthLiveStatus = EthLiveStatus"
| "rust_tag PyGddrStatus = GddrStatus"
| "rust_tag PyGddrSpeed = GddrSpeed"
| "rust_tag PyEthFwVersion = EthFwVersion"
| "rust_tag PyGddrFwVersion = GddrFwVersion"
| "rust_tag PyDmAppFwVersion = DmAppFwVersion"
| "rust_tag PyDmBlFwVersion = DmBlFwVersion"
| "rust_tag PyFlashBundleVersion = FlashBundleVersion"
| "rust_tag PyCmFwVersion = CmFwVersion"
| "rust_tag PyL2CpuFwVersion = L2CpuFwVersion"
| "rust_tag PyFanSpeed = FanSpeed"
| "rust_tag PyTimerHeartbeat = TimerHeartbeat"
| "rust_tag PyEnabledTensixCol = EnabledTensixCol"
| "rust_tag PyEnabledEth = EnabledEth"
| "rust_tag PyEnabledGddr = EnabledGddr"
| "rust_tag PyEnabledL2Cpu = EnabledL2Cpu"
| "rust_tag PyPcieUsage = PcieUsage"
| "rust_tag PyInputCurrent = InputCurrent"
| "rust_tag PyNocTranslation = NocTranslation"
| "rust_tag PyFanRpm = FanRpm"
| "rust_tag PyGddr01Temp = Gddr01Temp"
| "rust_tag PyGddr23Temp = Gddr23Temp"
| "rust_tag PyGddr45Temp = Gddr45Temp"
| "rust_tag PyGddr67Temp = Gddr67Temp"
| "rust_tag PyGddr01CorrErrs = Gddr01CorrErrs"
| "rust_tag PyGddr23CorrErrs = Gddr23CorrErrs"
| "rust_tag PyGddr45CorrErrs = Gddr45CorrErrs"
| "rust_tag PyGddr67CorrErrs = Gddr67CorrErrs"
| "rust_tag PyGddrUncorrErrs = GddrUncorrErrs"
| "rust_tag PyMaxGddrTemp = MaxGddrTemp"
| "rust_tag PyAsicLocation = AsicLocation"
| "rust_tag PyBoardPowerLimit = BoardPowerLimit"
| "rust_tag PyInputPower = InputPower"
| "rust_tag PyTdcLimitMax = TdcLimitMax"
| "rust_tag PyThmLimitThrottle = ThmLimitThrottle"
| "rust_tag PyFwBuildDate = FwBuildDate"
| "rust_tag PyTtFlashVersion = TtFlashVersion"
| "rust_tag PyEnabledTensixRow = EnabledTensixRow"
| "rust_tag PyThermTripCount = ThermTripCount"
| "rust_tag PyAsicIdHigh = AsicIdHigh"
| "rust_tag PyAsicIdLow = AsicIdLow"
| "rust_tag PyAiClkLimitMax = AiClkLimitMax"
| "rust_tag PyTdpLimitMax = TdpLimitMax"
| "rust_tag PyAiClkArbMin = AiClkArbMin"
| "rust_tag PyAiClkArbMax = AiClkArbMax"
| "rust_tag PyEnabledMinArb = EnabledMinArb"
| "rust_tag PyEnabledMaxArb = EnabledMaxArb"

lemma py_tag_raw_rust: "py_tag_raw t = tag_raw (rust_tag t)"
  by (cases t) simp_all

lemma py_tag_raw_bound: "py_tag_raw t < 69"
  unfolding py_tag_raw_rust by (rule tag_raw_bound)

end
