(* ===== verification/PyTelem.thy ===== *)
theory PyTelem
  imports PySession RsTelem PyTag
begin

text \<open>
  \<open>src/bind/py/src/dev/telem.rs\<close>: telemetry from Python. A snapshot is a list, and looking up a tag
  outside it is an \<open>IndexError\<close>.
\<close>

datatype py_telemetry_t = PyTelemetry (py_data: "u32 list")

definition py_telem_get :: "py_telemetry_t \<Rightarrow> py_tag \<Rightarrow> u32 option" where
  "py_telem_get t tag =
     (if py_tag_raw tag < length (py_data t) then Some (py_data t ! py_tag_raw tag) else None)"

definition py_telem_getitem :: "py_telemetry_t \<Rightarrow> py_tag \<Rightarrow> u32 py_result" where
  "py_telem_getitem t tag =
     (case py_telem_get t tag of Some v \<Rightarrow> Inr v | None \<Rightarrow> Inl (IndexError ''telemetry tag out of range''))"

definition py_telem_repr :: "py_telemetry_t \<Rightarrow> string" where
  "py_telem_repr t = ''Telemetry(['' @ show_dec (length (py_data t)) @ '' entries])''"

definition py_telem_from_raw :: "u32 list \<Rightarrow> py_telemetry_t" where
  "py_telem_from_raw data = PyTelemetry data"

definition py_telem_op :: "'w os \<Rightarrow> 'w py \<Rightarrow> py_session \<Rightarrow> 'w mach \<Rightarrow> (py_telemetry_t py_result \<times> 'w mach) option" where
  "py_telem_op os py sess s =
     (case tt_telemetry os (py_as_ptr sess) (Some (replicate TT_TELEMETRY_LEN 0)) s of
        None \<Rightarrow> None
      | Some p \<Rightarrow> (case py_checked py p of (r, s1) \<Rightarrow> Some (map_sum id py_telem_from_raw r, s1)))"

definition py_telemetry ::
  "'w os \<Rightarrow> 'w py \<Rightarrow> py_session \<Rightarrow> 'w mach \<Rightarrow> (py_telemetry_t py_result \<times> py_session \<times> 'w mach) option" where
  "py_telemetry os py sess s = py_perform os py (py_telem_op os py) sess s"

section \<open>Agreement with the Rust binding\<close>

lemma agree_telemetry:
  assumes "quiet_py py tx" "same_session x y"
  shows "agree_run tx (\<lambda>t. PyTelemetry (telem_table t)) (py_telemetry os py x s) (rs_telemetry os y s)"
  unfolding py_telemetry_def rs_telemetry_def
proof (rule agree_perform [OF assms(1) _ assms(2)])
  show "agree_op tx (\<lambda>t. PyTelemetry (telem_table t)) (py_telem_op os py) (telem_op os)"
    unfolding agree_op_def
  proof (intro allI impI)
    fix x :: py_session and y :: session and s
    assume same: "same_session x y"
    show "agree_result tx (\<lambda>t. PyTelemetry (telem_table t)) (py_telem_op os py x s) (telem_op os y s)"
    proof (cases "tt_telemetry os (session_ptr y) (Some (replicate TT_TELEMETRY_LEN 0)) s")
      case None
      then show ?thesis using same by (simp add: py_telem_op_def telem_op_def same_session_def agree_result_def)
    next
      case (Some p)
      then show ?thesis
        using same agree_checked [OF assms(1) refl, where k = Telemetry and h = py_telem_from_raw
            and f = "\<lambda>t. PyTelemetry (telem_table t)" and p = p]
        by (simp add: py_telem_op_def telem_op_def same_session_def py_telem_from_raw_def)
    qed
  qed
qed

end
