(* ===== verification/Reset.thy ===== *)
theory Reset
  imports Smc "HOL-Library.Multiset"
begin

text \<open>
  \<open>src/dev/reset.c\<close>: the reset protocol over an exclusive descriptor. The two loops (waiting for
  completion, resuming an interrupted sleep) are partial functions into \<open>option\<close>.
\<close>

section \<open>Data\<close>

definition TENSTORRENT_RESET_DEVICE_ASIC_RESET :: u32 where "TENSTORRENT_RESET_DEVICE_ASIC_RESET = 4"
definition TENSTORRENT_RESET_DEVICE_POST_RESET :: u32 where "TENSTORRENT_RESET_DEVICE_POST_RESET = 6"

text \<open>\<open>sizeof(req.out)\<close> of \<open>struct tenstorrent_reset_device\<close>.\<close>

definition reset_out_size :: u32 where "reset_out_size = 8"

definition RESET_TIMEOUT_MS :: u64 where "RESET_TIMEOUT_MS = 5000"
definition RESET_POLL_US :: nat where "RESET_POLL_US = 100000"
definition POST_RESET_DELAY_MS :: int where "POST_RESET_DELAY_MS = 500"

definition sysfs_path :: "string \<Rightarrow> string" where
  "sysfs_path bdf = take 63 (''/sys/bus/pci/devices/'' @ bdf)"

definition config_path :: "string \<Rightarrow> string" where
  "config_path sysfs = take 79 (sysfs @ ''/config'')"

section \<open>Operations\<close>

text \<open>
  One look at the reset marker, bit 6 of the byte at offset 4 of the configuration space: whether it
  reads clear. A configuration file that cannot be opened or read does not.
\<close>

definition marker_clear :: "'w os \<Rightarrow> string \<Rightarrow> 'w mach \<Rightarrow> bool \<times> 'w mach" where
  "marker_clear os sysfs s =
     (case k_open os (config_path sysfs) (O_RDONLY OR O_CLOEXEC) s of (cfd, s1) \<Rightarrow>
       if cfd \<ge> 0 then
         (case k_pread os cfd 1 4 s1 of (r, s2) \<Rightarrow>
           let done = (case r of Some [cmd] \<Rightarrow> drop_bit 6 cmd AND 1 = 0 | _ \<Rightarrow> False) in
           (case k_close os cfd s2 of (_, s3) \<Rightarrow> (done, s3)))
       else (False, s1))"

text \<open>The completion loop: whether the reset completed within the timeout.\<close>

partial_function (option) reset_wait ::
  "'w os \<Rightarrow> string \<Rightarrow> timespec \<Rightarrow> bool \<Rightarrow> 'w mach \<Rightarrow> (bool \<times> 'w mach) option" where
  "reset_wait os sysfs start disappeared s =
     (case elapsed_ms os start s of (ms, s1) \<Rightarrow>
       if \<not> ms < RESET_TIMEOUT_MS then Some (False, s1)
       else (case k_access os sysfs s1 of (a, s2) \<Rightarrow>
         if a = 0 then
           if disappeared then Some (True, s2)
           else (case marker_clear os sysfs s2 of (done, s3) \<Rightarrow>
             if done then Some (True, s3)
             else reset_wait os sysfs start disappeared (snd (k_usleep os RESET_POLL_US s3)))
         else reset_wait os sysfs start True (snd (k_usleep os RESET_POLL_US s2))))"

text \<open>The loop that sleeps out the delay, resuming after a handled signal.\<close>

partial_function (option) sleep_out :: "'w os \<Rightarrow> timespec \<Rightarrow> 'w mach \<Rightarrow> 'w mach option" where
  "sleep_out os delay s =
     (case k_nanosleep os delay s of ((r, rest), s1) \<Rightarrow>
       if r < 0 \<and> errno s1 = EINTR then sleep_out os rest s1 else Some s1)"

text \<open>\<open>close(fd), tt_fail(err)\<close>: release the descriptor, then report.\<close>

definition close_fail :: "'w os \<Rightarrow> fd \<Rightarrow> errno_t \<Rightarrow> 'w mach \<Rightarrow> int \<times> 'w mach" where
  "close_fail os f err s = (case k_close os f s of (_, s1) \<Rightarrow> tt_fail err s1)"

definition close_fail_io :: "'w os \<Rightarrow> fd \<Rightarrow> errno_t \<Rightarrow> 'w mach \<Rightarrow> int \<times> 'w mach" where
  "close_fail_io os f err s = (case k_close os f s of (_, s1) \<Rightarrow> tt_fail_io err s1)"

text \<open>The last stage, from the post-reset ioctl on.\<close>

definition reset_post :: "'w os \<Rightarrow> fd \<Rightarrow> 'w mach \<Rightarrow> int \<times> 'w mach" where
  "reset_post os f s =
     (case k_reset_device os f reset_out_size TENSTORRENT_RESET_DEVICE_POST_RESET s of ((r, result), s1) \<Rightarrow>
       if r \<noteq> 0 then close_fail_io os f (errno s1) s1
       else if result \<noteq> 0 then close_fail os f EIO s1
       else (case k_close os f s1 of (c, s2) \<Rightarrow> if c \<noteq> 0 then (TT_ERR, s2) else (TT_OK, s2)))"

definition tt_reset :: "'w os \<Rightarrow> tt_device option \<Rightarrow> 'w mach \<Rightarrow> (int \<times> 'w mach) option" where
  "tt_reset os dev s =
     (case dev of None \<Rightarrow> Some (tt_fail EINVAL s) | Some d \<Rightarrow>
      (case tt_open os dev (Some \<lparr>sess_dev = d, sess_fd = - 1, sess_flags = 0\<rparr>)
              (TT_OPEN_EXCL OR TT_OPEN_NONBLOCK) s of (rc, sess, s1) \<Rightarrow>
        if rc < 0 then Some (TT_ERR, s1)
        else let f = sess_fd (the sess) in
        (case tt_dev_info os sess (Some blank_info) s1 of (ri, info, s2) \<Rightarrow>
          if ri < 0 then Some (close_fail os f (errno s2) s2)
          else let sysfs = sysfs_path (info_bdf (the info)) in
          (case k_reset_device os f reset_out_size TENSTORRENT_RESET_DEVICE_ASIC_RESET s2 of ((r, result), s3) \<Rightarrow>
            if r \<noteq> 0 then Some (close_fail_io os f (errno s3) s3)
            else if result \<noteq> 0 then Some (close_fail os f EIO s3)
            else (case k_clock os s3 of (start, s4) \<Rightarrow>
              (case reset_wait os sysfs start False s4 of
                 None \<Rightarrow> None
               | Some (complete, s5) \<Rightarrow>
                   if \<not> complete then Some (close_fail os f ETIMEDOUT s5)
                   else (case sleep_out os \<lparr>tv_sec = 0, tv_nsec = POST_RESET_DELAY_MS * 1000000\<rparr> s5 of
                       None \<Rightarrow> None
                     | Some s6 \<Rightarrow> Some (reset_post os f s6))))))))"

definition tt_reset_with ::
  "'w os \<Rightarrow> tt_session option \<Rightarrow> 'w mach \<Rightarrow> (int \<times> tt_session option \<times> 'w mach) option" where
  "tt_reset_with os sess s =
     (case sess of None \<Rightarrow> Some (out sess (tt_fail EINVAL s)) | Some ss \<Rightarrow>
      if sess_fd ss < 0 then Some (out sess (tt_fail ENOTCONN s))
      else (case tt_close os sess s of (rc, sess1, s1) \<Rightarrow>
        if rc < 0 then Some (TT_ERR, map_option (sess_fd_update (\<lambda>_. - 1)) sess1, s1)
        else map_option (out sess1) (tt_reset os (map_option sess_dev sess1) s1)))"

section \<open>What the stages leave behind\<close>

text \<open>
  \<open>neutral\<close>: every descriptor opened in between was closed again, and no ioctl was issued.
\<close>

definition neutral :: "'w mach \<Rightarrow> 'w mach \<Rightarrow> bool" where
  "neutral s s' \<longleftrightarrow> extends s s' \<and> opened (since s s') = closed (since s s') \<and> ioctls (since s s') = []"

lemma neutral_refl [simp]: "neutral s s"
  by (simp add: neutral_def)

lemma neutral_trans: "neutral s t \<Longrightarrow> neutral t u \<Longrightarrow> neutral s u"
  unfolding neutral_def using trace_trans [of s t u] by simp

lemma neutral_call:
  assumes "call f ev s = (r, s')" "\<And>r. opened [ev r] = []" "\<And>r. closed [ev r] = []" "\<And>r. ioctls [ev r] = []"
  shows "neutral s s'"
  using call_trace [OF assms(1)] assms(2-) by (simp add: neutral_def since_eq extendsI)

lemma neutral_calls:
  "k_clock os s = (t, s') \<Longrightarrow> neutral s s'"
  "k_access os p s = (a, s') \<Longrightarrow> neutral s s'"
  "k_usleep os us s = (u, s') \<Longrightarrow> neutral s s'"
  "k_nanosleep os d s = (n, s') \<Longrightarrow> neutral s s'"
  by (erule neutral_call; simp)+

lemma neutral_elapsed: "elapsed_ms os start s = (ms, s') \<Longrightarrow> neutral s s'"
  using neutral_calls(1) by (fastforce simp: elapsed_ms_def split: prod.splits)

lemma neutral_usleep: "neutral s (snd (k_usleep os us s))"
  by (rule neutral_calls(3), rule prod.collapse [symmetric])

lemma neutral_marker: "marker_clear os p s = (b, s') \<Longrightarrow> neutral s s'"
  by (auto simp: marker_clear_def neutral_def Let_def since_eq extendsI split: prod.splits if_splits
      dest!: call_trace)

lemmas reset_wait_induct = reset_wait.raw_induct [rotated 1, consumes 1, case_names step]
lemmas sleep_out_induct = sleep_out.raw_induct [rotated 1, consumes 1, case_names step]

lemma neutral_reset_wait:
  assumes "reset_wait os p start dis s = Some r"
  shows "neutral s (snd r)"
  using assms
proof (induction rule: reset_wait_induct)
  case (step loop os p start dis s r)
  obtain ms s1 where e: "elapsed_ms os start s = (ms, s1)" by (metis prod.exhaust)
  obtain a s2 where a: "k_access os p s1 = (a, s2)" by (metis prod.exhaust)
  obtain b s3 where m: "marker_clear os p s2 = (b, s3)" by (metis prod.exhaust)
  have n1: "neutral s s1" by (rule neutral_elapsed [OF e])
  have n2: "neutral s s2" by (rule neutral_trans [OF n1 neutral_calls(2) [OF a]])
  have n3: "neutral s s3" by (rule neutral_trans [OF n2 neutral_marker [OF m]])
  have again: "neutral s (snd r)"
    if "loop os p start d (snd (k_usleep os RESET_POLL_US t)) = Some r" "neutral s t" for d t
    using neutral_trans [OF neutral_trans [OF that(2) neutral_usleep] step(1) [OF that(1)]] .
  show ?case
    using step(2) e a m n1 n2 n3 again by (cases r) (auto split: if_splits)
qed

lemma neutral_sleep_out:
  assumes "sleep_out os d s = Some s'"
  shows "neutral s s'"
  using assms
proof (induction rule: sleep_out_induct)
  case (step loop os d s s')
  obtain r rest s1 where n: "k_nanosleep os d s = ((r, rest), s1)" by (metis prod.exhaust)
  note n1 = neutral_calls(4) [OF n]
  show ?case
    using step n n1 neutral_trans [OF n1] by (auto split: if_splits)
qed

section \<open>The reset protocol\<close>

text \<open>
  The ioctls of the protocol on the descriptor \<open>f\<close>, in order; a reset that fails stops after a
  prefix of them.
\<close>

definition protocol :: "fd \<Rightarrow> (fd \<times> ioctl) list" where
  "protocol f =
     [(f, IoDeviceInfo dev_info_out_size),
      (f, IoResetDevice reset_out_size TENSTORRENT_RESET_DEVICE_ASIC_RESET),
      (f, IoResetDevice reset_out_size TENSTORRENT_RESET_DEVICE_POST_RESET)]"

lemma tt_dev_info_open:
  assumes "tt_dev_info os (Some ss) (Some i) s = (rc, info, s')" "0 \<le> sess_fd ss"
  shows "ioctls (since s s') = [(sess_fd ss, IoDeviceInfo dev_info_out_size)]" "rc = TT_OK \<or> rc = TT_ERR"
    "rc = TT_OK \<Longrightarrow> info \<noteq> None" "rc = TT_ERR \<Longrightarrow> errno s' \<noteq> ENODEV"
  using assms
  by (auto simp: tt_dev_info_def since_eq split: prod.splits if_splits dest!: call_trace)

lemma close_fail_trace:
  assumes "close_fail os f err s = (rc, s') \<or> close_fail_io os f err s = (rc, s')"
  shows "extends s s'" "opened (since s s') = []" "closed (since s s') = [f]" "ioctls (since s s') = []"
    "rc = TT_ERR"
  using assms
  by (auto simp: close_fail_def close_fail_io_def since_eq extendsI split: prod.splits dest!: call_trace)

lemma reset_post_trace:
  assumes "reset_post os f s = (rc, s')"
  shows "extends s s'" "opened (since s s') = []" "closed (since s s') = [f]"
    "ioctls (since s s') = [(f, IoResetDevice reset_out_size TENSTORRENT_RESET_DEVICE_POST_RESET)]"
    "rc = TT_OK \<or> rc = TT_ERR"
  using assms
  by (auto simp: reset_post_def close_fail_def close_fail_io_def since_eq extendsI
      split: prod.splits if_splits dest!: call_trace)

text \<open>
  A run from the open on, told by its events: it opens \<open>f\<close>, issues the first \<open>n\<close> ioctls of the
  protocol on it, and closes it last; whatever else it opened is closed again before.
\<close>

definition reset_run :: "fd \<Rightarrow> nat \<Rightarrow> 'w mach \<Rightarrow> 'w mach \<Rightarrow> bool" where
  "reset_run f n s s' \<longleftrightarrow> extends s s' \<and> ioctls (since s s') = take n (protocol f) \<and>
     (\<exists>fs. opened (since s s') = f # fs \<and> closed (since s s') = fs @ [f])"

text \<open>Before the descriptor is closed.\<close>

definition reset_pending :: "fd \<Rightarrow> nat \<Rightarrow> 'w mach \<Rightarrow> 'w mach \<Rightarrow> bool" where
  "reset_pending f n s s' \<longleftrightarrow> extends s s' \<and> ioctls (since s s') = take n (protocol f) \<and>
     (\<exists>fs. opened (since s s') = f # fs \<and> closed (since s s') = fs)"

lemma pending_neutral:
  assumes "reset_pending f n s s1" "neutral s1 s2"
  shows "reset_pending f n s s2"
  using assms trace_trans [of s s1 s2] by (auto simp: reset_pending_def neutral_def)

lemma pending_close:
  assumes "reset_pending f n s s1"
    "close_fail os f err s1 = (rc, s2) \<or> close_fail_io os f err s1 = (rc, s2)"
  shows "reset_run f n s s2" "rc = TT_ERR"
proof -
  note c = close_fail_trace [OF assms(2)]
  show "rc = TT_ERR" by (rule c(5))
  show "reset_run f n s s2"
    using assms(1) c trace_trans [of s s1 s2] by (auto simp: reset_pending_def reset_run_def)
qed

lemma pending_post:
  assumes "reset_pending f 2 s s1" "reset_post os f s1 = (rc, s2)"
  shows "reset_run f 3 s s2"
proof -
  note p = reset_post_trace [OF assms(2)]
  show ?thesis
    using assms(1) p trace_trans [of s s1 s2]
    by (auto simp: reset_pending_def reset_run_def protocol_def)
qed

lemma pending_ioctl:
  assumes "reset_pending f n s s1" "call g ev s1 = (r, s2)" "n < 3"
    "\<exists>x. ev r = EvIoctl (fst (protocol f ! n)) (snd (protocol f ! n)) x"
  shows "reset_pending f (Suc n) s s2"
proof -
  have t: "trace s2 = trace s1 @ [ev r]" by (rule call_trace [OF assms(2)])
  have e: "extends s1 s2" "since s1 s2 = [ev r]" by (rule extendsI [OF t]) (rule since_eq [OF t])
  have "take (Suc n) (protocol f) = take n (protocol f) @ [protocol f ! n]"
    using assms(3) by (intro take_Suc_conv_app_nth) (simp add: protocol_def)
  then show ?thesis
    using assms(1,4) e trace_trans [of s s1 s2] by (auto simp: reset_pending_def)
qed

text \<open>What the protocol's stages lead to, from the last one back.\<close>

lemma run_after_wait:
  assumes "reset_pending f 2 s s5"
    "(if \<not> complete then Some (close_fail os f ETIMEDOUT s5)
      else (case sleep_out os delay s5 of None \<Rightarrow> None | Some s6 \<Rightarrow> Some (reset_post os f s6))) = Some (rc, s')"
  shows "extends s5 s' \<and> (\<exists>n \<in> {2, 3}. reset_run f n s s' \<and> (rc = TT_OK \<and> n = 3 \<or> rc = TT_ERR))"
proof (cases complete)
  case False
  then have "close_fail os f ETIMEDOUT s5 = (rc, s')" using assms(2) by simp
  then show ?thesis
    using pending_close [OF assms(1), of os ETIMEDOUT rc s'] close_fail_trace(1) [of os f ETIMEDOUT s5 rc s'] by blast
next
  case True
  then obtain s6 where sl: "sleep_out os delay s5 = Some s6" and pr: "reset_post os f s6 = (rc, s')"
    using assms(2) by (auto split: option.splits)
  have "extends s5 s'"
    using extends_trans [OF _ reset_post_trace(1) [OF pr]] neutral_sleep_out [OF sl] by (simp add: neutral_def)
  then show ?thesis
    using pending_post [OF pending_neutral [OF assms(1) neutral_sleep_out [OF sl]] pr] reset_post_trace(5) [OF pr] by blast
qed

lemma run_after_query:
  assumes "reset_pending f 1 s s2"
    "(case k_reset_device os f reset_out_size TENSTORRENT_RESET_DEVICE_ASIC_RESET s2 of ((r, result), s3) \<Rightarrow>
       if r \<noteq> 0 then Some (close_fail_io os f (errno s3) s3)
       else if result \<noteq> 0 then Some (close_fail os f EIO s3)
       else (case k_clock os s3 of (start, s4) \<Rightarrow>
         (case reset_wait os sysfs start False s4 of None \<Rightarrow> None
          | Some (complete, s5) \<Rightarrow>
              if \<not> complete then Some (close_fail os f ETIMEDOUT s5)
              else (case sleep_out os delay s5 of None \<Rightarrow> None | Some s6 \<Rightarrow> Some (reset_post os f s6))))) = Some (rc, s')"
  shows "extends s2 s' \<and> (\<exists>n \<in> {2, 3}. reset_run f n s s' \<and> (rc = TT_OK \<and> n = 3 \<or> rc = TT_ERR))"
proof -
  obtain r result s3 where a: "k_reset_device os f reset_out_size TENSTORRENT_RESET_DEVICE_ASIC_RESET s2 = ((r, result), s3)"
    by (metis surj_pair)
  have p2: "reset_pending f 2 s s3"
    using pending_ioctl [OF assms(1) a] by (simp add: protocol_def numeral_2_eq_2)
  have e23: "extends s2 s3" by (rule extendsI, rule call_trace [OF a])
  show ?thesis
  proof (cases "r = 0 \<and> result = 0")
    case False
    then have "close_fail os f EIO s3 = (rc, s') \<or> close_fail_io os f (errno s3) s3 = (rc, s')"
      using assms(2) a by (auto split: if_splits)
    then obtain err where c: "close_fail os f err s3 = (rc, s') \<or> close_fail_io os f err s3 = (rc, s')" by blast
    show ?thesis
      using pending_close [OF p2 c] extends_trans [OF e23 close_fail_trace(1) [OF c]] by blast
  next
    case True
    obtain start s4 where c: "k_clock os s3 = (start, s4)" by (metis prod.exhaust)
    then obtain complete s5 where w: "reset_wait os sysfs start False s4 = Some (complete, s5)"
      and l: "(if \<not> complete then Some (close_fail os f ETIMEDOUT s5)
        else (case sleep_out os delay s5 of None \<Rightarrow> None | Some s6 \<Rightarrow> Some (reset_post os f s6))) = Some (rc, s')"
      using assms(2) a True by (auto split: option.splits prod.splits)
    have n: "neutral s3 s5" using neutral_trans [OF neutral_calls(1) [OF c]] neutral_reset_wait [OF w] by simp
    have "extends s2 s5" using extends_trans [OF e23] n by (simp add: neutral_def)
    then show ?thesis
      using run_after_wait [OF pending_neutral [OF p2 n] l] extends_trans [of s2 s5 s'] by blast
  qed
qed

lemma tt_reset_run:
  assumes "tt_reset os (Some d) s = Some (rc, s')"
  shows "(rc = TT_ERR \<and> extends s s' \<and> opened (since s s') = [] \<and> closed (since s s') = [] \<and>
      ioctls (since s s') = []) \<or>
    (\<exists>f n. 0 \<le> f \<and> n \<in> {1, 2, 3} \<and> reset_run f n s s' \<and> (rc = TT_OK \<and> n = 3 \<or> rc = TT_ERR) \<and>
       (\<exists>es. since s s' = EvOpen (dev_path d) (open_flags (TT_OPEN_EXCL OR TT_OPEN_NONBLOCK)) f # es))"
proof -
  let ?ss = "\<lparr>sess_dev = d, sess_fd = - 1, sess_flags = 0\<rparr>"
  obtain ro sess s1 where o: "tt_open os (Some d) (Some ?ss) (TT_OPEN_EXCL OR TT_OPEN_NONBLOCK) s = (ro, sess, s1)"
    by (metis prod_cases3)
  show ?thesis
  proof (cases "ro = TT_OK")
    case False
    then have "ro = TT_ERR" using tt_open_rc [OF o] by blast
    then show ?thesis using assms o tt_open_trace [OF o] by (simp add: tt_reset_def)
  next
    case True
    obtain f where f: "0 \<le> f" and ss: "sess = Some \<lparr>sess_dev = d, sess_fd = f, sess_flags = TT_OPEN_EXCL OR TT_OPEN_NONBLOCK\<rparr>"
      and tr1: "trace s1 = trace s @ [EvOpen (dev_path d) (open_flags (TT_OPEN_EXCL OR TT_OPEN_NONBLOCK)) f]"
      using tt_open_ok [OF o [unfolded True]] by auto
    obtain ri info s2 where q: "tt_dev_info os sess (Some blank_info) s1 = (ri, info, s2)"
      by (metis prod_cases3)
    note q' = tt_dev_info_open [OF q [unfolded ss]] and qt = tt_dev_info_trace [OF q]
    have p1: "reset_pending f 1 s s2"
      using tr1 q' qt f trace_trans [of s s1 s2]
      by (auto simp: reset_pending_def protocol_def since_eq extendsI)
    have "extends s2 s' \<and> (\<exists>n \<in> {1, 2, 3}. reset_run f n s s' \<and> (rc = TT_OK \<and> n = 3 \<or> rc = TT_ERR))"
    proof (cases "ri = TT_OK")
      case False
      then have c: "close_fail os f (errno s2) s2 = (rc, s') \<or> close_fail_io os f (errno s2) s2 = (rc, s')"
        using assms o True ss q q'(2) f by (simp add: tt_reset_def)
      show ?thesis using pending_close [OF p1 c] close_fail_trace(1) [OF c] by blast
    next
      case riz: True
      have fd: "sess_fd (the sess) = f" by (simp add: ss)
      note rest = assms [unfolded tt_reset_def option.case o prod.case Let_def q fd, simplified True riz less_irrefl if_False]
      show ?thesis using run_after_query [OF p1 rest] by blast
    qed
    then obtain n where n: "n \<in> {1, 2, 3}" "reset_run f n s s'" "rc = TT_OK \<and> n = 3 \<or> rc = TT_ERR" and e: "extends s1 s'"
      using extends_trans [of s1 s2 s'] qt by blast
    have "\<exists>es. since s s' = EvOpen (dev_path d) (open_flags (TT_OPEN_EXCL OR TT_OPEN_NONBLOCK)) f # es"
      using since_trans [OF _ e, of s] tr1 by (auto simp: since_eq extendsI)
    then show ?thesis using f n by blast
  qed
qed

lemma tt_reset_extends:
  assumes "tt_reset os (Some d) s = Some (rc, s')"
  shows "extends s s'"
  using tt_reset_run [OF assms] by (auto simp: reset_run_def)

section \<open>Both loops end\<close>

text \<open>
  Beyond \<^const>\<open>keeps_time\<close>: the calls of the completion check do not turn the clock back, and an
  interrupted sleep reports a remainder shorter than what was asked.
\<close>

definition reset_time :: "'w os \<Rightarrow> ('w \<Rightarrow> nat) \<Rightarrow> bool" where
  "reset_time os now \<longleftrightarrow> keeps_time os now \<and>
     (\<forall>p. ticks now (sys_access os p)) \<and> (\<forall>p fl. ticks now (sys_open os p fl)) \<and>
     (\<forall>f n off. ticks now (sys_pread os f n off)) \<and> (\<forall>f. ticks now (sys_close os f)) \<and>
     (\<forall>d e w. case sys_nanosleep os d e w of ((r, rest), e', w') \<Rightarrow>
        r < 0 \<and> e' = EINTR \<longrightarrow> 0 \<le> ns_of rest \<and> ns_of rest < ns_of d)"

lemma marker_ticks:
  assumes "reset_time os now" "marker_clear os p s = (b, s')"
  shows "now (world s) \<le> now (world s') \<and> now (world s') \<le> now (world s) + 3 * 2 ^ 60"
proof -
  obtain cfd s1 where o: "k_open os (config_path p) (O_RDONLY OR O_CLOEXEC) s = (cfd, s1)"
    by (metis prod.exhaust)
  obtain r s2 where rd: "k_pread os cfd 1 4 s1 = (r, s2)" by (metis prod.exhaust)
  obtain c s3 where c: "k_close os cfd s2 = (c, s3)" by (metis prod.exhaust)
  have law: "ticks now (sys_open os (config_path p) (O_RDONLY OR O_CLOEXEC))"
    "ticks now (sys_pread os cfd 1 4)" "ticks now (sys_close os cfd)"
    using assms(1) by (simp_all add: reset_time_def)
  show ?thesis
    using assms(2) o rd c call_ticks [OF law(1) o] call_ticks [OF law(2) rd] call_ticks [OF law(3) c]
    by (auto simp: marker_clear_def Let_def split: if_splits)
qed

lemma reset_wait_returns:
  assumes "reset_time os now" "ns_of start \<le> int (now (world s))"
    "int (now (world s)) \<le> ns_of start + 1000000 * 5000 + 2 ^ 63"
  shows "\<exists>b s'. reset_wait os p start dis s = Some (b, s')"
  using assms(2,3)
proof (induction "nat (ns_of start + 1000000 * 5000 - int (now (world s)))" arbitrary: dis s rule: less_induct)
  case less
  have kt: "keeps_time os now" using assms(1) by (simp add: reset_time_def)
  obtain ms s1 where e: "elapsed_ms os start s = (ms, s1)" by (metis prod.exhaust)
  obtain a s2 where a: "k_access os p s1 = (a, s2)" by (metis prod.exhaust)
  obtain b s3 where m: "marker_clear os p s2 = (b, s3)" by (metis prod.exhaust)
  show ?case
  proof (cases "ms < RESET_TIMEOUT_MS")
    case False
    then show ?thesis using e by (subst reset_wait.simps) (auto intro: exI [of _ False])
  next
    case True
    have lim: "int (now (world s)) < ns_of start + 2 ^ 64" using less.prems by simp
    have w: "int (now (world s)) < ns_of start + 1000000 * 5000" "now (world s) \<le> now (world s1)"
      "int (now (world s1)) \<le> ns_of start + 1000000 * 5000 + 2 ^ 60"
      using within_budget [OF kt e True _ less.prems(1) lim] by (simp_all add: RESET_TIMEOUT_MS_def)
    have ta: "now (world s1) \<le> now (world s2)" "now (world s2) \<le> now (world s1) + 2 ^ 60"
      using call_ticks [OF _ a] assms(1) by (simp_all add: reset_time_def)
    note tm = marker_ticks [OF assms(1) m]
    have again: "\<exists>b s'. reset_wait os p start d (snd (k_usleep os RESET_POLL_US t)) = Some (b, s')"
      if "now (world s1) \<le> now (world t)" "now (world t) \<le> now (world s1) + 2 ^ 62" for d t
    proof (rule less.hyps)
      have u: "now (world t) + 100000000 \<le> now (world (snd (k_usleep os RESET_POLL_US t)))"
        "now (world (snd (k_usleep os RESET_POLL_US t))) \<le> now (world t) + 2 ^ 60"
        using usleep_ticks [OF kt, of RESET_POLL_US t] by (simp_all add: RESET_POLL_US_def)
      show "nat (ns_of start + 1000000 * 5000 - int (now (world (snd (k_usleep os RESET_POLL_US t)))))
          < nat (ns_of start + 1000000 * 5000 - int (now (world s)))"
        using u(1) w that(1) by simp
      show "ns_of start \<le> int (now (world (snd (k_usleep os RESET_POLL_US t))))"
        using u(1) w that(1) less.prems(1) by simp
      have "int (now (world (snd (k_usleep os RESET_POLL_US t)))) \<le> int (now (world s1)) + 2 ^ 62 + 2 ^ 60"
        using u(2) that(2) by simp
      then show "int (now (world (snd (k_usleep os RESET_POLL_US t)))) \<le> ns_of start + 1000000 * 5000 + 2 ^ 63"
        using w(3) by simp
    qed
    have "\<exists>b s'. reset_wait os p start d (snd (k_usleep os RESET_POLL_US s2)) = Some (b, s')" for d
      using again [of s2] ta by simp
    moreover have "\<exists>b s'. reset_wait os p start d (snd (k_usleep os RESET_POLL_US s3)) = Some (b, s')" for d
      using again [of s3] ta tm by simp
    moreover have "reset_wait os p start dis s =
        (if a = 0 then if dis then Some (True, s2) else if b then Some (True, s3)
           else reset_wait os p start dis (snd (k_usleep os RESET_POLL_US s3))
         else reset_wait os p start True (snd (k_usleep os RESET_POLL_US s2)))"
      using e a m True by (subst reset_wait.simps) simp
    ultimately show ?thesis by auto
  qed
qed

lemma sleep_out_returns:
  assumes "reset_time os now"
  shows "\<exists>s'. sleep_out os d s = Some s'"
proof (induction "nat (ns_of d)" arbitrary: d s rule: less_induct)
  case less
  obtain r rest s1 where n: "k_nanosleep os d s = ((r, rest), s1)" by (metis surj_pair)
  have "r < 0 \<and> errno s1 = EINTR \<longrightarrow> 0 \<le> ns_of rest \<and> ns_of rest < ns_of d"
    using assms n unfolding reset_time_def
    by (fastforce simp: call_def split: prod.splits)
  then show ?case
    using n less.hyps [of rest s1] by (subst sleep_out.simps) auto
qed

section \<open>What reset promises\<close>


lemma stub_reset_time: "reset_time stub_os fst"
  using stub_keeps_time
  by (auto simp: reset_time_def ticks_def stub_os_def ret0_def)

lemma tt_reset_total:
  assumes "reset_time os now"
  shows "\<exists>rc s'. tt_reset os dev s = Some (rc, s')"
proof (cases dev)
  case None
  then show ?thesis by (simp add: tt_reset_def)
next
  case (Some d)
  have wait: "\<exists>b s'. reset_wait os p start False s4 = Some (b, s')" if "k_clock os s3 = (start, s4)" for p start s3 s4
  proof (rule reset_wait_returns [OF assms])
    have "keeps_time os now" using assms by (simp add: reset_time_def)
    note r = clock_reading [OF this that]
    show "ns_of start \<le> int (now (world s4))" by (rule r)
    have "int (now (world s4)) \<le> ns_of start + 2 ^ 60" using r by simp
    then show "int (now (world s4)) \<le> ns_of start + 1000000 * 5000 + 2 ^ 63" by simp
  qed
  have rest: "\<exists>rc s'. (case reset_wait os p start False s4 of
                 None \<Rightarrow> None
               | Some (complete, s5) \<Rightarrow>
                   if \<not> complete then Some (close_fail os f ETIMEDOUT s5)
                   else (case sleep_out os dl s5 of None \<Rightarrow> None | Some s6 \<Rightarrow> Some (reset_post os f s6)))
      = Some (rc, s')"
    if ex: "\<exists>b s'. reset_wait os p start False s4 = Some (b, s')" for p start s4 f dl
  proof -
    obtain b s5 where w: "reset_wait os p start False s4 = Some (b, s5)" using ex by blast
    obtain s6 where sl: "sleep_out os dl s5 = Some s6" using sleep_out_returns [OF assms] by blast
    have "\<exists>rc s'. r = (rc, s')" for r :: "int \<times> 'a mach" by (rule surj_pair)
    then show ?thesis using w sl by simp
  qed
  obtain ro sess s1 where o: "tt_open os (Some d) (Some \<lparr>sess_dev = d, sess_fd = - 1, sess_flags = 0\<rparr>)
      (TT_OPEN_EXCL OR TT_OPEN_NONBLOCK) s = (ro, sess, s1)"
    by (metis prod_cases3)
  let ?f = "sess_fd (the sess)"
  obtain ri info s2 where q: "tt_dev_info os sess (Some blank_info) s1 = (ri, info, s2)"
    by (metis prod_cases3)
  obtain r result s3 where a: "k_reset_device os ?f reset_out_size TENSTORRENT_RESET_DEVICE_ASIC_RESET s2
      = ((r, result), s3)"
    by (metis surj_pair)
  obtain start s4 where c: "k_clock os s3 = (start, s4)" by (metis prod.exhaust)
  let ?rest = "case reset_wait os (sysfs_path (info_bdf (the info))) start False s4 of
                 None \<Rightarrow> None
               | Some (complete, s5) \<Rightarrow>
                   if \<not> complete then Some (close_fail os ?f ETIMEDOUT s5)
                   else (case sleep_out os \<lparr>tv_sec = 0, tv_nsec = POST_RESET_DELAY_MS * 1000000\<rparr> s5 of
                     None \<Rightarrow> None | Some s6 \<Rightarrow> Some (reset_post os ?f s6))"
  have "tt_reset os dev s =
      (if ro < 0 then Some (TT_ERR, s1)
       else if ri < 0 then Some (close_fail os ?f (errno s2) s2)
       else if r \<noteq> 0 then Some (close_fail_io os ?f (errno s3) s3)
       else if result \<noteq> 0 then Some (close_fail os ?f EIO s3)
       else ?rest)"
    using o q a c Some by (simp add: tt_reset_def Let_def)
  moreover have "\<exists>rc s'. ?rest = Some (rc, s')" by (rule rest [OF wait [OF c]])
  moreover have "\<exists>rc s'. Some p = Some (rc, s')" for p :: "int \<times> 'a mach"
    by (metis surj_pair)
  ultimately show ?thesis by presburger
qed

text \<open>
  C22: a reset always returns: the completion loop gives up after its five seconds of polling and the
  interrupted sleep is resumed finitely often.
\<close>

theorem tt_reset_returns:
  assumes "reset_time os now"
  shows "\<exists>rc s'. tt_reset os dev s = Some (rc, s')"
  using assms by (rule tt_reset_total)

text \<open>The witness's device keeps its reset marker set for ever.\<close>

theorem tt_reset_returns_witness:
  "tt_reset (stub_os\<lparr>sys_pread := (\<lambda>_ _ _. ret0 (Some [0x40]))\<rparr>) (Some \<lparr>dev_id = 0\<rparr>) stub_mach \<noteq> None"
proof -
  have "reset_time (stub_os\<lparr>sys_pread := (\<lambda>_ _ _. ret0 (Some [0x40]))\<rparr>) fst"
    using stub_reset_time by (simp add: reset_time_def keeps_time_def ticks_def ret0_def)
  from tt_reset_returns [OF this, of "Some \<lparr>dev_id = 0\<rparr>" stub_mach] show ?thesis by auto
qed


lemma tt_reset_with_run:
  assumes "tt_reset_with os (Some ss) s = Some (rc, sess', s')" "0 \<le> sess_fd ss"
  shows "sess' = Some (ss\<lparr>sess_fd := - 1\<rparr>) \<and>
    (\<exists>fs. closed (since s s') = sess_fd ss # fs \<and> mset fs = mset (opened (since s s')) \<and>
       (\<exists>r es. since s s' = EvClose (sess_fd ss) r # es \<and> (r \<noteq> 0 \<longrightarrow> rc = TT_ERR \<and> es = [])))"
proof -
  obtain cr sess1 s1 where c: "tt_close os (Some ss) s = (cr, sess1, s1)" by (metis prod_cases3)
  from c show ?thesis
  proof (cases rule: tt_close_cases)
    case noop
    then show ?thesis using assms(2) by simp
  next
    case ok
    then obtain r where r: "tt_reset os (Some (sess_dev ss)) s1 = Some (rc, s')"
      and s: "sess' = Some (ss\<lparr>sess_fd := - 1\<rparr>)"
      using assms c by (auto simp: tt_reset_with_def out_def split: option.splits prod.splits)
    have e: "extends s s1" "since s s1 = [EvClose (sess_fd ss) 0]"
      using ok(4) by (auto simp: since_eq extendsI)
    have run: "extends s1 s'" "mset (closed (since s1 s')) = mset (opened (since s1 s'))"
      using tt_reset_run [OF r] tt_reset_extends [OF r] by (auto simp: reset_run_def)
    show ?thesis
      using s e run since_trans [OF e(1) run(1)] by simp
  next
    case (err r)
    then show ?thesis
      using assms c by (auto simp: tt_reset_with_def since_eq)
  qed
qed

text \<open>
  Resetting through a session consumes it on every path: whatever happens after the session was
  found open, it ends closed (descriptor \<open>-1\<close>), its descriptor was closed exactly once and
  before the reset opened its own, and nothing is left open.
\<close>

theorem tt_reset_with_consumes:
  assumes "tt_reset_with os (Some ss) s = Some (rc, sess', s')" "0 \<le> sess_fd ss"
  shows "sess' = Some (ss\<lparr>sess_fd := - 1\<rparr>) \<and>
    (\<exists>fs. closed (since s s') = sess_fd ss # fs \<and> mset fs = mset (opened (since s s')) \<and>
       (\<exists>r es. since s s' = EvClose (sess_fd ss) r # es \<and> (r \<noteq> 0 \<longrightarrow> rc = TT_ERR \<and> es = [])))"
  by (rule tt_reset_with_run [OF assms])

theorem tt_reset_with_consumes_witness:
  "\<exists>rc s'. tt_reset_with stub_os (Some \<lparr>sess_dev = \<lparr>dev_id = 0\<rparr>, sess_fd = 5, sess_flags = 1\<rparr>) stub_mach
     = Some (rc, Some \<lparr>sess_dev = \<lparr>dev_id = 0\<rparr>, sess_fd = - 1, sess_flags = 1\<rparr>, s')"
proof -
  let ?ss = "\<lparr>sess_dev = \<lparr>dev_id = 0\<rparr>, sess_fd = 5, sess_flags = 1\<rparr>"
  obtain rc sess' s' where r: "tt_reset_with stub_os (Some ?ss) stub_mach = Some (rc, sess', s')"
  proof -
    obtain cr sess1 s1 where c: "tt_close stub_os (Some ?ss) stub_mach = (cr, sess1, s1)"
      by (metis prod_cases3)
    obtain a b where "tt_reset stub_os (map_option sess_dev sess1) s1 = Some (a, b)"
      using tt_reset_total [OF stub_reset_time] by blast
    with c that show thesis by (cases "cr < 0") (auto simp: tt_reset_with_def out_def)
  qed
  from tt_reset_with_consumes [OF r] r show ?thesis by auto
qed

end
