(* ===== verification/RsReset.thy ===== *)
theory RsReset
  imports RsSession Reset
begin

text \<open>
  \<open>src/bind/rs/src/dev/reset.rs\<close>: resetting a device, and resetting through a session, which consumes it.
\<close>

definition device_reset :: "'w os \<Rightarrow> device \<Rightarrow> 'w mach \<Rightarrow> (unit result \<times> 'w mach) option" where
  "device_reset os d s =
     (case tt_reset os (device_as_ptr d) s of None \<Rightarrow> None
      | Some (rc, s1) \<Rightarrow> Some (check rc s1, s1))"

text \<open>The session is wrapped in \<open>ManuallyDrop\<close>: no drop runs after the call.\<close>

definition session_reset :: "'w os \<Rightarrow> session \<Rightarrow> 'w mach \<Rightarrow> (device result \<times> 'w mach) option" where
  "session_reset os sess s =
     (case tt_reset_with os (session_ptr sess) s of None \<Rightarrow> None
      | Some (rc, raw, s1) \<Rightarrow>
          let this = sess\<lparr>ss_raw := the raw\<rparr>
          in Some (map_sum id (\<lambda>_. session_dev this) (check rc s1), s1))"

text \<open>
  C27: resetting through a session returns, closes the session's descriptor exactly once, as its first
  act, and leaves nothing else open on any path, so leaving the drop out neither leaks the descriptor nor
  closes it twice; on success it hands back the session's own device, and a session that is already
  closed is refused with \<open>ENOTCONN\<close> before anything happens.
\<close>

theorem session_reset_consumes:
  assumes "reset_time os now"
  shows "\<exists>r s'. session_reset os sess s = Some (r, s') \<and>
    (\<forall>d. r = Inr d \<longrightarrow> d = session_dev sess) \<and>
    (if sess_fd (ss_raw sess) < 0 then r = Inl (Os ENOTCONN) \<and> since s s' = []
     else \<exists>fs. closed (since s s') = sess_fd (ss_raw sess) # fs \<and> mset fs = mset (opened (since s s')) \<and>
       (\<exists>c es. since s s' = EvClose (sess_fd (ss_raw sess)) c # es))"
proof (cases "sess_fd (ss_raw sess) < 0")
  case True
  then show ?thesis by (simp add: session_reset_def tt_reset_with_def)
next
  case False
  then have fd: "0 \<le> sess_fd (ss_raw sess)" by simp
  obtain cr sess1 s1 where c: "tt_close os (Some (ss_raw sess)) s = (cr, sess1, s1)" by (metis prod_cases3)
  obtain a b where "tt_reset os (map_option sess_dev sess1) s1 = Some (a, b)"
    using tt_reset_total [OF assms] by blast
  then obtain rc raw s' where r: "tt_reset_with os (Some (ss_raw sess)) s = Some (rc, raw, s')"
    using c fd that by (cases "cr < 0") (auto simp: tt_reset_with_def out_def)
  from tt_reset_with_run [OF r fd]
  obtain fs x es where t: "raw = Some (ss_raw sess\<lparr>sess_fd := - 1\<rparr>)"
    "closed (since s s') = sess_fd (ss_raw sess) # fs" "mset fs = mset (opened (since s s'))"
    "since s s' = EvClose (sess_fd (ss_raw sess)) x # es"
    by blast
  have run: "session_reset os sess s = Some (map_sum id (\<lambda>_. session_dev sess) (check rc s'), s')"
    using r t(1) by (simp add: session_reset_def session_dev_def)
  have dev: "d = session_dev sess" if "map_sum id (\<lambda>_. session_dev sess) (check rc s') = Inr d" for d
    using that by (cases "check rc s'") simp_all
  show ?thesis
    using t dev fd by (intro exI [of _ "map_sum id (\<lambda>_. session_dev sess) (check rc s')"] exI [of _ s'] conjI run) auto
qed

theorem session_reset_consumes_witness:
  "session_reset stub_os \<lparr>ss_raw = \<lparr>sess_dev = \<lparr>dev_id = 2\<rparr>, sess_fd = 5, sess_flags = 0\<rparr>,
      ss_opts = options_new\<rparr> stub_mach \<noteq> None"
  using session_reset_consumes [OF stub_reset_time] by (metis option.distinct(1))

end
