(* ===== verification/PyReset.thy ===== *)
theory PyReset
  imports PySession RsReset
begin

text \<open>\<open>src/bind/py/src/dev/reset.rs\<close>: resetting a device, and resetting through a session, from Python.\<close>

definition py_session_reset ::
  "'w os \<Rightarrow> 'w py \<Rightarrow> py_session \<Rightarrow> 'w mach \<Rightarrow> (py_device py_result \<times> py_session \<times> 'w mach) option" where
  "py_session_reset os py self s =
     (let sess = py_raw self in
      case detach py (\<lambda>s.
          case tt_reset_with os (Some sess) s of None \<Rightarrow> None
          | Some (rc, sess1, s1) \<Rightarrow> Some ((rc, errno s1, sess1), s1)) s of
        None \<Rightarrow> None
      | Some ((rc, e, sess1), s1) \<Rightarrow>
          let self1 = py_set_raw (the sess1) self in
          (case verdict py rc e (py_dev self1) s1 of (r, s2) \<Rightarrow> Some (r, self1, s2)))"

definition py_device_reset :: "'w os \<Rightarrow> 'w py \<Rightarrow> py_device \<Rightarrow> 'w mach \<Rightarrow> (unit py_result \<times> 'w mach) option" where
  "py_device_reset os py dev s =
     (case detach py (\<lambda>s.
          case tt_reset os (Some (py_device_raw dev)) s of None \<Rightarrow> None
          | Some (rc, s1) \<Rightarrow> Some ((rc, errno s1), s1)) s of
        None \<Rightarrow> None
      | Some ((rc, e), s1) \<Rightarrow> Some (verdict py rc e () s1))"

lemma tt_reset_with_total:
  assumes "reset_time os now" "0 \<le> sess_fd ss"
  shows "\<exists>rc raw t. tt_reset_with os (Some ss) s = Some (rc, raw, t)"
proof -
  obtain cr sess1 s1 where c: "tt_close os (Some ss) s = (cr, sess1, s1)" by (metis prod_cases3)
  obtain a b where "tt_reset os (map_option sess_dev sess1) s1 = Some (a, b)"
    using tt_reset_total [OF assms(1)] by blast
  then show ?thesis using c assms(2) by (cases "cr < 0") (auto simp: tt_reset_with_def out_def)
qed

lemma py_session_reset_run:
  assumes "reset_time os now" "\<not> is_closed x"
  obtains r s' fs c es where "py_session_reset os py x s = Some (r, x\<lparr>py_raw := py_raw x\<lparr>sess_fd := - 1\<rparr>\<rparr>, s')"
    "\<forall>d. r = Inr d \<longrightarrow> d = py_dev x" "closed (since s s') = sess_fd (py_raw x) # fs"
    "mset fs = mset (opened (since s s'))" "since s s' = EvClose (sess_fd (py_raw x)) c # es"
proof -
  let ?f = "sess_fd (py_raw x)"
  have fd: "0 \<le> ?f" using assms(2) by (simp add: is_closed_def)
  let ?k = "\<lambda>s. case tt_reset_with os (Some (py_raw x)) s of None \<Rightarrow> None
          | Some (rc, sess1, s1) \<Rightarrow> Some ((rc, errno s1, sess1), s1)"
  have "?k t \<noteq> None" for t using tt_reset_with_total [OF assms(1) fd, of t] by auto
  then have "detach py ?k s \<noteq> None" by (rule detach_total)
  then obtain y where y: "detach py ?k s = Some y" by blast
  obtain rc e raw t where "y = ((rc, e, raw), t)" by (metis surj_pair)
  with y have d: "detach py ?k s = Some ((rc, e, raw), t)" by simp
  then obtain s1 s2 where k: "?k s1 = Some ((rc, e, raw), s2)" and tr: "trace s1 = trace s" "trace t = trace s2"
    by (rule detach_run)
  then have "tt_reset_with os (Some (py_raw x)) s1 = Some (rc, raw, s2)"
    by (auto split: option.splits)
  from tt_reset_with_run [OF this fd]
  obtain fs c es where run: "raw = Some (py_raw x\<lparr>sess_fd := - 1\<rparr>)"
    "closed (since s1 s2) = ?f # fs" "mset fs = mset (opened (since s1 s2))"
    "since s1 s2 = EvClose ?f c # es"
    by blast
  let ?x' = "x\<lparr>py_raw := py_raw x\<lparr>sess_fd := - 1\<rparr>\<rparr>"
  obtain r s' where v: "verdict py rc e (py_dev ?x') t = (r, s')" by (metis prod.exhaust)
  have p: "py_session_reset os py x s = Some (r, ?x', s')"
    using d v run(1) by (simp add: py_session_reset_def Let_def)
  have "trace s' = trace t" "\<forall>d. r = Inr d \<longrightarrow> d = py_dev x"
    using v by (auto simp: py_dev_def elim: verdict_cases)
  then show thesis using that [OF p] run(2-4) tr by (simp add: since_def)
qed



end
