(* ===== verification/PyVersion.thy ===== *)
theory PyVersion
  imports PySession RsVersion
begin

text \<open>
  \<open>src/bind/py/src/{ver,fw,kmd}.rs\<close>: versions from Python. The binding formats a version and hands the text
  to \<open>semver.Version.parse\<close> of the Python package, a parameter that yields its object or an exception.
\<close>

definition semver_text :: "tt_version \<Rightarrow> string" where
  "semver_text vers =
     (let pre = cstr (version_buf (ver_pre vers));
          build = cstr (version_buf (ver_build vers));
          s0 = show_dec (unat (ver_major vers)) @ ''.'' @ show_dec (unat (ver_minor vers)) @ ''.'' @
            show_dec (unat (ver_patch vers));
          s1 = (if pre \<noteq> [] then s0 @ ''-'' @ pre else s0)
      in if build \<noteq> [] then s1 @ ''+'' @ build else s1)"

definition raw_to_semver ::
  "(string \<Rightarrow> ('o py_result, 'w) sysc) \<Rightarrow> tt_version \<Rightarrow> 'w mach \<Rightarrow> 'o py_result \<times> 'w mach" where
  "raw_to_semver parse vers s = effect (parse (semver_text vers)) s"

definition py_fw_op :: "'w os \<Rightarrow> 'w py \<Rightarrow> py_session \<Rightarrow> 'w mach \<Rightarrow> (tt_version py_result \<times> 'w mach) option" where
  "py_fw_op os py sess s = Some (py_checked py (tt_fw_version os (py_as_ptr sess) (Some uninit_version) s))"

definition py_fw_version ::
  "'w os \<Rightarrow> 'w py \<Rightarrow> (string \<Rightarrow> ('o py_result, 'w) sysc) \<Rightarrow> py_session \<Rightarrow> 'w mach \<Rightarrow>
     ('o py_result \<times> py_session \<times> 'w mach) option" where
  "py_fw_version os py parse sess s =
     (case py_perform os py (py_fw_op os py) sess s of
        None \<Rightarrow> None
      | Some (Inl e, sess1, s1) \<Rightarrow> Some (Inl e, sess1, s1)
      | Some (Inr vers, sess1, s1) \<Rightarrow> (case raw_to_semver parse vers s1 of (r, s2) \<Rightarrow> Some (r, sess1, s2)))"

definition py_kmd_version ::
  "'w os \<Rightarrow> 'w py \<Rightarrow> (string \<Rightarrow> ('o py_result, 'w) sysc) \<Rightarrow> tt_device \<Rightarrow> 'w mach \<Rightarrow> 'o py_result \<times> 'w mach" where
  "py_kmd_version os py parse junk s =
     (case py_checked py (tt_kmd_version os junk (Some uninit_version) s) of
        (Inl e, s1) \<Rightarrow> (Inl e, s1)
      | (Inr vers, s1) \<Rightarrow> raw_to_semver parse vers s1)"

section \<open>What the conversion promises\<close>

text \<open>
  The text a Python caller's version is parsed from is the firmware version the driver prints, with a
  release candidate \<open>N\<close> as the pre-release \<open>rc.N\<close> and no build metadata, and so names the same version as
  the Rust binding's.
\<close>

theorem py_version_text:
  assumes "a < 2 ^ 64" "b < 2 ^ 64" "c < 2 ^ 64" "rc < 2 ^ 64" "rest = [] \<or> rest = [CHR 0x0A]"
  shows "map_option semver_text (parse_fw (fw_text a b c rc rest)) =
    Some (show_dec a @ ''.'' @ show_dec b @ ''.'' @ show_dec c @ (if rc = 0 then [] else ''-rc.'' @ show_dec rc))"
proof -
  have nil: "cstr (version_buf []) = []" by (simp add: cstr_buf)
  show ?thesis
    unfolding parse_fw_of_text [OF assms]
    using assms(1-3) rc_text [OF assms(4)] nil
    by (simp add: semver_text_def unsigned_of_nat take_bit_nat_eq_self)
qed

theorem py_version_text_witness:
  "map_option semver_text (parse_fw ''19.4.2.7'') = Some ''19.4.2-rc.7''"
proof -
  have "show_dec 19 = ''19''" "show_dec 4 = ''4''" "show_dec 2 = ''2''" "show_dec 7 = ''7''"
    by code_simp+
  then show ?thesis
    using py_version_text [of 19 4 2 7 "[]"] by (simp add: fw_text_def)
qed

end
