(* ===== verification/PyLife.thy ===== *)
theory PyLife
  imports RsLife PyTlb PySmc PyPower PyTelem PyReset PyVersion
begin

text \<open>
  The whole life of a Python session, over every operation the binding offers on it, under any interpreter:
  unlike a Rust session it can be closed or reset and then reopened, and its destructor runs last. Its books
  are those of the Rust session with the same handle.
\<close>

section \<open>Books\<close>

definition py_fds :: "py_session \<Rightarrow> 'w mach \<Rightarrow> py_session \<Rightarrow> 'w mach \<Rightarrow> bool" where
  "py_fds x s x' s' \<longleftrightarrow> fd_books (rust x) s (rust x') s'"

interpretation py_fds: account py_fds
  by unfold_locales (auto simp: py_fds_def intro: fds.books_trans)

lemmas py_fds_refl [simp] = py_fds.books_refl
lemmas py_fds_trans = py_fds.books_trans

text \<open>The interpreter leaves no event, so it does not matter where it comes in.\<close>

lemma py_fds_trace:
  "py_fds x s y t \<Longrightarrow> trace s = trace s0 \<Longrightarrow> trace t = trace t0 \<Longrightarrow> py_fds x s0 y t0"
  by (simp add: py_fds_def fd_books_def extends_def since_def)

lemma py_fds_quiet: "trace s' = trace s \<Longrightarrow> py_fds x s x s'"
  by (rule py_fds_trace [OF py_fds_refl]) simp_all

definition py_steady :: "(py_session \<Rightarrow> 'w mach \<Rightarrow> ('a py_result \<times> 'w mach) option) \<Rightarrow> bool" where
  "py_steady op \<longleftrightarrow> (\<forall>x s r s'. op x s = Some (r, s') \<longrightarrow> py_fds x s x s')"

lemma py_steady_checked:
  assumes "\<And>ss s rc x s'. f ss s = (rc, x, s') \<Longrightarrow> extends s s' \<and> opened (since s s') = Err.closed (since s s')"
  shows "py_steady (\<lambda>x s. case py_checked py (f (py_raw x) s) of (r, s1) \<Rightarrow> Some (map_sum id g r, s1))"
  unfolding py_steady_def
proof (intro allI impI)
  fix x :: py_session and s r s'
  assume run: "(case py_checked py (f (py_raw x) s) of (r, s1) \<Rightarrow> Some (map_sum id g r, s1)) = Some (r, s')"
  obtain rc y s1 where f: "f (py_raw x) s = (rc, y, s1)" by (metis prod_cases3)
  obtain r2 s2 where c: "py_checked py (rc, y, s1) = (r2, s2)" by (metis prod.exhaust)
  have "s' = s2" using run f c by simp
  moreover have "trace s2 = trace s1" using c by (cases rule: py_checked_cases) auto
  moreover have "py_fds x s x s1" using assms [OF f] by (simp add: py_fds_def fd_books_def)
  ultimately show "py_fds x s x s'" by (intro py_fds_trace [of x s x s1 s s']) simp_all
qed

lemma py_reopen_fds:
  assumes "closes os" "py_reopen os py x s = (r, x', s')"
  shows "py_fds x s x' s'"
proof -
  let ?k = "\<lambda>s. case tt_reopen os (py_as_ptr x) s of (rc, raw, s1) \<Rightarrow> ((rc, errno s1, raw), s1)"
  obtain y t where y: "detach1 py ?k s = (y, t)" by (cases "detach1 py ?k s")
  obtain rc e raw where "y = (rc, e, raw)" by (metis prod_cases3)
  with y have d: "detach1 py ?k s = ((rc, e, raw), t)" by simp
  then obtain s1 s2 where k: "?k s1 = ((rc, e, raw), s2)" and tr: "trace s1 = trace s" "trace t = trace s2"
    by (rule detach1_run)
  then have t: "tt_reopen os (py_as_ptr x) s1 = (rc, raw, s2)" by (auto split: prod.splits)
  obtain r2 s3 where v: "verdict py rc e () t = (r2, s3)" by (metis prod.exhaust)
  then have x': "x' = x\<lparr>py_raw := the raw\<rparr>" "s' = s3" using assms(2) d by (simp_all add: py_reopen_def Let_def)
  have "reopen os (rust x) s1 = (check rc s2, rust x', s2)" using t x'(1) by (simp add: reopen_def)
  from reopen_books [OF assms(1) this] have "py_fds x s1 x' s2" by (simp add: py_fds_def)
  moreover have "trace s3 = trace t" using v by (auto elim: verdict_cases)
  ultimately show ?thesis using tr x'(2) by (auto intro: py_fds_trace)
qed

lemma py_again_fds: "closes os \<Longrightarrow> py_again os py x s = (e, x', s') \<Longrightarrow> py_fds x s x' s'"
  by (auto simp: py_again_def dest!: py_reopen_fds split: prod.splits sum.splits)

lemma py_spent_fds: "py_spent py s = (r, s') \<Longrightarrow> py_fds x s x s'"
  by (auto simp: py_spent_def elim!: py_fail_frame split: prod.splits intro: py_fds_quiet)

interpretation pyr_fds: performing_account "py_perform_loop os py" err_lost "py_again os py" "py_spent py"
    "py_perform os py" py_persist PY_RETRIES py_fds "closes os"
  for os :: "'w os" and py :: "'w py"
  by unfold_locales (auto intro: py_again_fds py_spent_fds)

lemma py_perform_fds:
  "closes os \<Longrightarrow> py_steady op \<Longrightarrow> py_perform os py op x s = Some (r, x', s') \<Longrightarrow> py_fds x s x' s'"
  by (rule pyr_fds.perform_keeps) (auto simp: py_steady_def)

section \<open>The operations\<close>

inductive py_session_step ::
  "'w os \<Rightarrow> 'w py \<Rightarrow> (string \<Rightarrow> ('o py_result, 'w) sysc) \<Rightarrow> py_session \<times> 'w mach \<Rightarrow> py_session \<times> 'w mach \<Rightarrow> bool"
  for os py parse where
  py_do_info: "py_session_info os py x s = Some (r, x', s') \<Longrightarrow> py_session_step os py parse (x, s) (x', s')"
| py_do_power: "py_power os py flags x s = Some (r, x', s') \<Longrightarrow> py_session_step os py parse (x, s) (x', s')"
| py_do_telemetry: "py_telemetry os py x s = Some (r, x', s') \<Longrightarrow> py_session_step os py parse (x, s) (x', s')"
| py_do_fw: "py_fw_version os py parse x s = Some (r, x', s') \<Longrightarrow> py_session_step os py parse (x, s) (x', s')"
| py_do_alloc: "py_alloc os py sz mode x s = Some (r, x', s') \<Longrightarrow> py_session_step os py parse (x, s) (x', s')"
| py_do_bind: "py_bind os py (Some x) t cfg s = (r, t', s') \<Longrightarrow> py_session_step os py parse (x, s) (x, s')"
| py_do_free: "py_tlb_free os py (Some x) t s = (r, t', s') \<Longrightarrow> py_session_step os py parse (x, s) (x, s')"
| py_do_call: "py_call os py x req timeout s = Some (r, s') \<Longrightarrow> py_session_step os py parse (x, s) (x, s')"
| py_do_post: "py_post os py (Some x) req s = (r, s') \<Longrightarrow> py_session_step os py parse (x, s) (x, s')"
| py_do_poll: "py_poll os py (Some x) q s = (r, q', s') \<Longrightarrow> py_session_step os py parse (x, s) (x, s')"
| py_do_discard: "py_discard os (Some x) q s = (q', s') \<Longrightarrow> py_session_step os py parse (x, s) (x, s')"
| py_do_reopen: "py_reopen os py x s = (r, x', s') \<Longrightarrow> py_session_step os py parse (x, s) (x', s')"
| py_do_reset: "py_session_reset os py x s = Some (r, x', s') \<Longrightarrow> py_session_step os py parse (x, s) (x', s')"
| py_do_close: "py_close os py x s = (r, x', s') \<Longrightarrow> py_session_step os py parse (x, s) (x', s')"
| py_do_exit: "py_session_exit os py x s = (b, x', s') \<Longrightarrow> py_session_step os py parse (x, s) (x', s')"

inductive_cases py_session_stepE: "py_session_step os py parse (x, s) (x', s')"

lemma py_steady_telem:
  assumes "mapping_calls os" "window_calls os"
  shows "py_steady (py_telem_op os py)"
  unfolding py_steady_def
proof (intro allI impI)
  fix x :: py_session and s r s'
  assume run: "py_telem_op os py x s = Some (r, s')"
  then obtain rc tb t where t: "tt_telemetry os (Some (py_raw x)) (Some (replicate TT_TELEMETRY_LEN 0)) s = Some (rc, tb, t)"
    by (auto simp: py_telem_op_def split: option.splits)
  then have b: "py_fds x s x t"
    using tt_telemetry_settled [OF assms, of s "py_raw x" "replicate TT_TELEMETRY_LEN 0"]
    by (auto simp: settled_def owes_def py_fds_def fd_books_def)
  obtain r2 s2 where c: "py_checked py (rc, tb, t) = (r2, s2)" by (metis prod.exhaust)
  then have "s' = s2" using run t by (simp add: py_telem_op_def)
  moreover have "trace s2 = trace t" using c by (cases rule: py_checked_cases) auto
  ultimately show "py_fds x s x s'" using b by (auto intro: py_fds_trace)
qed

lemma py_steady_power: "py_steady (py_power_op os py flags)"
  unfolding py_steady_def
proof (intro allI impI)
  fix x :: py_session and s r s'
  assume run: "py_power_op os py flags x s = Some (r, s')"
  obtain rc s1 where p: "tt_power os (Some (py_raw x)) (py_bits flags) s = (rc, s1)" by (metis prod.exhaust)
  then have c: "py_check py rc s1 = (r, s')" using run by (simp add: py_power_op_def)
  have "py_fds x s x s1" using power.steady [OF p] by (simp add: py_fds_def fd_books_def)
  then show "py_fds x s x s'" using py_check_err(1) [OF c] by (auto intro: py_fds_trace)
qed

lemma py_steady_ops:
  assumes "mapping_calls os" "window_calls os"
  shows "py_steady (py_info_op os py)" "py_steady (py_fw_op os py)" "py_steady (py_alloc_op os py sz mode)"
    "py_steady (py_telem_op os py)" "py_steady (py_power_op os py flags)"
proof -
  have id: "map_sum id id r = r" for r :: "py_error + 'b" by (simp add: sum.map_id0)
  have info: "extends s s' \<and> opened (since s s') = Err.closed (since s s')"
    if "tt_dev_info os (Some ss) (Some i) s = (rc, raw, s')" for ss i s rc raw s'
    using dev_info.steady that by (metis fst_conv op3_eq snd_conv)
  show "py_steady (py_info_op os py)"
    unfolding py_info_op_def by (rule py_steady_checked) (rule info)
  have fw: "extends s s' \<and> opened (since s s') = Err.closed (since s s')"
    if "tt_fw_version os (Some ss) (Some v) s = (rc, raw, s')" for ss v s rc raw s'
    using that
    by (auto simp: tt_fw_version_def Let_def since_eq extendsI split: prod.splits if_splits option.splits
        dest!: call_trace)
  have "py_steady (\<lambda>x s. case py_checked py (tt_fw_version os (Some (py_raw x)) (Some uninit_version) s) of
      (r, s1) \<Rightarrow> Some (map_sum id id r, s1))"
    by (rule py_steady_checked) (rule fw)
  then show "py_steady (py_fw_op os py)"
    by (simp add: py_steady_def py_fw_op_def id split: prod.splits)
  have alloc: "extends s s' \<and> opened (since s s') = Err.closed (since s s')"
    if "tt_tlb_alloc os (Some ss) a b (Some t) s = (rc, raw, s')" for ss a b t s rc raw s'
    using tlb_alloc.steady that by (metis fst_conv op3_eq snd_conv)
  have "py_steady (\<lambda>x s. case py_checked py (tt_tlb_alloc os (Some (py_raw x)) (py_size_raw sz) (py_caching_raw mode)
      (Some uninit_tlb) s) of (r, s1) \<Rightarrow> Some (map_sum id id r, s1))"
    by (rule py_steady_checked) (rule alloc)
  then show "py_steady (py_alloc_op os py sz mode)"
    by (simp add: py_steady_def py_alloc_op_def id split: prod.splits)
  show "py_steady (py_telem_op os py)" by (rule py_steady_telem [OF assms])
  show "py_steady (py_power_op os py flags)" by (rule py_steady_power)
qed

lemma py_fds_same: "extends s s' \<Longrightarrow> opened (since s s') = [] \<Longrightarrow> Err.closed (since s s') = [] \<Longrightarrow> py_fds x s x s'"
  by (simp add: py_fds_def fd_books_def)

lemma py_close_fds:
  assumes "closes os" "py_close os py x s = (r, x', s')"
  shows "py_fds x s x' s'"
proof (cases "is_closed x")
  case True
  then show ?thesis using assms(2) by (simp add: py_close_def)
next
  case False
  obtain rc raw s1 where c: "tt_close os (Some (py_raw x)) s = (rc, raw, s1)" by (metis prod_cases3)
  then have p: "py_check py rc s1 = (r, s')" "x' = x\<lparr>py_raw := the raw\<rparr>"
    using assms(2) False by (auto simp: py_close_def split: prod.splits)
  have "py_fds x s x' s1"
    using close_books [OF assms(1) c] p(2) False
    by (auto simp: py_fds_def fd_books_def holds_def is_closed_def)
  then show ?thesis using py_check_err(1) [OF p(1)] by (auto intro: py_fds_trace)
qed

lemma py_tlb_fds:
  "py_bind os py (Some x) t cfg s = (r1, t', s') \<Longrightarrow> py_fds x s x s'"
  "py_tlb_free os py (Some x) t s = (r2, t2, s') \<Longrightarrow> py_fds x s x s'"
proof -
  show "py_fds x s x s'" if run: "py_bind os py (Some x) t cfg s = (r1, t', s')"
  proof (cases "pt_freed t")
    case False
    then obtain rc traw s1 c where b: "tt_tlb_bind os (Some (py_raw x)) (Some (pt_raw t)) (Some c) s = (rc, traw, s1)"
      and p: "py_check py rc s1 = (r1, s')"
      using run by (auto simp: py_bind_def Let_def split: prod.splits)
    have "py_fds x s x s1" using tt_tlb_bind_extends [OF b] by (rule py_fds_same)
    then show ?thesis using py_check_err(1) [OF p] by (auto intro: py_fds_trace)
  qed (use run in \<open>simp add: py_bind_def\<close>)
  show "py_fds x s x s'" if run: "py_tlb_free os py (Some x) t s = (r2, t2, s')"
  proof (cases "pt_freed t")
    case False
    then obtain rc raw s1 where f: "tt_tlb_free os (Some (py_raw x)) (Some (pt_raw t)) s = (rc, raw, s1)"
      and p: "py_check py rc s1 = (r2, s')"
      using run by (auto simp: py_tlb_free_def Let_def split: prod.splits)
    have "py_fds x s x s1" using tt_tlb_free_extends [OF f] by (rule py_fds_same)
    then show ?thesis using py_check_err(1) [OF p] by (auto intro: py_fds_trace)
  qed (use run in \<open>simp add: py_tlb_free_def\<close>)
qed

lemma py_call_fds:
  assumes "keeps_time os now" "py_call os py x req timeout s = Some (r, s')"
  shows "py_fds x s x s'"
proof (cases "py_millis timeout")
  case (Inl e)
  then show ?thesis using assms(2) by (simp add: py_call_def)
next
  case (Inr ms)
  let ?k = "\<lambda>s. case tt_smc_call os (py_as_ptr x) (Some (py_words req)) (Some (replicate 8 0)) ms s of None \<Rightarrow> None
            | Some (rc, rsp, s1) \<Rightarrow> Some ((rc, errno s1, rsp), s1)"
  obtain rc e rsp t where d: "detach py ?k s = Some ((rc, e, rsp), t)"
    and v: "verdict py rc e (PyMessage (the rsp)) t = (r, s')"
    using assms(2) Inr by (auto simp: py_call_def split: option.splits)
  obtain s1 s2 where k: "?k s1 = Some ((rc, e, rsp), s2)" and tr: "trace s1 = trace s" "trace t = trace s2"
    using d by (rule detach_run)
  then have "tt_smc_call os (py_as_ptr x) (Some (py_words req)) (Some (replicate 8 0)) ms s1 = Some (rc, rsp, s2)"
    by (auto split: option.splits)
  then have "py_fds x s1 x s2"
    using call_requests [OF assms(1), of "py_raw x" "py_words req" "replicate 8 0" ms s1]
    by (intro py_fds_same) auto
  moreover have "trace s' = trace t" using v by (auto elim: verdict_cases)
  ultimately show ?thesis using tr by (auto intro: py_fds_trace)
qed

lemma py_message_fds:
  "py_post os py (Some x) req s = (r1, s') \<Longrightarrow> py_fds x s x s'"
  "py_poll os py (Some x) q s = (r2, q', s') \<Longrightarrow> py_fds x s x s'"
  "py_discard os (Some x) q s = (q2, s') \<Longrightarrow> py_fds x s x s'"
proof -
  show "py_fds x s x s'" if run: "py_post os py (Some x) req s = (r1, s')"
  proof -
    obtain rc s1 where p: "tt_smc_post os (Some (py_raw x)) (Some (py_words req)) s = (rc, s1)" by (metis prod.exhaust)
    obtain r2 s2 where c: "py_check py rc s1 = (r2, s2)" by (metis prod.exhaust)
    have "py_fds x s x s1" using smc_post.steady [OF p] by (intro py_fds_same) auto
    moreover have "s' = s2" using run p c by (simp add: py_post_def)
    ultimately show ?thesis using py_check_err(1) [OF c] by (auto intro: py_fds_trace)
  qed
  show "py_fds x s x s'" if run: "py_poll os py (Some x) q s = (r2, q', s')"
  proof -
    obtain rc rsp s1 where p: "tt_smc_poll os (Some (py_raw x)) (Some (replicate 8 0)) s = (rc, rsp, s1)"
      by (metis prod_cases3)
    then have "extends s s1 \<and> opened (since s s1) = [] \<and> Err.closed (since s s1) = []"
      using smc_poll.steady by (metis fst_conv op3_eq snd_conv)
    then have "py_fds x s x s1" by (intro py_fds_same) auto
    moreover have "trace s' = trace s1"
      using run p by (auto simp: py_poll_def Let_def split: if_splits prod.splits elim!: py_fail_frame)
    ultimately show ?thesis by (auto intro: py_fds_trace)
  qed
  show "py_fds x s x s'" if run: "py_discard os (Some x) q s = (q2, s')"
  proof -
    obtain rc s1 where d: "tt_smc_drop os (Some (py_raw x)) s = (rc, s1)" by (metis prod.exhaust)
    have "py_fds x s x s1" using smc_drop.steady [OF d] by (intro py_fds_same) auto
    then show ?thesis using run d by (auto simp: py_discard_def split: if_splits)
  qed
qed

lemma tt_reset_with_extends:
  assumes "tt_reset_with os (Some ss) s = Some (rc, raw, s')"
  shows "extends s s'"
proof (cases "sess_fd ss < 0")
  case True
  then show ?thesis using assms by (auto simp: tt_reset_with_def)
next
  case False
  obtain cr sess1 s1 where c: "tt_close os (Some ss) s = (cr, sess1, s1)" by (metis prod_cases3)
  note e = tt_close_trace(1) [OF c]
  show ?thesis
  proof (cases "cr < 0")
    case True
    then show ?thesis using assms c e False by (simp add: tt_reset_with_def)
  next
    case cr: False
    then obtain r where "tt_reset os (map_option sess_dev sess1) s1 = Some (r, s')"
      using assms c False by (auto simp: tt_reset_with_def out_def)
    moreover obtain ss1 where "sess1 = Some ss1" using c by (cases rule: tt_close_cases) auto
    ultimately have "extends s1 s'" using tt_reset_extends by simp
    with e show ?thesis by (rule extends_trans)
  qed
qed

lemma py_reset_fds:
  assumes "py_session_reset os py x s = Some (r, x', s')"
  shows "py_fds x s x' s'"
proof -
  let ?k = "\<lambda>s. case tt_reset_with os (Some (py_raw x)) s of None \<Rightarrow> None
          | Some (rc, sess1, s1) \<Rightarrow> Some ((rc, errno s1, sess1), s1)"
  obtain rc e raw t where d: "detach py ?k s = Some ((rc, e, raw), t)"
    and x': "x' = x\<lparr>py_raw := the raw\<rparr>" and v: "verdict py rc e (py_dev x') t = (r, s')"
    using assms by (auto simp: py_session_reset_def Let_def split: option.splits prod.splits)
  obtain s1 s2 where k: "?k s1 = Some ((rc, e, raw), s2)" and tr: "trace s1 = trace s" "trace t = trace s2"
    using d by (rule detach_run)
  then have rw: "tt_reset_with os (Some (py_raw x)) s1 = Some (rc, raw, s2)" by (auto split: option.splits)
  have "py_fds x s1 x' s2"
  proof (cases "is_closed x")
    case True
    then show ?thesis using rw x' by (auto simp: tt_reset_with_def is_closed_def intro!: py_fds_quiet)
  next
    case False
    then have fd: "0 \<le> sess_fd (py_raw x)" by (simp add: is_closed_def)
    from tt_reset_with_run [OF rw fd]
    obtain fs where run: "raw = Some (py_raw x\<lparr>sess_fd := - 1\<rparr>)"
      "Err.closed (since s1 s2) = sess_fd (py_raw x) # fs" "mset fs = mset (opened (since s1 s2))"
      by blast
    have "extends s1 s2" by (rule tt_reset_with_extends [OF rw])
    then show ?thesis using run x' fd by (simp add: py_fds_def fd_books_def holds_def)
  qed
  moreover have "trace s' = trace t" using v by (auto elim: verdict_cases)
  ultimately show ?thesis using tr by (auto intro: py_fds_trace)
qed

section \<open>A session's life\<close>

lemma py_step_fds:
  assumes "py_session_step os py parse (x, s) (x', s')" "sane os now"
  shows "py_fds x s x' s'"
proof -
  have os: "closes os" "mapping_calls os" "window_calls os" "keeps_time os now"
    using assms(2) by (auto simp: sane_def)
  note perf = py_perform_fds [OF os(1) py_steady_ops(1) [OF os(2,3)]] py_perform_fds [OF os(1) py_steady_ops(2) [OF os(2,3)]]
    py_perform_fds [OF os(1) py_steady_ops(3) [OF os(2,3)]] py_perform_fds [OF os(1) py_steady_ops(4) [OF os(2,3)]]
    py_perform_fds [OF os(1) py_steady_ops(5) [OF os(2,3)]]
  have fw: "py_fds x s x' s'" if run: "py_fw_version os py parse x s = Some (r, x', s')" for r
  proof -
    obtain r0 x0 s0 where p: "py_perform os py (py_fw_op os py) x s = Some (r0, x0, s0)"
      using run by (auto simp: py_fw_version_def split: option.splits)
    have "x' = x0 \<and> trace s' = trace s0"
      using run p by (cases r0) (auto simp: py_fw_version_def raw_to_semver_def split: prod.splits
          dest!: effect_frame(1))
    then show ?thesis using perf(2) [OF p] by (auto intro: py_fds_trace)
  qed
  have alloc: "py_fds x s x' s'" if "py_alloc os py sz mode x s = Some (r, x', s')" for sz mode r
    using that perf(3) by (auto simp: py_alloc_def split: option.splits prod.splits)
  have exit: "py_fds x s x' s'" if "py_session_exit os py x s = (b, x', s')" for b
    using that py_close_fds [OF os(1)] by (auto simp: py_session_exit_def split: prod.splits)
  show ?thesis
    using assms(1)
    by (rule py_session_stepE)
      (auto simp: py_session_info_def py_power_def py_telemetry_def
        intro: perf fw alloc exit py_tlb_fds py_call_fds [OF os(4)] py_message_fds py_reopen_fds [OF os(1)]
          py_reset_fds py_close_fds [OF os(1)])
qed

interpretation py_life: history py_fds "sane os now" "py_session_step os py parse"
  for os :: "'w os" and now py parse
  by unfold_locales (rule py_step_fds)

lemma py_open_run:
  assumes "py_open os py dev excl nonblock persist s = (Inr x, s')"
  shows "extends s s'" "opened (since s s') = [sess_fd (py_raw x)]" "Err.closed (since s s') = []" "\<not> is_closed x"
proof -
  let ?new = "\<lparr>sess_dev = uninit_device, sess_fd = 0, sess_flags = 0\<rparr>"
  let ?k = "\<lambda>s. case tt_open os (Some (py_device_raw dev)) (Some ?new) (py_open_flags excl nonblock) s of
      (rc, sess, s1) \<Rightarrow> ((rc, errno s1, sess), s1)"
  obtain y t where y: "detach1 py ?k s = (y, t)" by (cases "detach1 py ?k s")
  obtain rc e sess where "y = (rc, e, sess)" by (rule prod_cases3 [of y])
  with y have d: "detach1 py ?k s = ((rc, e, sess), t)" by simp
  then have v: "verdict py rc e \<lparr>py_raw = the sess, py_persist = persist\<rparr> t = (Inr x, s')"
    using assms by (simp add: py_open_def)
  obtain s1 s2 where k: "?k s1 = ((rc, e, sess), s2)" and tr: "trace s1 = trace s" "trace t = trace s2"
    using d by (rule detach1_run)
  from v have ok: "rc = 0" "x = \<lparr>py_raw = the sess, py_persist = persist\<rparr>" "s' = t"
    by (auto elim: verdict_cases)
  have o: "tt_open os (Some (py_device_raw dev)) (Some ?new) (py_open_flags excl nonblock) s1 = (TT_OK, sess, s2)"
    using k ok(1) by (auto split: prod.splits)
  have same: "since s s' = since s1 s2" "extends s s' \<longleftrightarrow> extends s1 s2"
    using tr ok(3) by (simp_all add: since_def extends_def)
  show "extends s s'" "opened (since s s') = [sess_fd (py_raw x)]" "Err.closed (since s s') = []" "\<not> is_closed x"
    using tt_open_trace [OF o] tt_open_ok [OF o] ok(2) same by (auto simp: is_closed_def)
qed

text \<open>
  C6: no Python session leaks or double-closes a descriptor where closing works: over any sequence of the
  binding's operations on it, closing, resetting and reopening it again included, under any
  interpreter, to its destructor, the descriptors closed are exactly those opened, each as often.
\<close>

theorem py_session_life_balanced:
  assumes "sane os now" "py_open os py dev excl nonblock persist s0 = (Inr x, s1)"
    "(py_session_step os py parse)\<^sup>*\<^sup>* (x, s1) (x', s2)"
  shows "mset (opened (since s0 (py_session_drop os py x' s2))) = mset (Err.closed (since s0 (py_session_drop os py x' s2)))"
proof -
  have cl: "closes os" using assms(1) by (simp add: sane_def)
  note o = py_open_run [OF assms(2)]
  have "py_fds x s1 x' s2" by (rule py_life.history_keeps [OF assms(3,1)])
  moreover obtain r x3 where c: "py_close os py x' s2 = (r, x3, py_session_drop os py x' s2)"
    by (cases "py_close os py x' s2") (simp add: py_session_drop_def)
  moreover have "py_fds x' s2 x3 (py_session_drop os py x' s2)" by (rule py_close_fds [OF cl c])
  ultimately have b: "py_fds x s1 x3 (py_session_drop os py x' s2)" by (blast intro: py_fds_trans)
  have "is_closed x3"
  proof (cases "is_closed x'")
    case True
    then show ?thesis using c by (simp add: py_close_def)
  next
    case False
    obtain rc raw u where t: "tt_close os (Some (py_raw x')) s2 = (rc, raw, u)" by (metis prod_cases3)
    then have "x3 = x'\<lparr>py_raw := the raw\<rparr>" using c False by (auto simp: py_close_def split: prod.splits)
    then show ?thesis using close_books(2) [OF cl t] False by (simp add: is_closed_def)
  qed
  then have books: "extends s1 (py_session_drop os py x' s2)"
      "mset (opened (since s1 (py_session_drop os py x' s2))) + {#sess_fd (py_raw x)#} =
       mset (Err.closed (since s1 (py_session_drop os py x' s2)))"
    using b o(4) by (simp_all add: py_fds_def fd_books_def holds_def is_closed_def)
  show ?thesis
    unfolding trace_trans(2,3) [OF o(1) books(1)] o(2,3) using books(2) by simp
qed

theorem py_session_life_balanced_witness:
  "\<exists>x s1 x' s2. py_open stub_os stub_py (PyDev \<lparr>dev_id = 0\<rparr>) False False True stub_mach = (Inr x, s1) \<and>
     py_reopen stub_os stub_py x s1 = (Inr (), x', s2) \<and>
     mset (Err.closed (since stub_mach (py_session_drop stub_os stub_py x' s2))) =
       mset (opened (since stub_mach (py_session_drop stub_os stub_py x' s2)))"
proof -
  have sane: "sane stub_os fst"
    using stub_window_calls stub_keeps_time by (simp add: sane_def closes_def stub_os_def ret0_def)
  obtain x s1 where o: "py_open stub_os stub_py (PyDev \<lparr>dev_id = 0\<rparr>) False False True stub_mach = (Inr x, s1)"
    and x: "py_raw x = \<lparr>sess_dev = \<lparr>dev_id = 0\<rparr>, sess_fd = 3, sess_flags = 0\<rparr>"
    by (simp add: py_open_def verdict_def quiet_simps [OF stub_quiet] py_open_flags_def tt_open_def stub_defs)
  obtain x' s2 where r: "py_reopen stub_os stub_py x s1 = (Inr (), x', s2)"
    by (simp add: py_reopen_def verdict_def quiet_simps [OF stub_quiet] tt_reopen_def tt_close_def tt_open_def x stub_defs)
  have "(py_session_step stub_os stub_py (\<lambda>_ e w. (Inr (), e, w)))\<^sup>*\<^sup>* (x, s1) (x', s2)"
    by (rule r_into_rtranclp, rule py_do_reopen [OF r])
  from py_session_life_balanced [OF sane o this] o r show ?thesis by metis
qed

end
