(* ===== verification/PyModule.thy ===== *)
theory PyModule
  imports PyErr RsVersion
begin

text \<open>
  \<open>src/bind/py/src/lib.rs\<close>: the initialisation of the extension module, a sequence of pyo3 calls that each
  may raise. What the calls do to the interpreter is pyo3's, a parameter: \<open>exec\<close> runs one of them.
\<close>

datatype init_call =
    AddObject string string
  | AddFunction string string
  | AddClass string string
  | NewModule string
  | AddSubmodule string string
  | SetSysModule string string

text \<open>\<open>m.add(name, value)\<close> with the value's description; the first argument of the others is the module.\<close>

definition py_version_string :: string where
  "py_version_string = (case TTDAL_VERSION of (a, b, c) \<Rightarrow>
     show_dec a @ ''.'' @ show_dec b @ ''.'' @ show_dec c)"

definition module_init :: "init_call list" where
  "module_init =
     [AddObject ''TTError'' ''TTError'',
      AddFunction ''ttdal'' ''scan'',
      AddClass ''ttdal'' ''Device'',
      AddClass ''ttdal'' ''Session'',
      AddClass ''ttdal'' ''Info'',
      AddObject ''__version__'' py_version_string,
      NewModule ''kmd'',
      AddFunction ''kmd'' ''version'',
      AddSubmodule ''ttdal'' ''kmd'',
      SetSysModule ''ttdal.kmd'' ''kmd'',
      NewModule ''fw'',
      AddFunction ''fw'' ''version'',
      AddSubmodule ''ttdal'' ''fw'',
      SetSysModule ''ttdal.fw'' ''fw'',
      NewModule ''tlb'',
      AddClass ''tlb'' ''Size'',
      AddClass ''tlb'' ''Caching'',
      AddClass ''tlb'' ''Config'',
      AddClass ''tlb'' ''Tlb'',
      AddClass ''tlb'' ''Window'',
      AddSubmodule ''ttdal'' ''tlb'',
      SetSysModule ''ttdal.tlb'' ''tlb'',
      NewModule ''power'',
      AddClass ''power'' ''Flag'',
      AddSubmodule ''ttdal'' ''power'',
      SetSysModule ''ttdal.power'' ''power'',
      NewModule ''smc'',
      AddClass ''smc'' ''Message'',
      AddClass ''smc'' ''Queued'',
      AddSubmodule ''ttdal'' ''smc'',
      SetSysModule ''ttdal.smc'' ''smc'',
      NewModule ''telem'',
      AddClass ''telem'' ''Tag'',
      AddClass ''telem'' ''Telemetry'',
      AddSubmodule ''ttdal'' ''telem'',
      SetSysModule ''ttdal.telem'' ''telem'']"

text \<open>Each call is followed by \<open>?\<close>.\<close>

fun run_init ::
  "(init_call \<Rightarrow> (unit py_result, 'w) sysc) \<Rightarrow> init_call list \<Rightarrow> 'w mach \<Rightarrow> unit py_result \<times> 'w mach" where
  "run_init exec [] s = (Inr (), s)"
| "run_init exec (c # cs) s =
     (case effect (exec c) s of (Inl e, s1) \<Rightarrow> (Inl e, s1) | (Inr _, s1) \<Rightarrow> run_init exec cs s1)"

definition ttdal_module :: "(init_call \<Rightarrow> (unit py_result, 'w) sysc) \<Rightarrow> 'w mach \<Rightarrow> unit py_result \<times> 'w mach" where
  "ttdal_module exec s = run_init exec module_init s"

text \<open>Initialisation touches no device.\<close>

lemma run_init_silent: "run_init exec cs s = (r, s') \<Longrightarrow> trace s' = trace s"
  by (induction exec cs s rule: run_init.induct)
    (auto split: prod.splits sum.splits dest!: effect_frame(1))

lemma ttdal_module_silent: "ttdal_module exec s = (r, s') \<Longrightarrow> since s s' = []"
  by (simp add: ttdal_module_def run_init_silent)

end
