(* ===== verification/SmcLive.thy ===== *)
theory SmcLive
  imports RsSmc
begin

text \<open>
  Liveness of message waits: over a device that answers in the end, a wait whose budget reaches that far
  delivers the response, and a message stays outstanding for as long as its handle says so, whatever
  polls and timeouts come before. The C loop first, then the Rust handle built on it.
\<close>

section \<open>A device that answers\<close>

text \<open>
  A message outstanding on \<open>f\<close> is answered by any poll made at time \<open>T\<close> or later; a poll made earlier may
  find it unanswered, which is \<open>EAGAIN\<close> and nothing else. A poll and a reading of the clock take at
  most \<open>L\<close> nanoseconds.
\<close>

definition answers :: "'w os \<Rightarrow> ('w \<Rightarrow> nat) \<Rightarrow> ('w \<Rightarrow> fd set) \<Rightarrow> fd \<Rightarrow> nat \<Rightarrow> nat \<Rightarrow> bool" where
  "answers os now busy f T L \<longleftrightarrow>
     (\<forall>s r m s'. k_smc os f SMC_POLL zero_msg s = ((r, m), s') \<longrightarrow> now (world s') \<le> now (world s) + L \<and>
        (f \<in> busy (world s) \<and> r \<noteq> 0 \<longrightarrow> errno s' = EAGAIN \<and> now (world s) < T)) \<and>
     (\<forall>s t s'. k_clock os s = (t, s') \<longrightarrow> now (world s') \<le> now (world s) + L)"

lemma answersD:
  assumes "answers os now busy f T L"
  shows "k_smc os f SMC_POLL zero_msg s = ((r, m), s') \<Longrightarrow> now (world s') \<le> now (world s) + L"
    "k_smc os f SMC_POLL zero_msg s = ((r, m), s') \<Longrightarrow> f \<in> busy (world s) \<Longrightarrow> r \<noteq> 0 \<Longrightarrow>
       errno s' = EAGAIN \<and> now (world s) < T"
    "k_clock os s = (t, s') \<Longrightarrow> now (world s') \<le> now (world s) + L"
  using assms unfolding answers_def by blast+

text \<open>The response \<open>m\<close> is the one the last call, a poll, took from the device.\<close>

definition taken :: "'w os \<Rightarrow> fd \<Rightarrow> u32 list \<Rightarrow> 'w mach \<Rightarrow> bool" where
  "taken os f m s' \<longleftrightarrow> (\<exists>s. k_smc os f SMC_POLL zero_msg s = ((0, m), s'))"

lemma poll_answered:
  assumes "tt_smc_poll os (Some ss) (Some r0) s = (rc, rsp, s')" "0 \<le> sess_fd ss" "sess_fd ss \<in> busy (world s)"
    "smc_slot os busy" "answers os now busy (sess_fd ss) T L"
  obtains (ok) m where "rc = TT_OK" "rsp = Some m" "taken os (sess_fd ss) m s'" "sess_fd ss \<notin> busy (world s')"
    | (pending) "rc = TT_ERR" "rsp = Some r0" "errno s' = EAGAIN" "now (world s) < T"
      "now (world s') \<le> now (world s) + L" "sess_fd ss \<in> busy (world s')"
proof -
  obtain r m s1 where k: "k_smc os (sess_fd ss) SMC_POLL zero_msg s = ((r, m), s1)" by (metis surj_pair)
  note b = smc_slotD(2) [OF assms(4) k] and a = answersD(1,2) [OF assms(5) k]
  show thesis
  proof (cases "r = 0")
    case True
    then have "rc = TT_OK" "rsp = Some m" "s' = s1" using assms(1,2) k by (simp_all add: tt_smc_poll_def)
    then show thesis using True k b by (intro ok) (auto simp: taken_def)
  next
    case False
    then have e: "errno s1 = EAGAIN" "now (world s) < T" using a(2) assms(3) by blast+
    then have "out (Some r0) (TT_ERR, s1\<lparr>errno := EAGAIN\<rparr>) = (rc, rsp, s')"
      using assms(1,2) k False by (simp add: tt_smc_poll_def tt_fail_io_def tt_fail_def)
    then have "rc = TT_ERR" "rsp = Some r0" "errno s' = EAGAIN" "world s' = world s1"
      by (auto simp: out_def)
    then show thesis using False e a(1) b assms(3) by (intro pending) auto
  qed
qed

section \<open>The wait loop delivers\<close>

text \<open>
  How a wait on an outstanding message ends: with the response, or in time, the message still
  outstanding; and not in time if the budget reaches to \<open>T\<close>, a poll and a reading of the clock.
\<close>

lemma elapsed_below:
  assumes "keeps_time os now" "elapsed_ms os start s = (ms, s')" "ns_of start \<le> int (now (world s))"
    "uint budget < 2 ^ 32" "int (now (world s')) < ns_of start + 1000000 * uint budget"
  shows "ms < budget"
proof -
  obtain t where c: "k_clock os s = (t, s')" and ms: "ms = timespec_diff_ms start t"
    using assms(2) by (auto simp: elapsed_ms_def split: prod.splits)
  note r = clock_reading [OF assms(1) c]
  have "ns_of start \<le> ns_of t" "ns_of t - ns_of start < 1000000 * uint budget" using r assms(3,5) by simp_all
  then have "uint ms = (ns_of t - ns_of start) div 1000000"
    unfolding ms using assms(4) by (intro diff_ms_uint) simp_all
  also have "\<dots> < uint budget" using r assms(3,5) by simp
  finally show ?thesis by (simp add: word_less_def)
qed

lemma wait_loop_answered:
  assumes "smc_wait_loop os ss budget start spins rsp s = Some x"
    and "keeps_time os now" "smc_slot os busy" "answers os now busy (sess_fd ss) T L" "0 \<le> sess_fd ss"
      "sess_fd ss \<in> busy (world s)" "ns_of start \<le> int (now (world s))" "uint budget < 2 ^ 32" "rsp = Some r0"
  shows "(\<exists>m s'. x = (TT_OK, Some m, s') \<and> taken os (sess_fd ss) m s' \<and> sess_fd ss \<notin> busy (world s')) \<or>
    (\<exists>s'. x = (TT_ERR, Some r0, s') \<and> errno s' = ETIMEDOUT \<and> sess_fd ss \<in> busy (world s') \<and>
       ns_of start + 1000000 * uint budget < int (T + 2 * L))"
  using assms
proof (induction rule: smc_wait_induct)
  case (step loop os ss budget start spins rsp s x)
  let ?f = "sess_fd ss"
  obtain rc rsp1 s1 where p: "tt_smc_poll os (Some ss) (Some r0) s = (rc, rsp1, s1)" by (metis prod_cases3)
  obtain ms s2 where e: "elapsed_ms os start s1 = (ms, s2)" by (metis prod.exhaust)
  from p step.prems(4,5,2,3) show ?case
  proof (cases rule: poll_answered)
    case (ok m)
    have "x = (TT_OK, Some m, s1)" using step(2) p ok(1,2) step.prems(8) by simp
    then show ?thesis using ok(3,4) by blast
  next
    case pending
    let ?s3 = "if spins \<ge> SPIN_POLLS then snd (k_usleep os POLL_INTERVAL_US s2) else s2"
    obtain t where c: "k_clock os s1 = (t, s2)" using e by (auto simp: elapsed_ms_def split: prod.splits)
    have now1: "now (world s) \<le> now (world s1)" using poll_ticks [OF step.prems(1) p] by simp
    have now2: "now (world s1) \<le> now (world s2)" "now (world s2) \<le> now (world s1) + L"
      using clock_reading [OF step.prems(1) c] answersD(3) [OF step.prems(3) c] by simp_all
    have b2: "?f \<in> busy (world s2)" using pending(6) slot_elapsed [OF step.prems(2) e] by simp
    show ?thesis
    proof (cases "budget \<le> ms")
      case True
      have "\<not> int (now (world s2)) < ns_of start + 1000000 * uint budget"
        using elapsed_below [OF step.prems(1) e _ step.prems(7)] now1 step.prems(6) True by force
      moreover have "now (world s2) < T + 2 * L" using pending(4,5) now2(2) by simp
      moreover have "x = (TT_ERR, Some r0, s2\<lparr>errno := ETIMEDOUT\<rparr>)"
        using step(2) p e pending(1-3) True step.prems(8) by (simp add: tt_fail_def out_def)
      ultimately show ?thesis using b2 by simp
    next
      case False
      have "loop os ss budget start (spins + 1) (Some r0) ?s3 = Some x"
        using step(2) p e pending(1-3) False step.prems(8) by simp
      moreover have "?f \<in> busy (world ?s3)" using b2 slot_usleep [OF step.prems(2)] by simp
      moreover have "now (world s2) \<le> now (world ?s3)"
        using usleep_ticks(1) [OF step.prems(1), of POLL_INTERVAL_US s2] by (simp add: POLL_INTERVAL_US_def)
      ultimately show ?thesis
        using step(1) step.prems now1 now2(1) by simp
    qed
  qed
qed

text \<open>The budget of a wait, in milliseconds.\<close>

definition wait_ms :: "u32 \<Rightarrow> nat" where
  "wait_ms timeout = (if timeout = 0 then 1000 else unat timeout)"

lemma budget_ms: "uint (ucast (if timeout \<noteq> 0 then timeout else TT_SMC_TIMEOUT_DEFAULT) :: u64) = int (wait_ms timeout)"
  by (simp add: wait_ms_def TT_SMC_TIMEOUT_DEFAULT_def uint_up_ucast is_up)

lemma wait_answered:
  assumes "keeps_time os now" "smc_slot os busy" "answers os now busy (sess_fd ss) T L" "0 \<le> sess_fd ss"
    "sess_fd ss \<in> busy (world s)" "tt_smc_wait os (Some ss) (Some r0) timeout s = Some x"
  shows "(\<exists>m s'. x = (TT_OK, Some m, s') \<and> taken os (sess_fd ss) m s' \<and> sess_fd ss \<notin> busy (world s')) \<or>
    (\<exists>s'. x = (TT_ERR, Some r0, s') \<and> errno s' = ETIMEDOUT \<and> sess_fd ss \<in> busy (world s') \<and>
       now (world s) + 1000000 * wait_ms timeout < T + 2 * L)"
proof -
  let ?b = "ucast (if timeout \<noteq> 0 then timeout else TT_SMC_TIMEOUT_DEFAULT) :: u64"
  obtain start s1 where c: "k_clock os s = (start, s1)" by (metis prod.exhaust)
  note r = clock_reading [OF assms(1) c]
  have l: "smc_wait_loop os ss ?b start 0 (Some r0) s1 = Some x"
    using assms(4,6) c by (simp add: tt_smc_wait_def Let_def del: ucast_id)
  have b: "uint ?b < 2 ^ 32"
    using uint_bounded [of timeout] by (simp add: TT_SMC_TIMEOUT_DEFAULT_def uint_up_ucast is_up)
  have "sess_fd ss \<in> busy (world s1)" using assms(5) smc_slotD(4) [OF assms(2) c] by simp
  from wait_loop_answered [OF l assms(1-4) this r(2) b refl] r(1)
  show ?thesis unfolding budget_ms by auto
qed

section \<open>The handle\<close>

text \<open>While its handle is not done, a message is outstanding.\<close>

lemma queued_wait_answered:
  assumes "keeps_time os now" "smc_slot os busy" "answers os now busy (q_fd q) T L" "0 \<le> q_fd q"
    "q_fd q \<in> busy (world s)" "queued_wait os timeout q s = Some (r, q', s')" "\<not> q_done q"
  shows "(\<exists>m. r = Inr (Message m) \<and> taken os (q_fd q) m s' \<and> q_done q' \<and> q_fd q \<notin> busy (world s')) \<or>
    r = Inl (Os ETIMEDOUT) \<and> q' = q \<and> q_fd q \<in> busy (world s') \<and>
      now (world s) + 1000000 * wait_ms (millis timeout) < T + 2 * L"
proof -
  obtain rc rsp where w: "tt_smc_wait os (Some (ss_raw (q_sess q))) (Some (replicate 8 0)) (millis timeout) s
      = Some (rc, rsp, s')" and r: "r = map_sum id (\<lambda>_. Message (the rsp)) (check rc s')"
    and q': "q' = settle (check rc s') TimedOut q"
    using assms(6) by (auto simp: queued_wait_def Let_def split: option.splits prod.splits)
  from wait_answered [OF assms(1,2) assms(3,4,5) [unfolded q_fd_def] w]
  show ?thesis
    using r q' assms(7) by (auto simp: q_fd_def settle_def kind_Os simp del: kind.simps)
qed

lemma queued_poll_answered:
  assumes "smc_slot os busy" "answers os now busy (q_fd q) T L" "0 \<le> q_fd q"
    "q_fd q \<in> busy (world s)" "queued_try_wait os q s = (r, q', s')" "\<not> q_done q"
  shows "(\<exists>m. r = Inr (Message m) \<and> taken os (q_fd q) m s' \<and> q_done q' \<and> q_fd q \<notin> busy (world s')) \<or>
    r = Inl (Os EAGAIN) \<and> q' = q \<and> q_fd q \<in> busy (world s')"
proof -
  obtain rc rsp where p: "tt_smc_poll os (Some (ss_raw (q_sess q))) (Some (replicate 8 0)) s = (rc, rsp, s')"
    and r: "r = map_sum id (\<lambda>_. Message (the rsp)) (check rc s')" and q': "q' = settle (check rc s') WouldBlock q"
    using assms(5) by (auto simp: queued_try_wait_def Let_def split: prod.splits)
  from p assms(3,4) [unfolded q_fd_def] assms(1,2) [unfolded q_fd_def] show ?thesis
    by (cases rule: poll_answered)
      (use r q' assms(6) in \<open>auto simp: q_fd_def settle_def kind_Os simp del: kind.simps\<close>)
qed

text \<open>The owner's calls on a handle that each find it still waiting.\<close>

definition waiting_step :: "'w os \<Rightarrow> queued \<times> 'w mach \<Rightarrow> queued \<times> 'w mach \<Rightarrow> bool" where
  "waiting_step os x y \<longleftrightarrow> queued_step os x y \<and> \<not> q_done (fst y)"

lemma waiting_steps_outstanding:
  assumes "(waiting_step os)\<^sup>*\<^sup>* (q, s) (q', s')" "keeps_time os now" "smc_slot os busy"
    "answers os now busy (q_fd q) T L" "0 \<le> q_fd q" "q_fd q \<in> busy (world s)" "\<not> q_done q"
  shows "q' = q \<and> q_fd q \<in> busy (world s')"
  using assms(1)
proof (induction rule: rtranclp_induct2)
  case refl
  show ?case using assms(6) by simp
next
  case (step q1 s1 q2 s2)
  then have q1: "q1 = q" "q_fd q \<in> busy (world s1)" "\<not> q_done q2" by (simp_all add: waiting_step_def)
  from step.hyps(2) consider (wait) timeout r where "queued_wait os timeout q s1 = Some (r, q2, s2)"
    | (poll) r where "queued_try_wait os q s1 = (r, q2, s2)"
    unfolding q1(1) waiting_step_def by (auto elim: queued_stepE)
  then show ?case
  proof cases
    case wait
    from queued_wait_answered [OF assms(2-5) q1(2) wait assms(7)] q1(3) show ?thesis by blast
  next
    case poll
    from queued_poll_answered [OF assms(3-5) q1(2) poll assms(7)] q1(3) show ?thesis by blast
  qed
qed

section \<open>What waiting promises\<close>

text \<open>
  C13: no response is lost. Over a device that answers by time \<open>T\<close>, a message that was posted and then polled
  and waited for, each time to be told to try again, is still there: a wait whose budget, in whole
  milliseconds or the default of a second, reaches past \<open>T\<close> by two system calls' time returns the
  response a poll took from the device, and the handle is done, its slot free.
\<close>

theorem queued_wait_delivers:
  assumes "keeps_time os now" "smc_slot os busy" "rs_post os req sess s = (Inr q, s1)"
    "(waiting_step os)\<^sup>*\<^sup>* (q, s1) (q', s2)" "answers os now busy (sess_fd (ss_raw sess)) T L"
    "T + 2 * L \<le> now (world s2) + 1000000 * wait_ms (millis timeout)"
  shows "\<exists>m q'' s3. queued_wait os timeout q' s2 = Some (Inr (Message m), q'', s3) \<and>
    taken os (sess_fd (ss_raw sess)) m s3 \<and> q_done q'' \<and> sess_fd (ss_raw sess) \<notin> busy (world s3)"
proof -
  let ?f = "sess_fd (ss_raw sess)"
  have p: "tt_smc_post os (Some (ss_raw sess)) (Some (words req)) s = (TT_OK, s1)"
    and q: "q = \<lparr>q_sess = sess, q_done = False\<rparr>"
    using assms(3) by (auto simp: rs_post_def queued_post_def map_sum_def split: prod.splits sum.splits)
  have fd: "0 \<le> ?f" using smc_post.ok_open [OF p] by simp
  have f: "q_fd q = ?f" by (simp add: q q_fd_def)
  have b: "?f \<in> busy (world s1)" using slot_post(1) [OF assms(2) p fd] by simp
  have st: "q' = q" "q_fd q \<in> busy (world s2)"
    using waiting_steps_outstanding [OF assms(4,1,2)] assms(5) fd b f q by auto
  obtain rc rsp s3 where "tt_smc_wait os (Some (ss_raw sess)) (Some (replicate 8 0)) (millis timeout) s2
      = Some (rc, rsp, s3)"
    using smc_wait_total [OF assms(1)] by blast
  then obtain r q'' where w: "queued_wait os timeout q s2 = Some (r, q'', s3)"
    by (simp add: queued_wait_def q Let_def)
  from queued_wait_answered [OF assms(1,2) _ _ st(2) w] assms(5,6) fd q w show ?thesis
    unfolding f st(1) by force
qed

text \<open>The stub's device answers at once.\<close>

lemma stub_answers: "answers stub_os fst snd f 0 0"
  by (auto simp: answers_def stub_os_def call_def stub_smc_def)

theorem queued_wait_delivers_witness:
  "\<exists>q s1 m q'' s3. rs_post stub_os (Message [1, 2, 3, 4, 5, 6, 7, 8])
      \<lparr>ss_raw = \<lparr>sess_dev = \<lparr>dev_id = 0\<rparr>, sess_fd = 3, sess_flags = 0\<rparr>, ss_opts = options_new\<rparr> stub_mach
      = (Inr q, s1) \<and> queued_wait stub_os (Some 2000000) q s1 = Some (Inr (Message m), q'', s3) \<and>
    q_done q'' \<and> 3 \<notin> snd (world s3)"
proof -
  let ?x = "\<lparr>ss_raw = \<lparr>sess_dev = \<lparr>dev_id = 0\<rparr>, sess_fd = 3, sess_flags = 0\<rparr>, ss_opts = options_new\<rparr>"
  let ?m = "Message [1, 2, 3, 4, 5, 6, 7, 8]"
  obtain q s1 where p: "rs_post stub_os ?m ?x stub_mach = (Inr q, s1)"
    by (simp add: rs_post_def queued_post_def tt_smc_post_def stub_defs stub_smc_def)
  have "(waiting_step stub_os)\<^sup>*\<^sup>* (q, s1) (q, s1)" by simp
  from queued_wait_delivers [OF stub_keeps_time stub_smc_slot p this stub_answers, of "Some 2000000"] p
  show ?thesis by auto
qed

end
