(* ===== verification/Lockstep.thy ===== *)
theory Lockstep
  imports RsSmc RsReset PyTlb PySmc PyPower PyTelem PyReset
begin

text \<open>
  Whole programs through either binding. A program is a strategy that picks its next request from the
  results so far; the same program is run over the Python methods and over the Rust methods. Scopes are
  single requests: a window is allocated, bound and freed, a message is posted, polled and dropped.
\<close>

section \<open>Operations outside \<open>perform\<close>\<close>

lemma agree_call:
  assumes "quiet_py py tx" "same_session x y" "py_millis t = Inr (millis d)"
  shows "agree_result tx (\<lambda>m. PyMessage (words m)) (py_call os py x (PyMessage ws) t s) (rs_call os (Message ws) d y s)"
proof -
  have raw: "py_raw x = ss_raw y" using assms(2) by (simp add: same_session_def)
  show ?thesis
  proof (cases "tt_smc_call os (Some (ss_raw y)) (Some ws) (Some (replicate 8 0)) (millis d) s")
    case None
    then show ?thesis using assms(3) raw by (simp add: py_call_def rs_call_def agree_result_def quiet_simps [OF assms(1)])
  next
    case (Some p)
    obtain rc rsp s1 where "p = (rc, rsp, s1)" by (metis prod_cases3)
    then show ?thesis
      using Some assms(3) raw
      by (cases "rc = 0") (simp_all add: py_call_def rs_call_def agree_result_def verdict_def quiet_simps [OF assms(1)])
  qed
qed

text \<open>A queued message: the Python handle keeps the flag, the session is the object borrowed for the call.\<close>

lemma agree_post:
  assumes "quiet_py py tx" "same_session x y"
  shows "rs_post os (Message ws) y s = (r, s') \<Longrightarrow>
    py_post os py (Some x) (PyMessage ws) s = (map_sum (py_err tx) (\<lambda>_. PyQueued False) r, s') \<and>
    (\<forall>q. r = Inr q \<longrightarrow> q = \<lparr>q_sess = y, q_done = False\<rparr>)"
proof -
  obtain rc s1 where "tt_smc_post os (Some (ss_raw y)) (Some ws) s = (rc, s1)" by (metis prod.exhaust)
  then show "rs_post os (Message ws) y s = (r, s') \<Longrightarrow> ?thesis"
    using assms(2)
    by (cases "rc = 0") (auto simp: rs_post_def queued_post_def py_post_def py_check_def Let_def same_session_def
        quiet_simps [OF assms(1)])
qed

text \<open>A pending reply is an error of the kind \<open>WouldBlock\<close> in Rust and \<^const>\<open>None\<close> in Python.\<close>

definition polled :: "message result \<Rightarrow> message option result" where
  "polled r = (case r of Inr m \<Rightarrow> Inr (Some m) | Inl e \<Rightarrow> if kind e = WouldBlock then Inr None else Inl e)"

definition py_reply :: "message option \<Rightarrow> py_message option" where
  "py_reply m = map_option (\<lambda>m. PyMessage (words m)) m"

lemma agree_poll:
  assumes "quiet_py py tx" "same_session x (q_sess q)" "\<not> q_done q" "queued_try_wait os q s = (r, q', s')"
  shows "py_poll os py (Some x) (PyQueued False) s = (map_sum (py_err tx) py_reply (polled r), PyQueued (q_done q'), s')"
    "q_sess q' = q_sess q"
proof -
  obtain rc rsp s1 where p: "tt_smc_poll os (Some (ss_raw (q_sess q))) (Some (replicate 8 0)) s = (rc, rsp, s1)"
    by (metis prod_cases3)
  have raw: "py_raw x = ss_raw (q_sess q)" using assms(2) by (simp add: same_session_def)
  show "py_poll os py (Some x) (PyQueued False) s = (map_sum (py_err tx) py_reply (polled r), PyQueued (q_done q'), s')"
    using p raw assms(4)
    by (cases "rc = 0"; cases "errno s1 = EAGAIN")
      (auto simp: py_poll_def queued_try_wait_def settle_def polled_def py_reply_def kind_Os Let_def
        quiet_simps [OF assms(1)] simp del: kind.simps)
  show "q_sess q' = q_sess q" using assms(4) p by (auto simp: queued_try_wait_def settle_def Let_def)
qed

lemma agree_discard:
  assumes "same_session x (q_sess q)"
  shows "snd (py_queued_drop os (Some x) (PyQueued (q_done q)) s) = queued_drop os q s"
  using assms by (simp add: py_queued_drop_def py_discard_def queued_drop_def same_session_def)

text \<open>Windows of a session.\<close>

definition py_config_of :: "tt_tlb_config \<Rightarrow> py_config" where
  "py_config_of c =
     \<lparr>pc_addr = cfg_addr c, pc_x_end = cfg_x_end c, pc_y_end = cfg_y_end c, pc_x_start = cfg_x_start c,
      pc_y_start = cfg_y_start c, pc_noc = cfg_noc c, pc_mcast = cfg_mcast c, pc_linked = cfg_linked c,
      pc_static_vc = cfg_static_vc c\<rparr>"

lemma agree_bind:
  assumes "quiet_py py tx" "same_session x y" "rs_bind os y t c s = (r, t', s')"
  shows "py_bind os py (Some x) \<lparr>pt_raw = tlb_raw t, pt_freed = False\<rparr> (py_config_of c) s =
    (map_sum (py_err tx) (\<lambda>_. ()) r, \<lparr>pt_raw = tlb_raw t', pt_freed = False\<rparr>, s')"
proof -
  obtain rc raw s1 where b: "tt_tlb_bind os (Some (ss_raw y)) (Some (tlb_raw t)) (Some c) s = (rc, raw, s1)"
    by (metis prod_cases3)
  then show ?thesis
    using assms(2,3)
    by (cases c; cases "rc = 0") (auto simp: rs_bind_def py_bind_def py_config_of_def py_check_def Let_def same_session_def
        quiet_simps [OF assms(1)])
qed

lemma agree_free:
  assumes "quiet_py py tx" "same_session x y" "rs_free os y t s = (r, s')"
  shows "\<exists>t'. py_tlb_free os py (Some x) \<lparr>pt_raw = tlb_raw t, pt_freed = False\<rparr> s = (map_sum (py_err tx) id r, t', s')"
proof -
  obtain rc raw s1 where f: "tt_tlb_free os (Some (ss_raw y)) (Some (tlb_raw t)) s = (rc, raw, s1)"
    by (metis prod_cases3)
  then show ?thesis
    using assms(2,3)
    by (cases "rc = 0") (auto simp: rs_free_def py_tlb_free_def py_check_def Let_def same_session_def
        quiet_simps [OF assms(1)])
qed

text \<open>Resetting through a session ends it in both: Rust consumes the value, Python's object is left closed.\<close>

lemma agree_session_reset:
  assumes "quiet_py py tx" "same_session x y"
  shows "agree_result tx (\<lambda>d. PyDev (device_raw d))
    (map_option (\<lambda>(r, _, s). (r, s)) (py_session_reset os py x s)) (session_reset os y s)"
proof -
  have raw: "py_raw x = ss_raw y" using assms(2) by (simp add: same_session_def)
  show ?thesis
  proof (cases "tt_reset_with os (Some (ss_raw y)) s")
    case None
    then show ?thesis using raw by (simp add: py_session_reset_def session_reset_def agree_result_def quiet_simps [OF assms(1)])
  next
    case (Some p)
    obtain rc sess s1 where "p = (rc, sess, s1)" by (metis prod_cases3)
    then show ?thesis
      using Some raw
      by (cases "rc = 0") (simp_all add: py_session_reset_def session_reset_def agree_result_def verdict_def Let_def
          py_dev_def session_dev_def quiet_simps [OF assms(1)])
  qed
qed

section \<open>Programs\<close>

text \<open>
  One request of a program. A call carries its timeout as either binding takes it; a window's
  configurations are bound in order; a message is polled \<open>n\<close> times, or until its reply has been taken.
\<close>

datatype request =
    GetInfo
  | SetPower py_flag
  | ReadTelemetry
  | SendMessage "u32 list" "f64 option" "duration option"
  | PostMessage "u32 list" nat
  | UseWindow py_size py_caching "tt_tlb_config list"
  | ReopenSession

text \<open>The results, over the errors of either binding.\<close>

datatype 'e reply =
    InfoReply tt_dev_info
  | Done
  | TelemetryReply "u32 list"
  | MessageReply "u32 list"
  | PollReplies "('e + u32 list option) list"
  | WindowReplies "('e + unit) list" "'e + unit"

fun py_polls ::
  "'w os \<Rightarrow> 'w py \<Rightarrow> nat \<Rightarrow> py_session \<Rightarrow> py_queued \<Rightarrow> 'w mach \<Rightarrow>
     (py_error + u32 list option) list \<times> py_queued \<times> 'w mach" where
  "py_polls os py 0 x q s = ([], q, s)"
| "py_polls os py (Suc n) x q s =
     (if pq_done q then ([], q, s)
      else case py_poll os py (Some x) q s of (r, q1, s1) \<Rightarrow>
        case py_polls os py n x q1 s1 of (rs, q2, s2) \<Rightarrow>
          (map_sum id (map_option py_message_get) r # rs, q2, s2))"

fun rs_polls ::
  "'w os \<Rightarrow> nat \<Rightarrow> queued \<Rightarrow> 'w mach \<Rightarrow> (error + u32 list option) list \<times> queued \<times> 'w mach" where
  "rs_polls os 0 q s = ([], q, s)"
| "rs_polls os (Suc n) q s =
     (if q_done q then ([], q, s)
      else case queued_try_wait os q s of (r, q1, s1) \<Rightarrow>
        case rs_polls os n q1 s1 of (rs, q2, s2) \<Rightarrow> (map_sum id (map_option words) (polled r) # rs, q2, s2))"

fun py_uses ::
  "'w os \<Rightarrow> 'w py \<Rightarrow> tt_tlb_config list \<Rightarrow> py_session \<Rightarrow> py_tlb \<Rightarrow> 'w mach \<Rightarrow>
     (py_error + unit) list \<times> (py_error + unit) \<times> 'w mach" where
  "py_uses os py [] x t s = (case py_tlb_free os py (Some x) t s of (r, _, s1) \<Rightarrow> ([], r, s1))"
| "py_uses os py (c # cs) x t s =
     (case py_bind os py (Some x) t (py_config_of c) s of (r, t1, s1) \<Rightarrow>
        case py_uses os py cs x t1 s1 of (rs, f, s2) \<Rightarrow> (r # rs, f, s2))"

fun rs_uses ::
  "'w os \<Rightarrow> tt_tlb_config list \<Rightarrow> session \<Rightarrow> rs_tlb \<Rightarrow> 'w mach \<Rightarrow> (error + unit) list \<times> (error + unit) \<times> 'w mach" where
  "rs_uses os [] y t s = (case rs_free os y t s of (r, s1) \<Rightarrow> ([], r, s1))"
| "rs_uses os (c # cs) y t s =
     (case rs_bind os y t c s of (r, t1, s1) \<Rightarrow>
        case rs_uses os cs y t1 s1 of (rs, f, s2) \<Rightarrow> (map_sum id (\<lambda>_. ()) r # rs, f, s2))"

definition with_reply :: "('a \<Rightarrow> 'b) \<Rightarrow> ('e + 'a) \<times> 's \<times> 'm \<Rightarrow> ('e + 'b) \<times> 's \<times> 'm" where
  "with_reply f p = (case p of (r, x, s) \<Rightarrow> (map_sum id f r, x, s))"

fun py_serve ::
  "'w os \<Rightarrow> 'w py \<Rightarrow> request \<Rightarrow> py_session \<Rightarrow> 'w mach \<Rightarrow>
     ((py_error + py_error reply) \<times> py_session \<times> 'w mach) option" where
  "py_serve os py GetInfo x s = map_option (with_reply (\<lambda>i. InfoReply (py_info_raw i))) (py_session_info os py x s)"
| "py_serve os py (SetPower f) x s = map_option (with_reply (\<lambda>_. Done)) (py_power os py f x s)"
| "py_serve os py ReadTelemetry x s = map_option (with_reply (\<lambda>t. TelemetryReply (py_data t))) (py_telemetry os py x s)"
| "py_serve os py (SendMessage ws t d) x s =
     map_option (\<lambda>(r, s1). with_reply (\<lambda>m. MessageReply (py_words m)) (r, x, s1)) (py_call os py x (PyMessage ws) t s)"
| "py_serve os py (PostMessage ws n) x s =
     (case py_post os py (Some x) (PyMessage ws) s of (Inl e, s1) \<Rightarrow> Some (Inl e, x, s1)
      | (Inr q, s1) \<Rightarrow> (case py_polls os py n x q s1 of (rs, q1, s2) \<Rightarrow>
          Some (Inr (PollReplies rs), x, snd (py_queued_drop os (Some x) q1 s2))))"
| "py_serve os py (UseWindow sz mode cs) x s =
     (case py_alloc os py sz mode x s of None \<Rightarrow> None
      | Some (Inl e, x1, s1) \<Rightarrow> Some (Inl e, x1, s1)
      | Some (Inr t, x1, s1) \<Rightarrow> (case py_uses os py cs x1 t s1 of (rs, f, s2) \<Rightarrow> Some (Inr (WindowReplies rs f), x1, s2)))"
| "py_serve os py ReopenSession x s = Some (with_reply (\<lambda>_. Done) (py_reopen os py x s))"

fun rs_serve ::
  "'w os \<Rightarrow> request \<Rightarrow> session \<Rightarrow> 'w mach \<Rightarrow> ((error + error reply) \<times> session \<times> 'w mach) option" where
  "rs_serve os GetInfo y s = map_option (with_reply InfoReply) (session_info os y s)"
| "rs_serve os (SetPower f) y s = map_option (with_reply (\<lambda>_. Done)) (rs_power os (FlagSet (py_bits f)) y s)"
| "rs_serve os ReadTelemetry y s = map_option (with_reply (\<lambda>t. TelemetryReply (telem_table t))) (rs_telemetry os y s)"
| "rs_serve os (SendMessage ws t d) y s =
     map_option (\<lambda>(r, s1). with_reply (\<lambda>m. MessageReply (words m)) (r, y, s1)) (rs_call os (Message ws) d y s)"
| "rs_serve os (PostMessage ws n) y s =
     (case rs_post os (Message ws) y s of (Inl e, s1) \<Rightarrow> Some (Inl e, y, s1)
      | (Inr q, s1) \<Rightarrow> (case rs_polls os n q s1 of (rs, q1, s2) \<Rightarrow>
          Some (Inr (PollReplies rs), y, queued_drop os q1 s2)))"
| "rs_serve os (UseWindow sz mode cs) y s =
     (case rs_alloc os (rust_size sz) (rust_caching mode) y s of None \<Rightarrow> None
      | Some (Inl e, y1, s1) \<Rightarrow> Some (Inl e, y1, s1)
      | Some (Inr t, y1, s1) \<Rightarrow> (case rs_uses os cs y1 t s1 of (rs, f, s2) \<Rightarrow> Some (Inr (WindowReplies rs f), y1, s2)))"
| "rs_serve os ReopenSession y s = Some (with_reply (\<lambda>_. Done) (reopen os y s))"

text \<open>A program: the next request from the results so far, as the Python binding reports them; at most \<open>n\<close>.\<close>

type_synonym program = "(py_error + py_error reply) list \<Rightarrow> request option"

definition as_py :: "(errno_t \<Rightarrow> string) \<Rightarrow> error + error reply \<Rightarrow> py_error + py_error reply" where
  "as_py tx r = map_sum (py_err tx) (map_reply (py_err tx)) r"

fun py_program ::
  "'w os \<Rightarrow> 'w py \<Rightarrow> nat \<Rightarrow> program \<Rightarrow> (py_error + py_error reply) list \<Rightarrow> py_session \<Rightarrow> 'w mach \<Rightarrow>
     ((py_error + py_error reply) list \<times> py_session \<times> 'w mach) option" where
  "py_program os py 0 prog h x s = Some (h, x, s)"
| "py_program os py (Suc n) prog h x s =
     (case prog h of None \<Rightarrow> Some (h, x, s)
      | Some q \<Rightarrow> (case py_serve os py q x s of None \<Rightarrow> None
         | Some (r, x1, s1) \<Rightarrow> py_program os py n prog (h @ [r]) x1 s1))"

fun rs_program ::
  "'w os \<Rightarrow> (errno_t \<Rightarrow> string) \<Rightarrow> nat \<Rightarrow> program \<Rightarrow> (error + error reply) list \<Rightarrow> session \<Rightarrow> 'w mach \<Rightarrow>
     ((error + error reply) list \<times> session \<times> 'w mach) option" where
  "rs_program os tx 0 prog h y s = Some (h, y, s)"
| "rs_program os tx (Suc n) prog h y s =
     (case prog (map (as_py tx) h) of None \<Rightarrow> Some (h, y, s)
      | Some q \<Rightarrow> (case rs_serve os q y s of None \<Rightarrow> None
         | Some (r, y1, s1) \<Rightarrow> rs_program os tx n prog (h @ [r]) y1 s1))"

text \<open>A program's messages carry the same timeout for both.\<close>

definition same_timeouts :: "request \<Rightarrow> bool" where
  "same_timeouts q \<longleftrightarrow> (case q of SendMessage ws t d \<Rightarrow> py_millis t = Inr (millis d) | _ \<Rightarrow> True)"

section \<open>The bindings agree\<close>

lemma agree_polls:
  assumes "quiet_py py tx" "same_session x (q_sess q)" "\<not> q_done q" "rs_polls os n q s = (rs, q', s')"
  shows "py_polls os py n x (PyQueued (q_done q)) s = (map (map_sum (py_err tx) id) rs, PyQueued (q_done q'), s') \<and>
    q_sess q' = q_sess q"
  using assms(2-4)
proof (induction n arbitrary: q s rs q' s')
  case (Suc n)
  obtain r q1 s1 where w: "queued_try_wait os q s = (r, q1, s1)" by (metis prod_cases3)
  obtain rs1 q2 s2 where t: "rs_polls os n q1 s1 = (rs1, q2, s2)" by (metis prod_cases3)
  note p = agree_poll [OF assms(1) Suc.prems(1,2) w]
  have head: "map_sum id (map_option py_message_get) (map_sum (py_err tx) py_reply (polled r)) =
      map_sum (py_err tx) id (map_sum id (map_option words) (polled r))"
    by (cases "polled r") (auto simp: py_reply_def py_message_get_def option.map_comp comp_def)
  have tail: "py_polls os py n x (PyQueued (q_done q1)) s1 =
      (map (map_sum (py_err tx) id) rs1, PyQueued (q_done q2), s2) \<and> q_sess q2 = q_sess q1"
  proof (cases "q_done q1")
    case True
    then show ?thesis using t by (cases n) auto
  next
    case False
    then show ?thesis using Suc.IH [OF _ False t] Suc.prems(1) p(2) by (simp add: id_def)
  qed
  show ?case using Suc.prems(2,3) w t p head tail by (auto simp: id_def)
qed simp

lemma agree_uses:
  assumes "quiet_py py tx" "same_session x y" "rs_uses os cs y t s = (rs, f, s')"
  shows "py_uses os py cs x \<lparr>pt_raw = tlb_raw t, pt_freed = False\<rparr> s =
    (map (map_sum (py_err tx) id) rs, map_sum (py_err tx) id f, s')"
  using assms(3)
proof (induction cs arbitrary: t s rs)
  case Nil
  then obtain r s1 where "rs_free os y t s = (r, s1)" "rs = []" "f = r" "s' = s1"
    by (auto split: prod.splits)
  then obtain t' where "py_tlb_free os py (Some x) \<lparr>pt_raw = tlb_raw t, pt_freed = False\<rparr> s =
      (map_sum (py_err tx) id f, t', s')"
    using agree_free [OF assms(1,2)] by metis
  then show ?case using \<open>rs = []\<close> by (simp add: id_def)
next
  case (Cons c cs)
  obtain r t1 s1 where b: "rs_bind os y t c s = (r, t1, s1)" by (metis prod_cases3)
  obtain rs1 f1 s2 where u: "rs_uses os cs y t1 s1 = (rs1, f1, s2)" by (metis prod_cases3)
  have r: "rs = map_sum id (\<lambda>_. ()) r # rs1" "f = f1" "s' = s2" using Cons.prems b u by auto
  have head: "map_sum (py_err tx) (\<lambda>_. ()) z = map_sum (py_err tx) id (map_sum id (\<lambda>_. ()) z)" for z :: "window result"
    by (cases z) simp_all
  have "py_uses os py (c # cs) x \<lparr>pt_raw = tlb_raw t, pt_freed = False\<rparr> s =
      (map_sum (py_err tx) (\<lambda>_. ()) r # map (map_sum (py_err tx) id) rs1, map_sum (py_err tx) id f1, s2)"
    using agree_bind [OF assms(1,2) b] Cons.IH [of t1 s1 rs1] u r(2,3) by (simp add: id_def)
  then show ?case unfolding head r list.map .
qed

text \<open>One request: the same machine left behind, and corresponding results and sessions.\<close>

definition in_step ::
  "(errno_t \<Rightarrow> string) \<Rightarrow> ((py_error + py_error reply) \<times> py_session \<times> 'w mach) option \<Rightarrow>
     ((error + error reply) \<times> session \<times> 'w mach) option \<Rightarrow> bool" where
  "in_step tx p q \<longleftrightarrow>
     (case q of None \<Rightarrow> p = None
      | Some (r, y, s) \<Rightarrow> \<exists>x. p = Some (as_py tx r, x, s) \<and> same_session x y)"

lemma in_step_run:
  assumes "agree_run tx f p q" "\<And>a. g (f a) = map_reply (py_err tx) (h a)"
  shows "in_step tx (map_option (with_reply g) p) (map_option (with_reply h) q)"
proof (cases q)
  case None
  then show ?thesis using assms(1) by (simp add: agree_run_def in_step_def)
next
  case (Some z)
  obtain r y s where z: "z = (r, y, s)" by (metis prod_cases3)
  then show ?thesis
    using assms Some by (cases r) (auto simp: agree_run_def in_step_def with_reply_def as_py_def)
qed

lemma in_step_call:
  assumes "agree_result tx f p q" "same_session x y" "\<And>a. g (f a) = map_reply (py_err tx) (h a)"
  shows "in_step tx (map_option (\<lambda>(r, s1). with_reply g (r, x, s1)) p) (map_option (\<lambda>(r, s1). with_reply h (r, y, s1)) q)"
proof (cases q)
  case None
  then show ?thesis using assms(1) by (simp add: agree_result_def in_step_def)
next
  case (Some z)
  obtain r s where z: "z = (r, s)" by (metis prod.exhaust)
  then show ?thesis
    using assms Some by (cases r) (auto simp: agree_result_def in_step_def with_reply_def as_py_def)
qed

lemma post_in_step:
  assumes "quiet_py py tx" "same_session x y"
  shows "in_step tx (py_serve os py (PostMessage ws n) x s) (rs_serve os (PostMessage ws n) y s)"
proof -
  obtain r s1 where p: "rs_post os (Message ws) y s = (r, s1)" by (metis prod.exhaust)
  note pp = agree_post [OF assms(1,2) p]
  show ?thesis
  proof (cases r)
    case (Inl e)
    then show ?thesis using p pp assms(2) by (simp add: in_step_def as_py_def)
  next
    case (Inr z)
    then have z: "z = \<lparr>q_sess = y, q_done = False\<rparr>" using pp by simp
    obtain rs q1 s2 where l: "rs_polls os n z s1 = (rs, q1, s2)" by (metis prod_cases3)
    have "py_polls os py n x (PyQueued False) s1 = (map (map_sum (py_err tx) id) rs, PyQueued (q_done q1), s2)"
      "q_sess q1 = y"
      using agree_polls [OF assms(1) _ _ l, of x] assms(2) by (simp_all add: z)
    then show ?thesis
      using p pp Inr l assms(2) agree_discard [of x q1 os s2] by (simp add: in_step_def as_py_def)
  qed
qed

lemma window_in_step:
  assumes "quiet_py py tx" "same_session x y"
  shows "in_step tx (py_serve os py (UseWindow sz mode cs) x s) (rs_serve os (UseWindow sz mode cs) y s)"
proof -
  note a = agree_alloc [OF assms(1,2), of os sz mode s]
  show ?thesis
  proof (cases "rs_alloc os (rust_size sz) (rust_caching mode) y s")
    case None
    then show ?thesis using a by (simp add: agree_run_def in_step_def)
  next
    case (Some z)
    obtain r y1 s1 where z: "z = (r, y1, s1)" by (metis prod_cases3)
    then obtain x1 where x1: "py_alloc os py sz mode x s =
        Some (map_sum (py_err tx) (\<lambda>t. \<lparr>pt_raw = tlb_raw t, pt_freed = False\<rparr>) r, x1, s1)" "same_session x1 y1"
      using a Some by (auto simp: agree_run_def)
    show ?thesis
    proof (cases r)
      case (Inl e)
      then show ?thesis using Some z x1 by (simp add: in_step_def as_py_def)
    next
      case (Inr t)
      obtain rs f s2 where u: "rs_uses os cs y1 t s1 = (rs, f, s2)" by (metis prod_cases3)
      show ?thesis
        using Some z x1 Inr u agree_uses [OF assms(1) x1(2) u] by (simp add: in_step_def as_py_def)
    qed
  qed
qed

lemma serve_in_step:
  assumes "quiet_py py tx" "same_session x y" "same_timeouts q"
  shows "in_step tx (py_serve os py q x s) (rs_serve os q y s)"
proof (cases q)
  case GetInfo
  show ?thesis unfolding GetInfo py_serve.simps rs_serve.simps
    by (rule in_step_run [OF agree_info [OF assms(1,2)]]) simp
next
  case (SetPower f)
  show ?thesis unfolding SetPower py_serve.simps rs_serve.simps
    by (rule in_step_run [OF agree_power [OF assms(1,2)]]) simp
next
  case ReadTelemetry
  show ?thesis unfolding ReadTelemetry py_serve.simps rs_serve.simps
    by (rule in_step_run [OF agree_telemetry [OF assms(1,2)]]) simp
next
  case (SendMessage ws t d)
  then have "py_millis t = Inr (millis d)" using assms(3) by (simp add: same_timeouts_def)
  then show ?thesis unfolding SendMessage py_serve.simps rs_serve.simps
    by (intro in_step_call [OF agree_call [OF assms(1,2)] assms(2)]) simp_all
next
  case (PostMessage ws n)
  show ?thesis unfolding PostMessage by (rule post_in_step [OF assms(1,2)])
next
  case (UseWindow sz mode cs)
  show ?thesis unfolding UseWindow by (rule window_in_step [OF assms(1,2)])
next
  case ReopenSession
  obtain r y1 s1 where o: "reopen os y s = (r, y1, s1)" by (metis prod_cases3)
  then obtain x1 where "py_reopen os py x s = (map_sum (py_err tx) id r, x1, s1)" "same_session x1 y1"
    using agree_reopen [OF assms(1,2) o] by blast
  then show ?thesis using ReopenSession o by (cases r) (simp_all add: in_step_def as_py_def with_reply_def)
qed

lemma programs_alike:
  assumes "quiet_py py tx" "same_session x y" "\<And>h q. prog h = Some q \<Longrightarrow> same_timeouts q"
  shows "case rs_program os tx n prog h y s of
      None \<Rightarrow> py_program os py n prog (map (as_py tx) h) x s = None
    | Some (h', y', s') \<Rightarrow> \<exists>x'. py_program os py n prog (map (as_py tx) h) x s = Some (map (as_py tx) h', x', s') \<and>
        same_session x' y'"
  using assms(2)
proof (induction n arbitrary: h x y s)
  case (Suc n)
  show ?case
  proof (cases "prog (map (as_py tx) h)")
    case None
    then show ?thesis using Suc.prems by simp
  next
    case (Some q)
    have st: "in_step tx (py_serve os py q x s) (rs_serve os q y s)"
      by (rule serve_in_step [OF assms(1) Suc.prems assms(3) [OF Some]])
    show ?thesis
    proof (cases "rs_serve os q y s")
      case None
      then show ?thesis using st Some by (simp add: in_step_def)
    next
      case (Some z)
      obtain r y1 s1 where z: "z = (r, y1, s1)" by (metis prod_cases3)
      then obtain x1 where x1: "py_serve os py q x s = Some (as_py tx r, x1, s1)" "same_session x1 y1"
        using st Some by (auto simp: in_step_def)
      show ?thesis
        using Suc.IH [OF x1(2), of "h @ [r]" s1] Some z x1(1) \<open>prog (map (as_py tx) h) = Some q\<close>
        by (cases "rs_program os tx n prog (h @ [r]) y1 s1") auto
    qed
  qed
qed simp


text \<open>The witness's program posts a message, polls for it, and then asks for power.\<close>

definition stub_program :: program where
  "stub_program h = (if h = [] then Some (PostMessage [1, 2, 3, 4, 5, 6, 7, 8] (Suc (Suc 0))) else if tl h = [] then Some (SetPower PyHI) else None)"


end
