(* ===== verification/Tidy.thy ===== *)
theory Tidy
  imports RsLife PyLife Lockstep
begin

text \<open>
  What a whole program leaves behind: the programs of \<open>Lockstep\<close>, from the opening of their session to its
  drop, with every resource of the C library in one account: descriptors, mappings, windows and the
  fault guard.
\<close>

section \<open>Calls that touch no window\<close>

definition plain_ev :: "event \<Rightarrow> bool" where
  "plain_ev e \<longleftrightarrow>
     (case e of EvMmap f n off r \<Rightarrow> False | EvMunmap p n r \<Rightarrow> False
      | EvIoctl f i r \<Rightarrow> (case i of IoAllocTlb n \<Rightarrow> r \<noteq> 0 | IoFreeTlb n \<Rightarrow> False | _ \<Rightarrow> True)
      | _ \<Rightarrow> True)"

definition plain :: "'w mach \<Rightarrow> 'w mach \<Rightarrow> bool" where
  "plain s s' \<longleftrightarrow> extends s s' \<and> (\<forall>e \<in> set (since s s'). plain_ev e) \<and> armed_ptr s' = armed_ptr s"

text \<open>Between \<open>s\<close> and \<open>s'\<close> every window allocated was freed and every mapping removed.\<close>

definition tidy :: "'w mach \<Rightarrow> 'w mach \<Rightarrow> bool" where
  "tidy s s' \<longleftrightarrow> extends s s' \<and> allocs (since s s') = frees (since s s') \<and>
     mset (mapped (since s s')) = mset (unmapped (since s s')) \<and> armed_ptr s' \<in> {0, armed_ptr s}"

lemma plain_refl [simp]: "plain s s"
  by (simp add: plain_def)

lemma plain_errno [simp]: "plain s (s'\<lparr>errno := e\<rparr>) = plain s s'" "plain (s\<lparr>errno := e\<rparr>) s' = plain s s'"
  by (simp_all add: plain_def)

lemma plain_trans: "plain s t \<Longrightarrow> plain t u \<Longrightarrow> plain s u"
  unfolding plain_def using extends_trans since_trans by (metis (no_types, lifting) Un_iff set_append)

lemma tidy_refl [simp]: "tidy s s"
  by (simp add: tidy_def)

lemma tidy_trans: "tidy s t \<Longrightarrow> tidy t u \<Longrightarrow> tidy s u"
  unfolding tidy_def using extends_trans [of s t u] since_trans [of s t u] by auto

lemma plain_events:
  assumes "\<forall>e \<in> set es. plain_ev e"
  shows "allocs es = 0 \<and> frees es = 0 \<and> mapped es = [] \<and> unmapped es = []"
  using assms by (induction es) (auto simp: plain_ev_def split: event.splits ioctl.splits)

lemma plain_tidy: "plain s s' \<Longrightarrow> tidy s s'"
  by (simp add: plain_def tidy_def plain_events)

lemma call_run:
  "call f ev s = (r, s') \<Longrightarrow> trace s' = trace s @ [ev r] \<and> armed_ptr s' = armed_ptr s"
  by (simp add: call_trace call_trap)

lemma call_plain: "call f ev s = (r, s') \<Longrightarrow> plain_ev (ev r) \<Longrightarrow> plain s s'"
  by (auto simp: plain_def since_eq extendsI dest!: call_run)

section \<open>The C operations\<close>

lemma info_plain: "tt_dev_info os (Some ss) (Some i) s = (rc, x, s') \<Longrightarrow> plain s s'"
  by (auto simp: tt_dev_info_def plain_def plain_ev_def since_eq extendsI split: prod.splits if_splits dest!: call_run)

lemma power_plain: "tt_power os (Some ss) fl s = (rc, s') \<Longrightarrow> plain s s'"
  by (auto simp: tt_power_def plain_def plain_ev_def since_eq extendsI split: prod.splits if_splits dest!: call_run)

lemma open_plain: "tt_open os (Some d) sess fl s = (rc, x, s') \<Longrightarrow> plain s s'"
  by (auto simp: tt_open_def plain_def plain_ev_def since_eq extendsI split: option.splits prod.splits if_splits dest!: call_run)

lemma close_plain: "tt_close os (Some ss) s = (rc, x, s') \<Longrightarrow> plain s s' \<and> x \<noteq> None"
  by (auto simp: tt_close_def plain_def plain_ev_def since_eq extendsI split: prod.splits if_splits dest!: call_run)

lemma reopen_plain:
  assumes "reopen os y s = (r, y', s')"
  shows "plain s s'"
proof -
  obtain c raw s1 where c: "tt_close os (Some (ss_raw y)) s = (c, raw, s1)" by (metis prod_cases3)
  then obtain ss where raw: "raw = Some ss" "plain s s1" using close_plain [OF c] by auto
  then obtain rc x where "tt_open os (Some (sess_dev ss)) (Some ss) (sess_flags ss) s1 = (rc, x, s')"
    using assms c by (auto simp: reopen_def tt_reopen_def split: prod.splits)
  then show ?thesis using plain_trans [OF raw(2) open_plain] by blast
qed

lemma post_plain: "tt_smc_post os (Some ss) (Some m) s = (rc, s') \<Longrightarrow> plain s s'"
  by (auto simp: tt_smc_post_def plain_def plain_ev_def since_eq extendsI split: prod.splits if_splits dest!: call_run)

lemma poll_plain: "tt_smc_poll os (Some ss) rsp s = (rc, x, s') \<Longrightarrow> plain s s'"
  by (auto simp: tt_smc_poll_def plain_def plain_ev_def since_eq extendsI
      split: option.splits prod.splits if_splits dest!: call_run)

lemma smc_drop_plain: "tt_smc_drop os (Some ss) s = (rc, s') \<Longrightarrow> plain s s'"
  by (auto simp: tt_smc_drop_def plain_def plain_ev_def since_eq extendsI split: prod.splits if_splits dest!: call_run)

lemma elapsed_plain: "elapsed_ms os start s = (ms, s') \<Longrightarrow> plain s s'"
  by (auto simp: elapsed_ms_def plain_ev_def split: prod.splits dest!: call_plain)

lemma wait_loop_plain:
  assumes "smc_wait_loop os ss budget start spins rsp s = Some x"
  shows "plain s (snd (snd x))"
  using assms
proof (induction rule: smc_wait_induct)
  case (step loop os ss budget start spins rsp s x)
  obtain rc rsp1 s1 where p: "tt_smc_poll os (Some ss) rsp s = (rc, rsp1, s1)" by (metis prod_cases3)
  obtain ms s2 where e: "elapsed_ms os start s1 = (ms, s2)" by (metis prod.exhaust)
  have u: "plain s2 (snd (k_usleep os n s2))" for n
    by (cases "k_usleep os n s2") (auto simp: plain_ev_def dest!: call_plain)
  have 2: "plain s s1" "plain s s2"
    using plain_trans [OF poll_plain [OF p] elapsed_plain [OF e]] poll_plain [OF p] by auto
  let ?s3 = "if spins \<ge> SPIN_POLLS then snd (k_usleep os POLL_INTERVAL_US s2) else s2"
  show ?case
  proof (cases "rc = TT_OK \<or> errno s1 \<noteq> EAGAIN \<or> ms \<ge> budget")
    case True
    then have "snd (snd x) = s1 \<or> snd (snd x) = s2\<lparr>errno := ETIMEDOUT\<rparr>"
      using step(2) p e by (cases "rc = TT_OK"; cases "errno s1 = EAGAIN") (auto simp: out_def tt_fail_def)
    then show ?thesis using 2 by auto
  next
    case False
    have u3: "plain s ?s3" using 2(2) plain_trans [OF 2(2) u] by simp
    have "loop os ss budget start (spins + 1) rsp1 ?s3 = Some x" using step(2) p e False by simp
    from plain_trans [OF u3 step(1) [OF this]] show ?thesis .
  qed
qed

lemma wait_plain:
  assumes "tt_smc_wait os (Some ss) (Some m) timeout s = Some (rc, x, s')"
  shows "plain s s'"
proof (cases "sess_fd ss < 0")
  case True
  then show ?thesis using assms by (auto simp: tt_smc_wait_def)
next
  case False
  obtain start s1 where c: "k_clock os s = (start, s1)" by (metis prod.exhaust)
  have "plain s s1" using c by (rule call_plain) (simp add: plain_ev_def)
  moreover obtain b where "smc_wait_loop os ss b start 0 (Some m) s1 = Some (rc, x, s')"
    using assms False c by (auto simp: tt_smc_wait_def Let_def simp del: ucast_id)
  from wait_loop_plain [OF this] have "plain s1 s'" by simp
  ultimately show ?thesis by (rule plain_trans)
qed

lemma call_plain_smc:
  assumes "tt_smc_call os (Some ss) (Some m) (Some r0) timeout s = Some (rc, x, s')"
  shows "plain s s'"
  using assms
  by (auto simp: tt_smc_call_def out_def Let_def split: option.splits prod.splits if_splits
      dest!: post_plain wait_plain smc_drop_plain intro: plain_trans)

section \<open>Runs with retries\<close>

lemma reopen_again_plain: "reopen_again os y s = (e, y', s') \<Longrightarrow> plain s s'"
  by (auto simp: reopen_again_def split: prod.splits sum.splits dest: reopen_plain)

interpretation rs_plain: performing_account "perform_loop os" "\<lambda>r m. is_err_lost r" "reopen_again os"
    "\<lambda>m. (Inl (Os ENODEV), m)" "perform os" "\<lambda>x. oo_persist (ss_opts x)" RETRIES "\<lambda>_ s _ t. plain s t" True
  for os :: "'w os"
  by unfold_locales (auto dest: reopen_again_plain plain_trans)

interpretation rs_tidy: performing_account "perform_loop os" "\<lambda>r m. is_err_lost r" "reopen_again os"
    "\<lambda>m. (Inl (Os ENODEV), m)" "perform os" "\<lambda>x. oo_persist (ss_opts x)" RETRIES "\<lambda>_ s _ t. tidy s t" True
  for os :: "'w os"
  by unfold_locales (auto dest: reopen_again_plain plain_tidy tidy_trans)

text \<open>An operation whose failures touch no window: neither does any run of it but a successful last one.\<close>

lemma perform_plain:
  assumes "perform os op y s = Some (r, y', s')" "\<And>y s e s'. op y s = Some (Inl e, s') \<Longrightarrow> plain s s'"
  shows "if isl r then plain s s' else \<exists>t. plain s t \<and> op y' t = Some (r, s')"
proof -
  have "if \<not> isl r then \<exists>u. plain s u \<and> op y' u = Some (r, s') else plain s s'"
    by (rule rs_plain.perform_settles [where good = "\<lambda>r. \<not> isl r", OF assms(1) TrueI])
      (use assms(2) in \<open>auto simp: isl_def is_err_lost_def reopen_again_def split: prod.splits sum.splits\<close>)
  then show ?thesis by simp
qed

section \<open>The requests of a program\<close>

lemma frees_ioctls: "frees es = length (filter (\<lambda>p. \<exists>i. snd p = IoFreeTlb i) (ioctls es))"
  by (induction es) (auto split: event.splits)

lemma allocs_ioctls: "allocs es \<le> length (filter (\<lambda>p. \<exists>n. snd p = IoAllocTlb n) (ioctls es))"
  by (induction es) (auto split: event.splits)

lemma bind_free_armed:
  "tt_tlb_bind os (Some ss) (Some t) (Some c) s = (rc, x, s') \<Longrightarrow> armed_ptr s' = armed_ptr s"
  "tt_tlb_free os (Some ss) (Some t) s = (rc, x, s') \<Longrightarrow> armed_ptr s' = armed_ptr s"
  by (auto simp: tt_tlb_bind_def tt_tlb_free_def bind_cleanup_def Let_def split: prod.splits if_splits dest!: call_run)

text \<open>A window from its allocation: after it is freed, what the allocation owed is paid.\<close>

lemma uses_pay:
  assumes "mapping_calls os" "0 \<le> sess_fd (ss_raw y)" "rs_uses os cs y t s = (rs, f, s')"
  shows "extends s s' \<and> allocs (since s s') = 0 \<and> frees (since s s') = 1 \<and>
    mset (mapped (since s s')) + held (tlb_raw t) = mset (unmapped (since s s')) \<and> armed_ptr s' = armed_ptr s"
  using assms(3)
proof (induction cs arbitrary: t s rs)
  case Nil
  then have r: "rs_free os y t s = (f, s')" by (auto split: prod.splits)
  then have d: "s' = rs_tlb_drop os y t s" by (simp add: rs_tlb_drop_def)
  note st = rs_drop_step [OF assms(1,2), of s t, folded d]
  have "allocs (since s s') = 0" using allocs_ioctls [of "since s s'"] st(2) by simp
  moreover have "armed_ptr s' = armed_ptr s"
    using r by (auto simp: rs_free_def split: prod.splits dest: bind_free_armed(2))
  ultimately show ?case using st by (simp add: frees_ioctls)
next
  case (Cons c cs)
  obtain r t1 s1 where b: "rs_bind os y t c s = (r, t1, s1)" by (metis prod_cases3)
  obtain rs1 f1 s2 where u: "rs_uses os cs y t1 s1 = (rs1, f1, s2)" by (metis prod_cases3)
  then have e: "f1 = f" "s2 = s'" using Cons.prems b by auto
  note st = rs_bind_step [OF assms(1) b]
  have "filter (\<lambda>p. \<exists>n. snd p = IoAllocTlb n) (ioctls (since s s1)) = []"
    "filter (\<lambda>p. \<exists>n. snd p = IoFreeTlb n) (ioctls (since s s1)) = []"
    using st(4) by (auto simp: filter_empty_conv)
  then have z: "allocs (since s s1) = 0" "frees (since s s1) = 0"
    using allocs_ioctls [of "since s s1"] by (simp_all add: frees_ioctls)
  have a: "armed_ptr s1 = armed_ptr s"
    using b by (auto simp: rs_bind_def Let_def split: prod.splits dest: bind_free_armed(1))
  note ih = Cons.IH [OF u [unfolded e]]
  have "mset (mapped (since s s1)) + mset (mapped (since s1 s')) + held (tlb_raw t) =
      mset (mapped (since s1 s')) + (mset (mapped (since s s1)) + held (tlb_raw t))"
    by (simp only: ac_simps)
  also have "\<dots> = mset (unmapped (since s s1)) + (mset (mapped (since s1 s')) + held (tlb_raw t1))"
    unfolding st(5) by (simp only: ac_simps)
  also have "\<dots> = mset (unmapped (since s s1)) + mset (unmapped (since s1 s'))"
    using ih by simp
  finally have "mset (mapped (since s s1)) + mset (mapped (since s1 s')) + held (tlb_raw t) =
      mset (unmapped (since s s1)) + mset (unmapped (since s1 s'))" .
  moreover have "extends s s'" "since s s' = since s s1 @ since s1 s'"
    using ih extends_trans [OF st(1)] since_trans [OF st(1)] by blast+
  ultimately show ?case using ih z a by simp
qed

lemma alloc_owes:
  assumes "rs_alloc os sz mode y s = Some (r, y', s')"
  shows "case r of Inl e \<Rightarrow> plain s s'
    | Inr t \<Rightarrow> 0 \<le> sess_fd (ss_raw y') \<and> held (tlb_raw t) = {#} \<and> extends s s' \<and> allocs (since s s') = 1 \<and>
        frees (since s s') = 0 \<and> mapped (since s s') = [] \<and> unmapped (since s s') = [] \<and> armed_ptr s' = armed_ptr s"
proof -
  let ?op = "\<lambda>sess s. Some (checked (tt_tlb_alloc os (session_ptr sess) (size_raw sz) (caching_raw mode) (Some uninit_tlb) s))"
  have mode: "caching_raw mode = TT_TLB_UC \<or> caching_raw mode = TT_TLB_WC" by (cases mode) simp_all
  have run: "plain s s'" if "tt_tlb_alloc os (Some ss) (size_raw sz) (caching_raw mode) (Some uninit_tlb) s = (rc, x, s')"
    "rc \<noteq> TT_OK" for ss s rc x s'
    using that mode
    by (auto simp: tt_tlb_alloc_def plain_def plain_ev_def since_eq extendsI split: prod.splits if_splits dest!: call_run)
  have fails: "plain s s'" if "?op x s = Some (Inl e, s')" for x s e s'
  proof -
    obtain rc z t where a: "tt_tlb_alloc os (Some (ss_raw x)) (size_raw sz) (caching_raw mode) (Some uninit_tlb) s = (rc, z, t)"
      by (metis prod_cases3)
    then have "rc \<noteq> TT_OK \<and> t = s'" using that by (cases "rc = 0") auto
    then show ?thesis using run [OF a] by simp
  qed
  obtain r0 where p: "perform os ?op y s = Some (r0, y', s')" and r: "r = map_sum id RsTlb r0"
    using assms by (auto simp: rs_alloc_def split: option.splits)
  have last: "if isl r0 then plain s s' else \<exists>t. plain s t \<and> ?op y' t = Some (r0, s')"
    by (rule perform_plain [OF p fails])
  show ?thesis
  proof (cases r0)
    case (Inl e)
    then show ?thesis using last r by simp
  next
    case (Inr raw)
    then obtain u where u: "plain s u" "?op y' u = Some (Inr raw, s')" using last by auto
    obtain rc z t where a: "tt_tlb_alloc os (Some (ss_raw y')) (size_raw sz) (caching_raw mode) (Some uninit_tlb) u = (rc, z, t)"
      by (metis prod_cases3)
    then have ok: "rc = 0" "t = s'" "raw = the z" using u(2) by (cases "rc = 0"; auto)+
    note st = alloc_step [OF a [unfolded ok]]
    have "armed_ptr s' = armed_ptr u"
      using a ok mode by (auto simp: tt_tlb_alloc_def split: prod.splits if_splits dest!: call_run)
    moreover have "extends u s'"
      using a ok mode by (auto simp: tt_tlb_alloc_def extendsI split: prod.splits if_splits dest!: call_run)
    ultimately show ?thesis
      using st ok(3) u(1) r Inr plain_events [of "since s u"] extends_trans [of s u s'] since_trans [of s u s']
      by (auto simp: plain_def held_def)
  qed
qed

lemma telem_tidy:
  assumes "mapping_calls os" "window_calls os" "telem_op os y s = Some (r, s')"
  shows "tidy s s'"
proof -
  obtain rc tb where "tt_telemetry os (Some (ss_raw y)) (Some (replicate TT_TELEMETRY_LEN 0)) s = Some (rc, tb, s')"
    using assms(3) by (auto simp: telem_op_def checked_def split: option.splits prod.splits)
  then show ?thesis
    using tt_telemetry_settled [OF assms(1,2), of s "ss_raw y" "replicate TT_TELEMETRY_LEN 0"]
    by (auto simp: settled_def owes_def held_def tidy_def)
qed

lemma polls_plain:
  "rs_polls os n q s = (rs, q', s') \<Longrightarrow> plain s s' \<and> q_sess q' = q_sess q"
proof (induction n arbitrary: q s rs q' s')
  case (Suc n)
  show ?case
  proof (cases "q_done q")
    case True
    then show ?thesis using Suc.prems by simp
  next
    case False
    obtain r q1 s1 where w: "queued_try_wait os q s = (r, q1, s1)" by (metis prod_cases3)
    obtain rs1 q2 s2 where t: "rs_polls os n q1 s1 = (rs1, q2, s2)" by (metis prod_cases3)
    have "plain s s1" "q_sess q1 = q_sess q"
      using w by (auto simp: queued_try_wait_def settle_def Let_def split: prod.splits dest: poll_plain)
    then show ?thesis using Suc.IH [OF t] Suc.prems False w t by (auto intro: plain_trans)
  qed
qed simp

lemma queued_drop_plain: "plain s (queued_drop os q s)"
  by (cases "tt_smc_drop os (Some (ss_raw (q_sess q))) s") (auto simp: queued_drop_def dest: smc_drop_plain)

text \<open>Every request, whichever way it ends, is tidy.\<close>

lemma post_tidy:
  assumes "rs_serve os (PostMessage ws n) y s = Some (r, y', s')"
  shows "tidy s s'"
proof -
  obtain r0 s1 where p: "rs_post os (Message ws) y s = (r0, s1)" by (metis prod.exhaust)
  have 1: "plain s s1"
    using p by (auto simp: rs_post_def queued_post_def split: prod.splits dest: post_plain)
  show ?thesis
  proof (cases r0)
    case (Inl e)
    then show ?thesis using assms p 1 by (auto intro: plain_tidy)
  next
    case (Inr z)
    obtain rs q1 s2 where l: "rs_polls os n z s1 = (rs, q1, s2)" by (metis prod_cases3)
    have "s' = queued_drop os q1 s2" using assms p Inr l by simp
    then have "plain s2 s'" using queued_drop_plain by simp
    then show ?thesis using plain_trans [OF plain_trans [OF 1]] polls_plain [OF l] plain_tidy by blast
  qed
qed

lemma window_tidy:
  assumes "mapping_calls os" "rs_serve os (UseWindow sz mode cs) y s = Some (r, y', s')"
  shows "tidy s s'"
proof -
  obtain r0 y1 s1 where a: "rs_alloc os (rust_size sz) (rust_caching mode) y s = Some (r0, y1, s1)"
    using assms(2) by (auto split: option.splits)
  note al = alloc_owes [OF a]
  show ?thesis
  proof (cases r0)
    case (Inl e)
    then show ?thesis using assms(2) a al by (auto intro: plain_tidy)
  next
    case (Inr t)
    obtain rs f s2 where u: "rs_uses os cs y1 t s1 = (rs, f, s2)" by (metis prod_cases3)
    have s': "s2 = s'" using assms(2) a Inr u by simp
    have al: "0 \<le> sess_fd (ss_raw y1)" "held (tlb_raw t) = {#}" "extends s s1" "allocs (since s s1) = 1"
      "frees (since s s1) = 0" "mapped (since s s1) = []" "unmapped (since s s1) = []" "armed_ptr s1 = armed_ptr s"
      using al Inr by simp_all
    note us = uses_pay [OF assms(1) al(1) u, unfolded s']
    then have "extends s s'" "since s s' = since s s1 @ since s1 s'"
      using extends_trans [OF al(3)] since_trans [OF al(3)] by blast+
    then show ?thesis using al us by (simp add: tidy_def)
  qed
qed

lemma serve_tidy:
  assumes "mapping_calls os" "window_calls os" "rs_serve os q y s = Some (r, y', s')"
  shows "tidy s s'"
proof (cases q)
  case GetInfo
  then obtain r0 where "session_info os y s = Some (r0, y', s')"
    using assms(3) by (auto simp: with_reply_def split: prod.splits)
  then show ?thesis
    unfolding session_info_def
    by (rule rs_tidy.perform_keeps) (auto simp: checked_def split: prod.splits dest: info_plain intro: plain_tidy)
next
  case (SetPower f)
  then obtain r0 where "rs_power os (FlagSet (py_bits f)) y s = Some (r0, y', s')"
    using assms(3) by (auto simp: with_reply_def split: prod.splits)
  then show ?thesis
    unfolding rs_power_def
    by (rule rs_tidy.perform_keeps) (auto simp: power_op_def Let_def split: prod.splits dest: power_plain intro: plain_tidy)
next
  case ReadTelemetry
  then obtain r0 where "rs_telemetry os y s = Some (r0, y', s')"
    using assms(3) by (auto simp: with_reply_def split: prod.splits)
  then show ?thesis
    unfolding rs_telemetry_def by (rule rs_tidy.perform_keeps [OF _ TrueI]) (rule telem_tidy [OF assms(1,2)])
next
  case (SendMessage ws t d)
  then obtain r0 where "rs_call os (Message ws) d y s = Some (r0, s')"
    using assms(3) by (auto simp: with_reply_def split: prod.splits)
  then show ?thesis
    by (auto simp: rs_call_def split: option.splits prod.splits dest: call_plain_smc intro: plain_tidy)
next
  case (PostMessage ws n)
  then show ?thesis using assms(3) post_tidy by blast
next
  case (UseWindow sz mode cs)
  then show ?thesis using assms(1,3) window_tidy by blast
next
  case ReopenSession
  then obtain r0 where "reopen os y s = (r0, y', s')"
    using assms(3) by (auto simp: with_reply_def split: prod.splits)
  then show ?thesis by (intro plain_tidy reopen_plain)
qed

section \<open>Descriptors and termination\<close>

lemma polls_fds:
  assumes "keeps_time os now" "rs_polls os n q s = (rs, q', s')"
  shows "fd_books (q_sess q) s (q_sess q) s' \<and> q_sess q' = q_sess q"
  using assms(2)
proof (induction n arbitrary: q s rs q' s')
  case (Suc n)
  show ?case
  proof (cases "q_done q")
    case True
    then show ?thesis using Suc.prems by simp
  next
    case False
    obtain r q1 s1 where w: "queued_try_wait os q s = (r, q1, s1)" by (metis prod_cases3)
    obtain rs1 q2 s2 where t: "rs_polls os n q1 s1 = (rs1, q2, s2)" by (metis prod_cases3)
    have "fd_books (q_sess q) s (q_sess q) s1" by (rule smc_steps(4) [OF assms(1) refl w])
    moreover have "q_sess q1 = q_sess q"
      using w by (auto simp: queued_try_wait_def settle_def Let_def split: prod.splits)
    ultimately show ?thesis using Suc.IH [OF t] Suc.prems False w t by (auto intro: fd_books_trans)
  qed
qed simp

lemma uses_fds: "rs_uses os cs y t s = (rs, f, s') \<Longrightarrow> fd_books y s y s'"
proof (induction cs arbitrary: t s rs)
  case Nil
  then show ?case by (auto split: prod.splits dest: tlb_steps(2))
next
  case (Cons c cs)
  obtain r t1 s1 where b: "rs_bind os y t c s = (r, t1, s1)" by (metis prod_cases3)
  obtain rs1 f1 s2 where u: "rs_uses os cs y t1 s1 = (rs1, f1, s2)" by (metis prod_cases3)
  show ?case using fd_books_trans [OF tlb_steps(1) [OF b]] Cons u b by auto
qed

lemma serve_fds:
  assumes "sane os now" "rs_serve os q y s = Some (r, y', s')"
  shows "fd_books y s y' s'"
proof -
  have os: "closes os" "keeps_time os now" using assms(1) by (auto simp: sane_def)
  note ps = perform_steps [OF assms(1)] and ms = smc_steps [OF os(2)]
  show ?thesis
  proof (cases q)
    case (PostMessage ws n)
    obtain r0 s1 where p: "rs_post os (Message ws) y s = (r0, s1)" by (metis prod.exhaust)
    note 1 = ms(2) [OF p]
    show ?thesis
    proof (cases r0)
      case (Inl e)
      then show ?thesis using assms(2) PostMessage p 1 by auto
    next
      case (Inr z)
      obtain rs q1 s2 where l: "rs_polls os n z s1 = (rs, q1, s2)" by (metis prod_cases3)
      have z: "q_sess z = y"
        using p Inr by (auto simp: rs_post_def queued_post_def map_sum_def split: prod.splits sum.splits)
      then have "fd_books y s1 y s2" "q_sess q1 = y" using polls_fds [OF os(2) l] by auto
      moreover have "fd_books y s2 y (queued_drop os q1 s2)" by (rule ms(5)) fact
      moreover have "s' = queued_drop os q1 s2" "y' = y" using assms(2) PostMessage p Inr l by simp_all
      ultimately show ?thesis using fd_books_trans [OF fd_books_trans [OF 1]] by blast
    qed
  next
    case (UseWindow sz mode cs)
    obtain r0 y1 s1 where a: "rs_alloc os (rust_size sz) (rust_caching mode) y s = Some (r0, y1, s1)"
      using assms(2) UseWindow by (auto split: option.splits)
    show ?thesis
      using assms(2) UseWindow a ps(5) [OF a] fd_books_trans [OF ps(5) [OF a] uses_fds]
      by (auto split: sum.splits prod.splits)
  qed (use assms(2) in \<open>auto simp: with_reply_def split: prod.splits intro: ps ms reopen_books [OF os(1)]\<close>)
qed

lemma serve_total:
  assumes "sane os now"
  shows "rs_serve os q y s \<noteq> None"
proof -
  have os: "mapping_calls os" "window_calls os" "keeps_time os now" using assms by (auto simp: sane_def)
  show ?thesis
  proof (cases q)
    case GetInfo
    then show ?thesis
      using perform_total [of "\<lambda>sess s. Some (checked (tt_dev_info os (session_ptr sess)
        (Some (blank_info\<lparr>di_output_size_bytes := info_size\<rparr>)) s))" os y s]
      by (auto simp: session_info_def)
  next
    case (SetPower f)
    have "power_op os (FlagSet (py_bits f)) x u \<noteq> None" for x u
      by (auto simp: power_op_def Let_def split: prod.splits)
    then show ?thesis
      using perform_total [of "power_op os (FlagSet (py_bits f))" os y s] SetPower by (auto simp: rs_power_def)
  next
    case ReadTelemetry
    then show ?thesis
      using perform_total [of "telem_op os" os y s] telem_op_total [OF os(1,2)] by (auto simp: rs_telemetry_def)
  next
    case (SendMessage ws t d)
    then show ?thesis
      using call_requests [OF os(3), of "ss_raw y" ws "replicate 8 0" "millis d" s] by (auto simp: rs_call_def)
  next
    case (PostMessage ws n)
    then show ?thesis by (auto split: prod.splits sum.splits)
  next
    case (UseWindow sz mode cs)
    then show ?thesis
      using perform_total [of "\<lambda>sess s. Some (checked (tt_tlb_alloc os (session_ptr sess)
          (size_raw (rust_size sz)) (caching_raw (rust_caching mode)) (Some uninit_tlb) s))" os y s]
      by (auto simp: rs_alloc_def split: prod.splits sum.splits)
  qed simp
qed

lemma program_runs:
  assumes "sane os now"
  shows "\<exists>h' y' s'. rs_program os tx n prog h y s = Some (h', y', s') \<and> fd_books y s y' s' \<and> tidy s s'"
proof (induction n arbitrary: h y s)
  case (Suc n)
  have os: "mapping_calls os" "window_calls os" using assms by (auto simp: sane_def)
  show ?case
  proof (cases "prog (map (as_py tx) h)")
    case None
    then show ?thesis by simp
  next
    case (Some q)
    obtain r y1 s1 where v: "rs_serve os q y s = Some (r, y1, s1)"
      using serve_total [OF assms, of q y s] by auto
    obtain h' y' s' where t: "rs_program os tx n prog (h @ [r]) y1 s1 = Some (h', y', s')"
      "fd_books y1 s1 y' s'" "tidy s1 s'" using Suc.IH by blast
    show ?thesis
      using Some v t fd_books_trans [OF serve_fds [OF assms v] t(2)] tidy_trans [OF serve_tidy [OF os v] t(3)]
      by simp
  qed
qed simp

section \<open>What a program leaves behind\<close>

lemma session_drop_plain: "plain s (session_drop os y s)"
proof -
  obtain rc raw s' where "tt_close os (Some (ss_raw y)) s = (rc, raw, s')" by (metis prod_cases3)
  with close_plain [OF this] show ?thesis by (simp add: session_drop_def session_close_def)
qed

lemma program_leaves:
  assumes "sane os now" "options_open os opts dev s0 = (Inr y, s1)"
  shows "\<exists>h y' s2. rs_program os tx n prog [] y s1 = Some (h, y', s2) \<and> tidy s0 (session_drop os y' s2) \<and>
    mset (opened (since s0 (session_drop os y' s2))) = mset (Err.closed (since s0 (session_drop os y' s2)))"
proof -
  obtain h y' s2 where run: "rs_program os tx n prog [] y s1 = Some (h, y', s2)" "fd_books y s1 y' s2" "tidy s1 s2"
    using program_runs [OF assms(1)] by blast
  have cl: "closes os" using assms(1) by (simp add: sane_def)
  obtain oflags f where ev: "since s0 s1 = [EvOpen (dev_path (device_raw dev)) oflags f]"
    and r: "if f < 0 then (Inr y :: session result) \<in> {Inl (Os EAGAIN), Inl (Os ENODEV)}
      else \<exists>sess. (Inr y :: session result) = Inr sess \<and> session_dev sess = dev \<and> ss_opts sess = opts \<and>
        sess_fd (ss_raw sess) = f"
    using options_open_run [OF assms(2)] by (elim exE conjE) (rule that)
  then have f: "0 \<le> f" "sess_fd (ss_raw y) = f" by (auto split: if_splits)
  obtain rc raw where "tt_open os (device_as_ptr dev) (Some \<lparr>sess_dev = uninit_device, sess_fd = 0, sess_flags = 0\<rparr>)
      (options_flags opts) s0 = (rc, raw, s1)"
    using assms(2) by (auto simp: options_open_def checked_def split: prod.splits)
  then have p: "plain s0 s1" by (rule open_plain)
  let ?s3 = "session_drop os y' s2"
  have "tidy s0 ?s3"
    using tidy_trans [OF tidy_trans [OF plain_tidy [OF p] run(3)] plain_tidy [OF session_drop_plain]] .
  moreover have "mset (opened (since s0 ?s3)) = mset (Err.closed (since s0 ?s3))"
  proof -
    have e: "extends s0 s1" "extends s1 s2" using p run(2) by (simp_all add: plain_def fd_books_def)
    note d = drop_books [OF cl, of s2 y']
    note t1 = trace_trans [OF e]
    note t2 = trace_trans [OF t1(1) d(1)]
    have "mset (opened (since s1 s2)) + {#f#} = mset (Err.closed (since s1 s2)) + holds y'"
      using run(2) f by (simp add: fd_books_def holds_def not_less)
    then show ?thesis using ev f d t1 t2 by (simp add: ac_simps)
  qed
  ultimately show ?thesis using run(1) by blast
qed



section \<open>Python programs\<close>

lemma py_open_alike:
  assumes "quiet_py py tx" "py_open os py dev excl nonblock persist s0 = (Inr x, s1)"
  obtains y where "options_open os \<lparr>oo_excl = excl, oo_nonblock = nonblock, oo_persist = persist\<rparr> (Dev (py_device_raw dev)) s0
    = (Inr y, s1)" "same_session x y"
proof -
  let ?o = "\<lparr>oo_excl = excl, oo_nonblock = nonblock, oo_persist = persist\<rparr>"
  obtain rc raw s' where o: "tt_open os (Some (py_device_raw dev))
      (Some \<lparr>sess_dev = uninit_device, sess_fd = 0, sess_flags = 0\<rparr>) (options_flags ?o) s0 = (rc, raw, s')"
    by (metis prod_cases3)
  have fl: "py_open_flags excl nonblock = options_flags ?o"
    by (simp add: py_open_flags_def options_flags_def)
  have "rc = TT_OK" "x = \<lparr>py_raw = the raw, py_persist = persist\<rparr>" "s1 = s'"
    using assms(2) o by (auto simp: py_open_def fl quiet_simps [OF assms(1)] verdict_def split: if_splits)
  with o show thesis by (intro that) (auto simp: options_open_def checked_def check_def same_session_def)
qed

lemma py_drop_alike:
  assumes "quiet_py py tx" "same_session x y"
  shows "py_session_drop os py x s = session_drop os y s"
  using assms
  by (auto simp: py_session_drop_def py_close_def is_closed_def session_drop_def session_close_def tt_close_def
      same_session_def py_check_def quiet_simps Let_def split: prod.splits if_splits)



end
