(* ===== verification/Windows.thy ===== *)
theory Windows
  imports Tidy
begin

text \<open>
  Many windows at a time. A Rust session is only borrowed by its windows, so a program may allocate any
  number of them, bind, free and drop them in any order, and reopen the session in between. The state is the
  session with the windows alive; \<open>win_born\<close> and \<open>win_lost\<close> are kept for the account only: the ids the driver
  gave, and those of windows let go while the session was closed, when no request can be made.
\<close>

section \<open>Windows of a session\<close>

record windows =
  win_sess :: session
  win_live :: "rs_tlb list"
  win_born :: "u32 list"
  win_lost :: "u32 list"

definition rs_id :: "rs_tlb \<Rightarrow> u32" where
  "rs_id t = tlb_id (tlb_raw t)"

text \<open>The \<open>i\<close>th window goes out of the program's hands.\<close>

definition let_go :: "nat \<Rightarrow> windows \<Rightarrow> windows" where
  "let_go i W = W\<lparr>win_live := take i (win_live W) @ drop (Suc i) (win_live W),
     win_lost := (if sess_fd (ss_raw (win_sess W)) < 0 then rs_id (win_live W ! i) # win_lost W else win_lost W)\<rparr>"

inductive windows_step :: "'w os \<Rightarrow> windows \<times> 'w mach \<Rightarrow> windows \<times> 'w mach \<Rightarrow> bool" for os where
  win_alloc: "rs_alloc os sz mode (win_sess W) s = Some (Inr t, x', s') \<Longrightarrow>
    windows_step os (W, s) (W\<lparr>win_sess := x', win_live := t # win_live W, win_born := rs_id t # win_born W\<rparr>, s')"
| win_none: "rs_alloc os sz mode (win_sess W) s = Some (Inl e, x', s') \<Longrightarrow> windows_step os (W, s) (W\<lparr>win_sess := x'\<rparr>, s')"
| win_bind: "i < length (win_live W) \<Longrightarrow> rs_bind os (win_sess W) (win_live W ! i) cfg s = (r, t, s') \<Longrightarrow>
    windows_step os (W, s) (W\<lparr>win_live := (win_live W)[i := t]\<rparr>, s')"
| win_free: "i < length (win_live W) \<Longrightarrow> rs_free os (win_sess W) (win_live W ! i) s = (r, s') \<Longrightarrow>
    windows_step os (W, s) (let_go i W, s')"
| win_drop: "i < length (win_live W) \<Longrightarrow> rs_tlb_drop os (win_sess W) (win_live W ! i) s = s' \<Longrightarrow>
    windows_step os (W, s) (let_go i W, s')"
| win_reopen: "reopen os (win_sess W) s = (r, x', s') \<Longrightarrow> windows_step os (W, s) (W\<lparr>win_sess := x'\<rparr>, s')"

inductive_cases windows_stepE: "windows_step os (W, s) (W', s')"

section \<open>Their accounts\<close>

text \<open>The ids the driver was asked to free.\<close>

definition freed :: "event list \<Rightarrow> u32 list" where
  "freed es = concat (map (\<lambda>p. case snd p of IoFreeTlb i \<Rightarrow> [i] | _ \<Rightarrow> []) (ioctls es))"

lemma freed_append [simp]: "freed (es @ es') = freed es @ freed es'"
  by (simp add: freed_def)

lemma freed_none: "frees es = 0 \<Longrightarrow> freed es = []"
  by (auto simp: freed_def frees_ioctls filter_empty_conv split: ioctl.splits)

definition all_held :: "windows \<Rightarrow> u64 multiset" where
  "all_held W = sum_list (map (\<lambda>t. held (tlb_raw t)) (win_live W))"

text \<open>Every id given is asked back, held by a live window, or lost.\<close>

definition id_books :: "windows \<Rightarrow> 'w mach \<Rightarrow> windows \<Rightarrow> 'w mach \<Rightarrow> bool" where
  "id_books W s W' s' \<longleftrightarrow> extends s s' \<and>
     mset (freed (since s s')) + mset (map rs_id (win_live W')) + mset (win_lost W') + mset (win_born W) =
     mset (map rs_id (win_live W)) + mset (win_lost W) + mset (win_born W')"

interpretation ids: account id_books
proof
  show "id_books W s W s" for W and s :: "'w mach" by (simp add: id_books_def freed_def)
next
  fix W W1 W2 and s t u :: "'w mach"
  assume a: "id_books W s W1 t" "id_books W1 t W2 u"
  then have e: "extends s t" "extends t u" by (simp_all add: id_books_def)
  let ?live = "\<lambda>W. mset (map rs_id (win_live W)) + mset (win_lost W)"
  have 1: "mset (freed (since s t)) + ?live W1 + mset (win_born W) = ?live W + mset (win_born W1)"
    and 2: "mset (freed (since t u)) + ?live W2 + mset (win_born W1) = ?live W1 + mset (win_born W2)"
    using a by (simp_all add: id_books_def ac_simps)
  have "mset (freed (since s u)) + ?live W2 + mset (win_born W) + (mset (win_born W1) + ?live W1) =
      (mset (freed (since s t)) + ?live W1 + mset (win_born W)) + (mset (freed (since t u)) + ?live W2 + mset (win_born W1))"
    by (simp add: since_trans [OF e] ac_simps)
  also have "\<dots> = ?live W + mset (win_born W2) + (mset (win_born W1) + ?live W1)"
    unfolding 1 2 by (simp add: ac_simps)
  finally show "id_books W s W2 u"
    using extends_trans [OF e] by (simp add: id_books_def ac_simps)
qed

interpretation all_maps: ledger mapped unmapped all_held
  by unfold_locales simp_all

definition win_books :: "windows \<Rightarrow> 'w mach \<Rightarrow> windows \<Rightarrow> 'w mach \<Rightarrow> bool" where
  "win_books W s W' s' \<longleftrightarrow> kept mapped unmapped all_held W s W' s' \<and> id_books W s W' s'"

interpretation wins: account win_books
  by unfold_locales (auto simp: win_books_def intro: ids.books_refl ids.books_trans all_maps.books_refl all_maps.books_trans)

section \<open>Each step keeps them\<close>

lemma plain_wins: "plain s s' \<Longrightarrow> win_books W s (W\<lparr>win_sess := x\<rparr>) s'"
  using plain_events [of "since s s'"] freed_none [of "since s s'"]
  by (auto simp: win_books_def kept_def id_books_def all_held_def plain_def)

lemma let_go_held:
  assumes "i < length (win_live W)"
  shows "all_held W = held (tlb_raw (win_live W ! i)) + all_held (let_go i W)"
    "mset (map rs_id (win_live W)) = add_mset (rs_id (win_live W ! i)) (mset (map rs_id (win_live (let_go i W))))"
proof -
  have l: "win_live W = take i (win_live W) @ win_live W ! i # drop (Suc i) (win_live W)"
    by (rule id_take_nth_drop [OF assms])
  show "all_held W = held (tlb_raw (win_live W ! i)) + all_held (let_go i W)"
    by (subst (1) all_held_def, subst l) (simp add: all_held_def let_go_def ac_simps)
  show "mset (map rs_id (win_live W)) = add_mset (rs_id (win_live W ! i)) (mset (map rs_id (win_live (let_go i W))))"
    by (subst l) (simp add: let_go_def)
qed

lemma free_run:
  assumes "mapping_calls os" "rs_free os dev t s = (r, s')"
  shows "extends s s'" "mapped (since s s') = []" "mset (unmapped (since s s')) = held (tlb_raw t)"
    "freed (since s s') = (if sess_fd (ss_raw dev) < 0 then [] else [rs_id t])"
proof -
  obtain rc raw where f: "tt_tlb_free os (Some (ss_raw dev)) (Some (tlb_raw t)) s = (rc, raw, s')"
    using assms(2) by (auto simp: rs_free_def split: prod.splits)
  from f have "extends s s' \<and> mapped (since s s') = [] \<and> mset (unmapped (since s s')) = held (tlb_raw t) \<and>
      freed (since s s') = (if sess_fd (ss_raw dev) < 0 then [] else [rs_id t])"
    using assms(1) by (cases rule: tt_tlb_free_cases) (auto simp: since_eq extendsI held_def freed_def rs_id_def)
  then show "extends s s'" "mapped (since s s') = []" "mset (unmapped (since s s')) = held (tlb_raw t)"
    "freed (since s s') = (if sess_fd (ss_raw dev) < 0 then [] else [rs_id t])" by auto
qed

lemma free_wins:
  assumes "mapping_calls os" "i < length (win_live W)" "rs_free os (win_sess W) (win_live W ! i) s = (r, s')"
  shows "win_books W s (let_go i W) s'"
proof -
  have born: "win_born (let_go i W) = win_born W"
    and lost: "win_lost (let_go i W) =
      (if sess_fd (ss_raw (win_sess W)) < 0 then rs_id (win_live W ! i) # win_lost W else win_lost W)"
    by (simp_all add: let_go_def)
  show ?thesis
    using free_run [OF assms(1,3)] let_go_held [OF assms(2)]
    by (simp add: win_books_def kept_def id_books_def born lost ac_simps)
qed

lemma held_update:
  assumes "i < length ts"
  shows "sum_list (map (\<lambda>t. held (tlb_raw t)) (ts[i := t])) + held (tlb_raw (ts ! i)) =
    sum_list (map (\<lambda>t. held (tlb_raw t)) ts) + held (tlb_raw t)"
  using assms by (induction ts arbitrary: i) (auto simp: ac_simps nth_Cons split: nat.splits)

lemma bind_wins:
  assumes "mapping_calls os" "i < length (win_live W)" "rs_bind os (win_sess W) (win_live W ! i) cfg s = (r, t, s')"
  shows "win_books W s (W\<lparr>win_live := (win_live W)[i := t]\<rparr>) s'"
proof -
  note b = rs_bind_step [OF assms(1,3)]
  have "rs_id t = rs_id (win_live W ! i)" using b(2) by (simp add: rs_id_def)
  then have ids: "map rs_id ((win_live W)[i := t]) = map rs_id (win_live W)"
    using list_update_id [of "map rs_id (win_live W)" i] assms(2) by (simp add: map_update)
  have "freed (since s s') = []" using b(4) by (fastforce simp: freed_def)
  moreover have "mset (mapped (since s s')) + all_held W = mset (unmapped (since s s')) + all_held (W\<lparr>win_live := (win_live W)[i := t]\<rparr>)"
  proof -
    let ?h = "held (tlb_raw (win_live W ! i))"
    have "mset (mapped (since s s')) + all_held W + ?h = mset (unmapped (since s s')) + held (tlb_raw t) + all_held W"
      using b(5) by (simp add: ac_simps)
    also have "\<dots> = mset (unmapped (since s s')) + all_held (W\<lparr>win_live := (win_live W)[i := t]\<rparr>) + ?h"
      using held_update [OF assms(2), of t] by (simp add: all_held_def ac_simps)
    finally show ?thesis by simp
  qed
  ultimately show ?thesis using b(1) ids by (simp add: win_books_def kept_def id_books_def)
qed

lemma alloc_wins:
  assumes "rs_alloc os sz mode (win_sess W) s = Some (Inr t, x', s')"
  shows "win_books W s (W\<lparr>win_sess := x', win_live := t # win_live W, win_born := rs_id t # win_born W\<rparr>) s'"
  using alloc_owes [OF assms] freed_none [of "since s s'"]
  by (auto simp: win_books_def kept_def id_books_def all_held_def)

lemma none_wins:
  assumes "rs_alloc os sz mode (win_sess W) s = Some (Inl e, x', s')"
  shows "win_books W s (W\<lparr>win_sess := x'\<rparr>) s'"
  by (rule plain_wins) (use alloc_owes [OF assms] in simp)

interpretation windows_life: history win_books "mapping_calls os" "windows_step os" for os :: "'w os"
proof
  fix W W' and s s' :: "'w mach"
  assume "mapping_calls os" "windows_step os (W, s) (W', s')"
  from this(2) this(1) show "win_books W s W' s'"
    by (cases rule: windows_stepE)
      (auto simp: rs_tlb_drop_def intro: alloc_wins none_wins free_wins bind_wins plain_wins reopen_plain
        free_wins [OF _ _ prod.collapse [symmetric]])
qed

section \<open>Windows interleaved\<close>



end
