(* ===== verification/Typed.thy ===== *)
theory Typed
  imports RsSmc PySmc PyTelem
begin

text \<open>
  The sources' fixed-size arrays are lists here. This theory shows that the model keeps their types: a
  message is eight words and a telemetry table has a slot per number of the firmware's tag space, wherever
  one comes from.
\<close>

section \<open>Messages are eight words\<close>

text \<open>The ioctl copies its eight words back in place: the driver neither grows nor shrinks the structure.\<close>

definition smc_sized :: "'w os \<Rightarrow> bool" where
  "smc_sized os \<longleftrightarrow> (\<forall>f op m e w. length m = 8 \<longrightarrow> length (snd (fst (ioc_smc os f op m e w))) = 8)"

definition eight :: "u32 list option \<Rightarrow> bool" where
  "eight rsp \<longleftrightarrow> (case rsp of None \<Rightarrow> False | Some m \<Rightarrow> length m = 8)"

lemma eight_simps [simp]: "eight (Some m) \<longleftrightarrow> length m = 8" "\<not> eight None"
  by (simp_all add: eight_def)

lemma eight_the: "eight rsp \<Longrightarrow> length (the rsp) = 8"
  by (cases rsp) simp_all

lemma smc_sizedD:
  assumes "smc_sized os" "k_smc os f op m s = ((r, m'), s')" "length m = 8"
  shows "length m' = 8"
  using assms by (auto simp: smc_sized_def call_def split: prod.splits) (metis fst_conv snd_conv)

lemma poll_sized:
  assumes "smc_sized os" "tt_smc_poll os (Some ss) rsp s = (rc, rsp', s')" "eight rsp"
  shows "eight rsp'"
proof -
  obtain r m s1 where k: "k_smc os (sess_fd ss) SMC_POLL zero_msg s = ((r, m), s1)" by (metis surj_pair)
  have "length m = 8" by (rule smc_sizedD [OF assms(1) k]) (simp add: zero_msg_def)
  then show ?thesis
    using assms(2,3) k by (auto simp: tt_smc_poll_def out_def split: option.splits if_splits prod.splits)
qed

lemma wait_loop_sized:
  assumes "smc_wait_loop os ss budget start spins rsp s = Some x" "smc_sized os" "eight rsp"
  shows "eight (fst (snd x))"
  using assms
proof (induction rule: smc_wait_induct)
  case (step loop os ss budget start spins rsp s x)
  obtain rc rsp1 s1 where p: "tt_smc_poll os (Some ss) rsp s = (rc, rsp1, s1)" by (metis prod_cases3)
  obtain ms s2 where e: "elapsed_ms os start s1 = (ms, s2)" by (metis prod.exhaust)
  have 1: "eight rsp1" by (rule poll_sized [OF step.prems(1) p step.prems(2)])
  show ?case
  proof (cases "rc = TT_OK \<or> errno s1 \<noteq> EAGAIN \<or> ms \<ge> budget")
    case True
    then have "x = (rc, rsp1, s1) \<or> (\<exists>s3. x = (TT_ERR, rsp1, s3))"
      using step(2) p e by (cases "rc = TT_OK") (auto simp: out_def tt_fail_def split: if_splits)
    then show ?thesis using 1 by auto
  next
    case False
    then show ?thesis using step(2) p e step(1) [OF _ step.prems(1) 1] by simp
  qed
qed

lemma wait_sized:
  assumes "tt_smc_wait os (Some ss) rsp timeout s = Some (rc, rsp', s')" "smc_sized os" "eight rsp"
  shows "eight rsp'"
  using assms wait_loop_sized
  by (fastforce simp: tt_smc_wait_def Let_def out_def split: option.splits if_splits prod.splits)

lemma call_sized:
  assumes "tt_smc_call os (Some ss) (Some m) rsp timeout s = Some (rc, rsp', s')" "smc_sized os" "eight rsp"
  shows "eight rsp'"
  using assms(1,3)
  by (auto simp: tt_smc_call_def out_def Let_def split: option.splits if_splits prod.splits
      dest: wait_sized [OF _ assms(2)])

section \<open>What the bindings hand out\<close>

lemma rs_wait_sized:
  assumes "smc_sized os"
  shows "queued_wait os timeout q s = Some (Inr m, q', s') \<Longrightarrow> length (words m) = 8"
    "queued_try_wait os q s = (Inr m, q', s') \<Longrightarrow> length (words m) = 8"
  by (auto simp: queued_wait_def queued_try_wait_def map_sum_def Let_def split: option.splits prod.splits sum.splits
      intro!: eight_the dest: wait_sized [OF _ assms] poll_sized [OF assms])

lemma rs_call_sized:
  assumes "smc_sized os" "rs_call os req timeout sess s = Some (Inr m, s')"
  shows "length (words m) = 8"
  using assms(2)
  by (auto simp: rs_call_def map_sum_def split: option.splits prod.splits sum.splits
      intro!: eight_the dest: call_sized [OF _ assms(1)])

lemma py_poll_sized:
  assumes "smc_sized os" "py_poll os py (Some x) q s = (Inr (Some m), q', s')"
  shows "length (py_words m) = 8"
  using assms(2)
  by (auto simp: py_poll_def Let_def split: prod.splits if_splits
      intro!: eight_the dest: poll_sized [OF assms(1)])

lemma py_call_sized:
  assumes "smc_sized os" "py_call os py x req t s = Some (Inr m, s')"
  shows "length (py_words m) = 8"
proof -
  obtain ms where ms: "py_millis t = Inr ms"
    using assms(2) by (auto simp: py_call_def split: sum.splits)
  let ?k = "\<lambda>s. case tt_smc_call os (Some (py_raw x)) (Some (py_words req)) (Some (replicate 8 0)) ms s of
      None \<Rightarrow> None | Some (rc, rsp, s1) \<Rightarrow> Some ((rc, errno s1, rsp), s1)"
  obtain rc e rsp s1 where d: "detach py ?k s = Some ((rc, e, rsp), s1)"
    and v: "verdict py rc e (PyMessage (the rsp)) s1 = (Inr m, s')"
    using assms(2) ms by (auto simp: py_call_def split: option.splits prod.splits)
  from d obtain t1 t2 where "?k t1 = Some ((rc, e, rsp), t2)" by (rule detach_run)
  then have "eight rsp" by (auto split: option.splits dest: call_sized [OF _ assms(1)])
  moreover have "m = PyMessage (the rsp)" using v by (auto elim: verdict_cases)
  ultimately show ?thesis by (simp add: eight_the)
qed

lemma py_new_sized:
  "py_message_new ws = Inr m \<Longrightarrow> length (py_words m) = 8"
  using py_message_padded by (cases ws) (fastforce simp: py_message_new_def split: if_splits)+

lemma rs_telemetry_sized:
  assumes "rs_telemetry os sess s = Some (Inr t, sess', s')"
  shows "length (telem_table t) = TT_TELEMETRY_LEN"
  using perform_ok [OF assms [unfolded rs_telemetry_def]] telem_op_sized by metis

lemma py_telemetry_sized:
  assumes "py_telemetry os py x s = Some (Inr t, x', s')"
  shows "length (py_data t) = TT_TELEMETRY_LEN"
proof -
  obtain u where "py_telem_op os py x' u = Some (Inr t, s')"
    using py_perform_ok [OF assms [unfolded py_telemetry_def]] .
  then obtain rc tb v where run: "tt_telemetry os (Some (py_raw x')) (Some (replicate TT_TELEMETRY_LEN 0)) u = Some (rc, tb, v)"
    and c: "map_sum id py_telem_from_raw (fst (py_checked py (rc, tb, v))) = Inr t"
    by (auto simp: py_telem_op_def split: option.splits prod.splits)
  obtain q w where q: "py_checked py (rc, tb, v) = (q, w)" by (metis prod.exhaust)
  from q have "rc = 0 \<and> t = PyTelemetry (the tb)"
    using c q by (cases rule: py_checked_cases) (simp_all add: py_telem_from_raw_def)
  moreover from this have "telem_op os \<lparr>ss_raw = py_raw x', ss_opts = options_new\<rparr> u = Some (Inr (Telemetry (the tb)), v)"
    using run by (simp add: telem_op_def)
  ultimately show ?thesis using telem_op_sized by fastforce
qed

section \<open>The types are kept\<close>



end
