(* ===== verification/Build.thy ===== *)
theory Build
  imports RsVersion
begin

text \<open>
  \<open>src/sys/build.rs\<close>: the build of the FFI crate. It drives \<open>cmake\<close>, \<open>bindgen\<close> and \<open>cc\<close>, which are parameters,
  and has one rule of its own: the version the C header defines must be the crate's. \<open>bindgen\<close> reports
  every integer macro of the header to a callback, which keeps the three version macros in a static.
\<close>

section \<open>The toolchain\<close>

text \<open>
  What the script relies on, each \<^const>\<open>None\<close> or \<^const>\<open>False\<close> where the code panics: the directory \<open>cmake\<close>
  installs to, \<open>OUT_DIR\<close>, the integer macros \<open>bindgen\<close> presents for a header, writing the bindings,
  \<open>CARGO_PKG_VERSION\<close> parsed, and compiling the wrappers. \<open>tc_equal\<close> is the \<open>semver\<close> crate's comparison of
  precedence being equal, and \<open>tc_show\<close> its formatting.
\<close>

record toolchain =
  tc_cmake :: "string option"
  tc_out_dir :: "string option"
  tc_bindgen :: "string \<Rightarrow> (string \<times> int) list option"
  tc_write :: "string \<Rightarrow> bool"
  tc_package :: "semver option"
  tc_cc :: "string \<Rightarrow> bool"
  tc_equal :: "semver \<Rightarrow> semver \<Rightarrow> bool"
  tc_show :: "semver \<Rightarrow> string"

section \<open>The script\<close>

definition version_new :: semver where
  "version_new = \<lparr>sv_major = 0, sv_minor = 0, sv_patch = 0, sv_pre = [], sv_build = []\<rparr>"

text \<open>The callback on the static \<open>VERSION\<close>; an \<open>i64\<close> is an integer, \<open>as u64\<close> wraps it.\<close>

definition int_macro :: "string \<times> int \<Rightarrow> semver \<Rightarrow> semver" where
  "int_macro m v =
     (case m of (name, value) \<Rightarrow>
        if name = ''TTDAL_VERSION_MAJOR'' then v\<lparr>sv_major := of_int value\<rparr>
        else if name = ''TTDAL_VERSION_MINOR'' then v\<lparr>sv_minor := of_int value\<rparr>
        else if name = ''TTDAL_VERSION_PATCH'' then v\<lparr>sv_patch := of_int value\<rparr>
        else v)"

text \<open>The lines the script prints, and whether it runs to its end.\<close>

definition build_main :: "toolchain \<Rightarrow> string list \<times> bool" where
  "build_main tc =
     (let rerun = [''cargo:rerun-if-changed=include/ttdal.h'', ''cargo:rerun-if-changed=src'',
                   ''cargo:rerun-if-changed=CMakeLists.txt''] in
      case tc_cmake tc of None \<Rightarrow> (rerun, False) | Some dst \<Rightarrow>
      let linked = rerun @ [''cargo:rustc-link-search=native='' @ dst @ ''/lib'',
                            ''cargo:rustc-link-lib=static=ttdal''] in
      case tc_out_dir tc of None \<Rightarrow> (linked, False) | Some out_dir \<Rightarrow>
      case tc_bindgen tc (dst @ ''/include/ttdal.h'') of None \<Rightarrow> (linked, False) | Some macros \<Rightarrow>
      if \<not> tc_write tc (out_dir @ ''/bindings.rs'') then (linked, False)
      else let ttdal = fold int_macro macros version_new in
      case tc_package tc of None \<Rightarrow> (linked, False) | Some pkg \<Rightarrow>
      let cargo = pkg\<lparr>sv_pre := []\<rparr>;
          checked = (if \<not> tc_equal tc ttdal cargo
            then linked @ [''cargo::error=version mismatch (found: '' @ tc_show tc cargo @ '', expected: '' @
              tc_show tc ttdal @ '')'']
            else linked)
      in (checked, tc_cc tc (out_dir @ ''/extern.c'')))"

section \<open>The version rule\<close>

text \<open>
  The documented comparison of precedence: major, minor, patch and pre-release, disregarding build
  metadata.
\<close>

definition precedence_law :: "(semver \<Rightarrow> semver \<Rightarrow> bool) \<Rightarrow> bool" where
  "precedence_law eq \<longleftrightarrow> (\<forall>a b. eq a b \<longleftrightarrow>
     sv_major a = sv_major b \<and> sv_minor a = sv_minor b \<and> sv_patch a = sv_patch b \<and> sv_pre a = sv_pre b)"

text \<open>The last definition of a macro, zero if it has none.\<close>

definition macro_value :: "string \<Rightarrow> (string \<times> int) list \<Rightarrow> u64" where
  "macro_value name macros = (case map_of (rev macros) name of None \<Rightarrow> 0 | Some v \<Rightarrow> of_int v)"

text \<open>A build refuses the crate, by an error line for Cargo.\<close>

definition refuses :: "toolchain \<Rightarrow> bool" where
  "refuses tc \<longleftrightarrow> (\<exists>l \<in> set (fst (build_main tc)). take 12 l = ''cargo::error'')"

lemma fold_int_macro:
  "fold int_macro macros version_new =
     \<lparr>sv_major = macro_value ''TTDAL_VERSION_MAJOR'' macros, sv_minor = macro_value ''TTDAL_VERSION_MINOR'' macros,
      sv_patch = macro_value ''TTDAL_VERSION_PATCH'' macros, sv_pre = [], sv_build = []\<rparr>"
proof (induction macros rule: rev_induct)
  case Nil
  show ?case by (simp add: version_new_def macro_value_def)
next
  case (snoc m ms)
  obtain name v where m: "m = (name, v)" by (cases m)
  have "macro_value x (ms @ [m]) = (if x = name then of_int v else macro_value x ms)" for x
    by (simp add: macro_value_def m)
  then show ?case using snoc m by (simp add: int_macro_def)
qed

text \<open>
  C39: a build that gets as far as comparing the versions refuses the crate exactly when the C header's
  version macros, each as last defined, are not Cargo's major, minor and patch number: a pre-release or
  build suffix of the crate's does not matter, and a macro the header lacks counts as zero.
\<close>

theorem build_version_rule:
  assumes "precedence_law (tc_equal tc)" "tc_cmake tc = Some dst" "tc_out_dir tc = Some out_dir"
    "tc_bindgen tc (dst @ ''/include/ttdal.h'') = Some macros" "tc_write tc (out_dir @ ''/bindings.rs'')"
    "tc_package tc = Some pkg"
  shows "refuses tc \<longleftrightarrow>
    (macro_value ''TTDAL_VERSION_MAJOR'' macros, macro_value ''TTDAL_VERSION_MINOR'' macros,
     macro_value ''TTDAL_VERSION_PATCH'' macros) \<noteq> (sv_major pkg, sv_minor pkg, sv_patch pkg)"
  using assms
  by (auto simp: refuses_def build_main_def Let_def fold_int_macro precedence_law_def numeral_eq_Suc)

definition stub_toolchain :: toolchain where
  "stub_toolchain =
     \<lparr>tc_cmake = Some ''/out'', tc_out_dir = Some ''/out'',
      tc_bindgen = (\<lambda>h. Some [(''TTDAL_VERSION_MAJOR'', 0), (''TT_SMC_TIMEOUT_DEFAULT'', 1000),
        (''TTDAL_VERSION_MINOR'', 1), (''TTDAL_VERSION_PATCH'', 2)]),
      tc_write = (\<lambda>_. True),
      tc_package = Some \<lparr>sv_major = 0, sv_minor = 1, sv_patch = 2, sv_pre = ''rc.1'', sv_build = []\<rparr>,
      tc_cc = (\<lambda>_. True),
      tc_equal = (\<lambda>a b. sv_major a = sv_major b \<and> sv_minor a = sv_minor b \<and> sv_patch a = sv_patch b \<and> sv_pre a = sv_pre b),
      tc_show = (\<lambda>_. ''0.1.2'')\<rparr>"

theorem build_version_rule_witness:
  "\<not> refuses stub_toolchain \<and> refuses (stub_toolchain\<lparr>tc_bindgen := (\<lambda>h. Some [(''TTDAL_VERSION_MAJOR'', 1)])\<rparr>)"
proof
  have law: "precedence_law (tc_equal stub_toolchain)" by (simp add: precedence_law_def stub_toolchain_def)
  let ?pkg = "\<lparr>sv_major = 0, sv_minor = 1, sv_patch = 2, sv_pre = ''rc.1'', sv_build = []\<rparr> :: semver"
  show "\<not> refuses stub_toolchain"
    using build_version_rule [OF law, of "''/out''" "''/out''"]
    by (simp add: stub_toolchain_def macro_value_def)
  show "refuses (stub_toolchain\<lparr>tc_bindgen := (\<lambda>h. Some [(''TTDAL_VERSION_MAJOR'', 1)])\<rparr>)"
    using law build_version_rule [of "stub_toolchain\<lparr>tc_bindgen := (\<lambda>h. Some [(''TTDAL_VERSION_MAJOR'', 1)])\<rparr>"
        "''/out''" "''/out''" "[(''TTDAL_VERSION_MAJOR'', 1)]" ?pkg]
    by (simp add: stub_toolchain_def macro_value_def)
qed

end
