(* ===== verification/Spec2Isabelle.thy ===== *)
theory Spec2Isabelle
  imports Snapshot RsPci PyLife PyModule SmcLive Lockstep Tidy Windows Typed Build
begin

text \<open>
  The Tenstorrent device access library, \<open>tt-dal\<close>: a C core (\<open>src/src\<close>, header \<open>src/include/ttdal.h\<close>) over
  the kernel driver's device nodes and ioctls, and two bindings to it, a Rust crate (\<open>src/bind/rs\<close>) and a
  Python extension written in Rust (\<open>src/bind/py\<close>). Every binding operation calls the core; the core makes
  system calls and accesses mapped device memory. The development follows that layering.

  \<^bold>\<open>Foundations.\<close> \<open>Prelude\<close>: machine integers, errno values, generic lemmas. \<open>OS\<close>: the system the library is
  linked against, a record of functions over an arbitrary world that every operation takes as a parameter,
  and the machine state: errno, world, a trace of the calls made, and the static variables of \<open>trap.c\<close>. The
  trace is read by no definition; lemmas about order, leaks and untouched devices speak of it. \<open>Text\<close>: C's
  number parsing and printing as the sources use it. \<open>Stub\<close>: one small concrete system, for the witnesses.

  \<^bold>\<open>C core.\<close> \<open>Err\<close> (\<open>err.h\<close>): failures and the normalisation of \<open>ENODEV\<close>. \<open>Device\<close> (\<open>dev/mod.c\<close>): opening,
  closing, reopening, information, scanning, lookup by path and by address. \<open>PowerState\<close> (\<open>dev/power.c\<close>), which
  also states the contract of session operations as the locale \<open>session_op\<close>, interpreted on every operation that
  takes an open session. \<open>Tlb\<close> (\<open>dev/tlb.c\<close>): windows. \<open>Trap\<close> (\<open>trap.c\<close>): the guard that turns faults of
  device memory into errors. \<open>Telem\<close> and \<open>Snapshot\<close> (\<open>dev/telem.c\<close>): reading telemetry, and what its table
  holds. \<open>Smc\<close> (\<open>dev/smc.c\<close>, \<open>clock.h\<close>): messages and their timeouts. \<open>Reset\<close> (\<open>dev/reset.c\<close>). \<open>Version\<close>
  (\<open>ver.c\<close>).

  \<^bold>\<open>Rust binding.\<close> \<open>RsErr\<close> (\<open>err.rs\<close>), \<open>Retry\<close> and \<open>RsSession\<close> (\<open>dev/mod.rs\<close>), \<open>RsPci\<close> (\<open>pci.rs\<close>), \<open>RsTlb\<close>,
  \<open>RsSmc\<close>, \<open>RsPower\<close>, \<open>RsTag\<close> and \<open>RsTelem\<close>, \<open>RsReset\<close> (the files of \<open>dev\<close>), \<open>RsVersion\<close> (\<open>ver.rs\<close>, \<open>fw.rs\<close>,
  \<open>kmd.rs\<close>, \<open>lib.rs\<close>). A method that updates its object returns it with the machine; a value the
  language drops has a drop function. \<open>RsLife\<close> composes all operations into a session's life.

  \<^bold>\<open>Python binding.\<close> \<open>PyErr\<close> (\<open>err.rs\<close>) with the interpreter as a second parameter, \<open>PySession\<close>
  (\<open>dev/mod.rs\<close>), \<open>PyTlb\<close>, \<open>F64\<close> and \<open>PySmc\<close>, \<open>PyPower\<close>, \<open>PyTag\<close> and \<open>PyTelem\<close>, \<open>PyReset\<close>, \<open>PyVersion\<close>,
  \<open>PyModule\<close> (\<open>lib.rs\<close>). Objects are shared there, so a method receives the object it refers to as it is at
  the call, or nothing when it is mutably borrowed elsewhere. \<open>F64\<close> is the double-precision arithmetic
  timeouts go through. \<open>PyLife\<close> composes the operations into a session's life.

  \<^bold>\<open>Across components.\<close> \<open>SmcLive\<close>: message waits over a device that answers in the end. \<open>Lockstep\<close>: whole
  programs of requests, run through either binding. \<open>Tidy\<close>: what such a program of either binding, from
  the opening of its session to its drop, leaves behind of descriptors, mappings, windows and the fault guard.
  \<open>Windows\<close>: any number of windows of one session, interleaved. \<open>Typed\<close>: the fixed-size arrays of the sources,
  lists in the model, keep their lengths. \<open>Build\<close> (\<open>src/sys/build.rs\<close>): the build script of the FFI crate, over
  its tools.

  \<^bold>\<open>Interfaces.\<close> \<open>session_op\<close> (\<open>PowerState\<close>): what every operation on an open session promises. \<open>retrying\<close> and its
  extension \<open>performing\<close> (\<open>Retry\<close>): the retry loop and the \<open>perform\<close> both bindings build on it, interpreted on
  both. \<open>account\<close> and \<open>ledger\<close> (\<open>Books\<close>): accounts of descriptors, mappings and windows that compose, with
  \<open>history\<close> and \<open>performing_account\<close> for the sequences and retried calls that keep them. \<open>codec\<close> (\<open>RsPci\<close>): printing
  and parsing that are inverse.

  \<^bold>\<open>What is shown.\<close> Resources: telemetry, resets, lookups, windows, messages and whole sessions leave no
  descriptor, mapping, window or message slot behind, on any path. Order: a reset follows its protocol, a
  session consumed by one is closed exactly once, first. Termination: scans, waits, resets and telemetry
  return, under stated laws of time and of the directory. Liveness: a posted message is not lost, and a wait that
  reaches the device's answer delivers it; a call on a persistent session is exactly its chain of runs and
  reopenings. Function: lookups find the device that reports an address, addresses print and parse back,
  snapshots are exactly the device's table, versions are the text the driver prints. Errors: what each failing
  call leaves. The two bindings' session methods agree call by call (this theory) and so do whole programs
  (\<open>Lockstep\<close>).

  \<^bold>\<open>Bounds.\<close> The bindings retry three times (\<open>RETRIES\<close>, \<open>PY_RETRIES\<close>); a telemetry snapshot is
  attempted three times (\<open>attempts\<close>). Programs make any number \<open>n\<close> of requests. The loops of scanning, waiting and
  resetting are \<open>partial_function (option)\<close>s without fuel: \<^const>\<open>None\<close> is a run that does not end, and the
  theorems that exclude it name what they rely on (a bounded directory; a clock that keeps time).

  \<^bold>\<open>Not modelled.\<close> The kernel driver and the header vendored from it, libc, CPython, pyo3 and the two
  \<open>semver\<close> libraries are parameters, not definitions, and so are the tools of the build. Threads: one thread
  runs the C core, and other Python threads appear only as objects that are borrowed. \<open>src/sys/src/lib.rs\<close>
  includes the generated FFI bindings; the tests and examples are left out, and so are conversions of arguments
  that pyo3 generates.
\<close>

section \<open>The two bindings agree\<close>

text \<open>
  Under an interpreter that keeps to itself, the Python methods of a session do what the Rust methods of
  a session with the same handle and persistence do: the same calls, retries and reopenings in the same
  order, the same handle left behind, and the same result, an error being the exception with the same
  errno. So what is proved of the Rust binding's sessions holds of Python's.
\<close>

theorem bindings_agree:
  assumes "quiet_py py tx" "same_session x y"
  shows "agree_run tx PyInfo (py_session_info os py x s) (session_info os y s) \<and>
    agree_run tx id (py_power os py flags x s) (rs_power os (FlagSet (py_bits flags)) y s) \<and>
    agree_run tx (\<lambda>t. PyTelemetry (telem_table t)) (py_telemetry os py x s) (rs_telemetry os y s) \<and>
    agree_run tx (\<lambda>t. \<lparr>pt_raw = tlb_raw t, pt_freed = False\<rparr>) (py_alloc os py sz mode x s)
      (rs_alloc os (rust_size sz) (rust_caching mode) y s)"
  by (intro conjI agree_info agree_power agree_telemetry agree_alloc assms)

theorem bindings_agree_witness:
  "\<exists>x r s'. py_power stub_os stub_py PyHI
      \<lparr>py_raw = \<lparr>sess_dev = \<lparr>dev_id = 0\<rparr>, sess_fd = 3, sess_flags = 0\<rparr>, py_persist = True\<rparr> stub_mach = Some (r, x, s') \<and>
    is_err r = False"
proof -
  let ?x = "\<lparr>py_raw = \<lparr>sess_dev = \<lparr>dev_id = 0\<rparr>, sess_fd = 3, sess_flags = 0\<rparr>, py_persist = True\<rparr>"
  let ?y = "\<lparr>ss_raw = py_raw ?x, ss_opts = options_persistent True options_new\<rparr>"
  have same: "same_session ?x ?y" by (simp add: same_session_def options_persistent_def)
  obtain s' where p: "rs_power stub_os (FlagSet (py_bits PyHI)) ?y stub_mach = Some (Inr (), ?y, s')"
    by (simp add: rs_power_def perform_def power_op_def tt_power_def options_persistent_def RETRIES_def
        numeral_3_eq_3 is_err_lost_def stub_defs Let_def)
  have "agree_run (\<lambda>_. ''error'') id (py_power stub_os stub_py PyHI ?x stub_mach)
      (rs_power stub_os (FlagSet (py_bits PyHI)) ?y stub_mach)"
    using bindings_agree [OF stub_quiet same] by blast
  then show ?thesis unfolding p by (auto simp: agree_run_def is_err_def)
qed

end
